(* ===== verification/Prelude.thy ===== *)
theory Prelude
  imports Complex_Main "HOL-Library.Word" "HOL-Library.Multiset"
begin

text \<open>
  Shared vocabulary of the development: the machine types of the engine, the C++
  exceptions it throws as values of a sum type, and generic lemmas on lists and words
  that the component theories use.

  Integers. \<open>std::uint64_t\<close> and \<open>std::size_t\<close> (64 bits on the engine's only target,
  x86-64 Linux) are \<open>64 word\<close> wherever a wrap-around is possible; \<open>int\<close> is HOL's
  \<open>int\<close> where the code only counts or compares. Lengths of containers are \<open>nat\<close>.
\<close>

unbundle bit_operations_syntax

type_synonym u8 = "8 word"
type_synonym u16 = "16 word"
type_synonym u32 = "32 word"
type_synonym u64 = "64 word"

text \<open>Rewrite rules for the results of the engine's fallible operations.\<close>

named_theorems result_simps
named_theorems word_simps

section \<open>Exceptions as values\<close>

text \<open>
  The exception types the engine throws. \<open>Validation_error\<close> is \<open>CLI::ValidationError\<close>
  (option name and message), \<open>Json_error\<close> is \<open>json::exception\<close>, \<open>Out_of_range\<close> and \<open>Invalid_argument\<close> are those of the
  standard library.
\<close>

datatype exn =
    Runtime_error string
  | Invalid_argument string
  | Out_of_range string
  | Bad_alloc
  | Json_error string
  | Validation_error string string

type_synonym 'a result = "exn + 'a"

definition rbind :: "'a result \<Rightarrow> ('a \<Rightarrow> 'b result) \<Rightarrow> 'b result" where
  "rbind m f = (case m of Inl e \<Rightarrow> Inl e | Inr x \<Rightarrow> f x)"

lemma rbind_Inl [simp, result_simps]: "rbind (Inl e) f = Inl e"
  by (simp add: rbind_def)

lemma rbind_Inr [simp, result_simps]: "rbind (Inr x) f = f x"
  by (simp add: rbind_def)

lemma rbind_eq_Inr: "rbind m f = Inr y \<longleftrightarrow> (\<exists>x. m = Inr x \<and> f x = Inr y)"
  by (cases m) auto

lemma rbind_eq_Inl: "rbind m f = Inl e \<longleftrightarrow> m = Inl e \<or> (\<exists>x. m = Inr x \<and> f x = Inl e)"
  by (cases m) auto

text \<open>A \<open>for\<close> loop over a container whose body may throw.\<close>

fun rmap :: "('a \<Rightarrow> 'b result) \<Rightarrow> 'a list \<Rightarrow> 'b list result" where
  "rmap f [] = Inr []"
| "rmap f (x # xs) = rbind (f x) (\<lambda>y. rbind (rmap f xs) (\<lambda>ys. Inr (y # ys)))"

lemma rmap_Inr_map: "(\<And>x. x \<in> set xs \<Longrightarrow> f (g x) = Inr (h x)) \<Longrightarrow> rmap f (map g xs) = Inr (map h xs)"
  by (induction xs) auto

lemma rmap_length: "rmap f xs = Inr ys \<Longrightarrow> length ys = length xs"
  by (induction xs arbitrary: ys) (auto simp: rbind_eq_Inr)

section \<open>Lists\<close>

lemma sum_list_map_nonneg: "(\<And>x. x \<in> set xs \<Longrightarrow> 0 \<le> f x) \<Longrightarrow> 0 \<le> sum_list (map f xs)"
  for f :: "'a \<Rightarrow> 'b::ordered_comm_monoid_add"
  by (induction xs) auto

text \<open>A loop that stores into an array.\<close>

lemma length_fold_update [simp]: "length (foldl (\<lambda>ws i. ws[i := f i]) words is) = length words"
  by (induction "is" arbitrary: words) simp_all

text \<open>\<open>std::swap (a[i], a[j])\<close> on an array held as a list.\<close>

definition swap_at :: "'a list \<Rightarrow> nat \<Rightarrow> nat \<Rightarrow> 'a list" where
  "swap_at a i j = a[i := a ! j, j := a ! i]"

lemma length_swap_at [simp]: "length (swap_at a i j) = length a"
  by (simp add: swap_at_def)

lemma nth_swap_at:
  "i < length a \<Longrightarrow> j < length a \<Longrightarrow>
   swap_at a i j ! k = (if k = i then a ! j else if k = j then a ! i else a ! k)"
  by (auto simp: swap_at_def nth_list_update)

lemma mset_swap_at: "i < length a \<Longrightarrow> j < length a \<Longrightarrow> mset (swap_at a i j) = mset a"
  by (cases "i = j") (simp_all add: swap_at_def mset_swap)

section \<open>Words\<close>

lemma unat_add_lt: "unat a + unat b < 2 ^ LENGTH('n) \<Longrightarrow> unat (a + b) = unat a + unat b"
  for a b :: "'n::len word"
  by (simp add: unat_word_ariths)

lemma unat_mult_lt: "unat a * unat b < 2 ^ LENGTH('n) \<Longrightarrow> unat (a * b) = unat a * unat b"
  for a b :: "'n::len word"
  by (simp add: unat_word_ariths)

lemma unsigned_real_nonneg [simp]: "0 \<le> (unsigned a :: real)" for a :: "'n::len word"
  by (metis of_nat_0_le_iff of_nat_unat)

lemma unsigned_real_pos [simp]: "0 < (unsigned a :: real) \<longleftrightarrow> a \<noteq> 0" for a :: "'n::len word"
  by (metis of_nat_0_less_iff of_nat_unat unat_gt_0 word_neq_0_conv)

lemma unat_max: "unat (max a b) = max (unat a) (unat b)" for a b :: "'n::len word"
  by (simp add: max_def word_le_nat_alt)

lemma unat_min: "unat (min a b) = min (unat a) (unat b)" for a b :: "'n::len word"
  by (simp add: min_def word_le_nat_alt)

lemma unat_of_nat_lt: "n < 2 ^ LENGTH('n) \<Longrightarrow> unat (of_nat n :: 'n::len word) = n"
  by (simp add: unat_of_nat take_bit_eq_mod)

text \<open>64-bit counters that have not wrapped.\<close>

lemma u64_lt: "unat w < 2 ^ 64" for w :: u64
  using unsigned_less [of w] by simp

lemma u64_of_nat [word_simps]: "n < 2 ^ 64 \<Longrightarrow> unat (of_nat n :: u64) = n"
  by (simp add: unat_of_nat_lt)

lemma u64_of_nat_real [word_simps]: "n < 2 ^ 64 \<Longrightarrow> (unsigned (of_nat n :: u64) :: real) = real n"
  by (metis of_nat_unat u64_of_nat)

lemma u64_of_nat_0 [word_simps]: "n < 2 ^ 64 \<Longrightarrow> (of_nat n :: u64) = 0 \<longleftrightarrow> n = 0"
  by (subst unat_eq_zero [symmetric]) (simp add: u64_of_nat)

lemma u64_Suc [word_simps]: "of_nat n + 1 = (of_nat (n + 1) :: u64)"
  by simp

lemma u64_pred [word_simps]: "0 < n \<Longrightarrow> of_nat n - 1 = (of_nat (n - 1) :: u64)"
  by simp

text \<open>Rounding an address down to a multiple of a power of two with a mask.\<close>

lemma unat_take_bit: "unat (take_bit n a) = unat a mod 2 ^ n" for a :: "'n::len word"
  by (metis take_bit_eq_mod unsigned_take_bit_eq)

lemma unat_and_not_mask: "unat (a AND NOT (mask n)) = unat a - unat a mod 2 ^ n" for a :: "'n::len word"
proof -
  have "(a AND NOT (mask n)) AND take_bit n a = 0"
    by (rule bit_eqI) (auto simp: bit_simps)
  then have "(a AND NOT (mask n)) + take_bit n a = (a AND NOT (mask n)) OR take_bit n a"
    by (rule disjunctive_add_eq_or)
  also have "\<dots> = a" by (rule bit_eqI) (auto simp: bit_simps)
  finally have "a AND NOT (mask n) = a - take_bit n a" by (metis add_diff_cancel_right')
  moreover have "take_bit n a \<le> a"
    by (simp add: word_le_nat_alt unat_take_bit)
  ultimately show ?thesis by (simp add: unat_sub unat_take_bit)
qed

end
