(* ===== verification/Sha256.thy ===== *)
theory Sha256
  imports Prelude
begin

text \<open>
  \<^verbatim>\<open>engine/src/sha256.cpp\<close>, the hash behind \<open>machine.id\<close>: the code's in-place message
  schedule, eight rotating working variables and two-block tail buffer, and the reference
  definitions of FIPS 180-4 (padding, message schedule, compression) it has to implement.
  Byte arrays are lists of \<open>u8\<close>; offsets and sizes are \<open>nat\<close> (a span never exceeds half the
  address space, so \<open>off + 64\<close> cannot wrap), the bit count is a 64-bit word.
\<close>

section \<open>The code\<close>

definition kK :: "u32 list" where
  "kK = concat [
     [0x428a2f98, 0x71374491, 0xb5c0fbcf, 0xe9b5dba5, 0x3956c25b, 0x59f111f1, 0x923f82a4, 0xab1c5ed5],
     [0xd807aa98, 0x12835b01, 0x243185be, 0x550c7dc3, 0x72be5d74, 0x80deb1fe, 0x9bdc06a7, 0xc19bf174],
     [0xe49b69c1, 0xefbe4786, 0x0fc19dc6, 0x240ca1cc, 0x2de92c6f, 0x4a7484aa, 0x5cb0a9dc, 0x76f988da],
     [0x983e5152, 0xa831c66d, 0xb00327c8, 0xbf597fc7, 0xc6e00bf3, 0xd5a79147, 0x06ca6351, 0x14292967],
     [0x27b70a85, 0x2e1b2138, 0x4d2c6dfc, 0x53380d13, 0x650a7354, 0x766a0abb, 0x81c2c92e, 0x92722c85],
     [0xa2bfe8a1, 0xa81a664b, 0xc24b8b70, 0xc76c51a3, 0xd192e819, 0xd6990624, 0xf40e3585, 0x106aa070],
     [0x19a4c116, 0x1e376c08, 0x2748774c, 0x34b0bcb5, 0x391c0cb3, 0x4ed8aa4a, 0x5b9cca4f, 0x682e6ff3],
     [0x748f82ee, 0x78a5636f, 0x84c87814, 0x8cc70208, 0x90befffa, 0xa4506ceb, 0xbef9a3f7, 0xc67178f2]]"

definition rotr :: "u32 \<Rightarrow> nat \<Rightarrow> u32" where
  "rotr x n = word_rotr n x"

definition load_word :: "u8 list \<Rightarrow> u32 list \<Rightarrow> nat \<Rightarrow> u32 list" where
  "load_word block w i =
     w[i := push_bit 24 (ucast (block ! (i * 4))) OR push_bit 16 (ucast (block ! (i * 4 + 1)))
         OR push_bit 8 (ucast (block ! (i * 4 + 2))) OR ucast (block ! (i * 4 + 3))]"

definition extend_word :: "u32 list \<Rightarrow> nat \<Rightarrow> u32 list" where
  "extend_word w i =
     (let s0 = rotr (w ! (i - 15)) 7 XOR rotr (w ! (i - 15)) 18 XOR drop_bit 3 (w ! (i - 15));
          s1 = rotr (w ! (i - 2)) 17 XOR rotr (w ! (i - 2)) 19 XOR drop_bit 10 (w ! (i - 2))
      in w[i := w ! (i - 16) + s0 + w ! (i - 7) + s1])"

definition schedule :: "u8 list \<Rightarrow> u32 list" where
  "schedule block = foldl extend_word (foldl (load_word block) (replicate 64 0) [0..<16]) [16..<64]"

text \<open>The local variables \<open>a\<close> to \<open>hh\<close>.\<close>

record vars =
  va :: u32
  vb :: u32
  vc :: u32
  vd :: u32
  ve :: u32
  vf :: u32
  vg :: u32
  vh :: u32

definition sha_round :: "u32 list \<Rightarrow> vars \<Rightarrow> nat \<Rightarrow> vars" where
  "sha_round w v i =
     (let S1 = rotr (ve v) 6 XOR rotr (ve v) 11 XOR rotr (ve v) 25;
          ch = (ve v AND vf v) XOR (NOT (ve v) AND vg v);
          t1 = vh v + S1 + ch + kK ! i + w ! i;
          S0 = rotr (va v) 2 XOR rotr (va v) 13 XOR rotr (va v) 22;
          maj = (va v AND vb v) XOR (va v AND vc v) XOR (vb v AND vc v);
          t2 = S0 + maj
      in \<lparr>va = t1 + t2, vb = va v, vc = vb v, vd = vc v, ve = vd v + t1, vf = ve v, vg = vf v, vh = vg v\<rparr>)"

definition compress :: "u32 list \<Rightarrow> u8 list \<Rightarrow> u32 list" where
  "compress h block =
     (let v = foldl (sha_round (schedule block))
                \<lparr>va = h ! 0, vb = h ! 1, vc = h ! 2, vd = h ! 3, ve = h ! 4, vf = h ! 5, vg = h ! 6, vh = h ! 7\<rparr>
                [0..<64]
      in [h ! 0 + va v, h ! 1 + vb v, h ! 2 + vc v, h ! 3 + vd v,
          h ! 4 + ve v, h ! 5 + vf v, h ! 6 + vg v, h ! 7 + vh v])"

definition sha256_init :: "u32 list" where
  "sha256_init = [0x6a09e667, 0xbb67ae85, 0x3c6ef372, 0xa54ff53a,
                  0x510e527f, 0x9b05688c, 0x1f83d9ab, 0x5be0cd19]"

text \<open>\<open>for (; off + 64 <= n; off += 64) compress(h, p + off);\<close>\<close>

function sha256_blocks :: "u8 list \<Rightarrow> nat \<Rightarrow> u32 list \<Rightarrow> u32 list \<times> nat" where
  "sha256_blocks p off h =
     (if off + 64 \<le> length p
      then sha256_blocks p (off + 64) (compress h (take 64 (drop off p)))
      else (h, off))"
  by auto
termination by (relation "measure (\<lambda>(p, off, h). length p - off)") auto

declare sha256_blocks.simps [simp del]

text \<open>The tail buffer of 128 zero bytes, with the rest of the message, the marker and the length.\<close>

definition tail_len :: "nat \<Rightarrow> nat" where
  "tail_len rem = (if rem + 1 + 8 \<le> 64 then 64 else 128)"

definition store_bits :: "u64 \<Rightarrow> nat \<Rightarrow> u8 list \<Rightarrow> nat \<Rightarrow> u8 list" where
  "store_bits bits len tail i = tail[len - 1 - i := ucast (drop_bit (8 * i) bits)]"

definition make_tail :: "u8 list \<Rightarrow> nat \<Rightarrow> u8 list" where
  "make_tail p off =
     (let rem = length p - off;
          tail = (drop off p @ replicate (128 - rem) 0)[rem := 0x80];
          bits = of_nat (length p) * 8
      in foldl (store_bits bits (tail_len rem)) tail [0..<8])"

definition put_word :: "u32 list \<Rightarrow> u8 list \<Rightarrow> nat \<Rightarrow> u8 list" where
  "put_word h out i =
     out[i * 4 := ucast (drop_bit 24 (h ! i)), i * 4 + 1 := ucast (drop_bit 16 (h ! i)),
         i * 4 + 2 := ucast (drop_bit 8 (h ! i)), i * 4 + 3 := ucast (h ! i)]"

definition sha256 :: "u8 list \<Rightarrow> u8 list" where
  "sha256 data =
     (let (h, off) = sha256_blocks data 0 sha256_init;
          tail = make_tail data off;
          h = compress h (take 64 tail);
          h = (if tail_len (length data - off) = 128 then compress h (drop 64 tail) else h)
      in foldl (put_word h) (replicate 32 0) [0..<8])"

definition kHex :: string where
  "kHex = ''0123456789abcdef''"

definition sha256_hex :: "string \<Rightarrow> string" where
  "sha256_hex text =
     concat (map (\<lambda>b. [kHex ! unat (drop_bit 4 b), kHex ! unat (b AND 0xF)]) (sha256 (map of_char text)))"

section \<open>FIPS 180-4\<close>

text \<open>
  The standard's functions (section 4.1.2), padding (5.1.1), message schedule and
  compression (6.2.2), over the code's table of constants. \<open>be_word\<close> reads four bytes as a
  big-endian number.
\<close>

definition Ch :: "u32 \<Rightarrow> u32 \<Rightarrow> u32 \<Rightarrow> u32" where
  "Ch x y z = (x AND y) XOR (NOT x AND z)"

definition Maj :: "u32 \<Rightarrow> u32 \<Rightarrow> u32 \<Rightarrow> u32" where
  "Maj x y z = (x AND y) XOR (x AND z) XOR (y AND z)"

definition rot3 :: "nat \<Rightarrow> nat \<Rightarrow> nat \<Rightarrow> u32 \<Rightarrow> u32" where
  "rot3 i j k x = word_rotr i x XOR word_rotr j x XOR word_rotr k x"

definition rot2_shift :: "nat \<Rightarrow> nat \<Rightarrow> nat \<Rightarrow> u32 \<Rightarrow> u32" where
  "rot2_shift i j k x = word_rotr i x XOR word_rotr j x XOR drop_bit k x"

definition be_word :: "u8 \<Rightarrow> u8 \<Rightarrow> u8 \<Rightarrow> u8 \<Rightarrow> u32" where
  "be_word a b c d = ((ucast a * 256 + ucast b) * 256 + ucast c) * 256 + ucast d"

fun fips_W :: "u8 list \<Rightarrow> nat \<Rightarrow> u32" where
  "fips_W block t =
     (if t < 16 then be_word (block ! (4 * t)) (block ! (4 * t + 1)) (block ! (4 * t + 2)) (block ! (4 * t + 3))
      else rot2_shift 17 19 10 (fips_W block (t - 2)) + fips_W block (t - 7)
         + rot2_shift 7 18 3 (fips_W block (t - 15)) + fips_W block (t - 16))"

declare fips_W.simps [simp del]

fun fips_round :: "u32 \<Rightarrow> u32 \<Rightarrow> u32 list \<Rightarrow> u32 list" where
  "fips_round K W [a, b, c, d, e, f, g, h] =
     (let T1 = h + rot3 6 11 25 e + Ch e f g + K + W; T2 = rot3 2 13 22 a + Maj a b c
      in [T1 + T2, a, b, c, d + T1, e, f, g])"
| "fips_round K W v = v"

definition fips_compress :: "u32 list \<Rightarrow> u8 list \<Rightarrow> u32 list" where
  "fips_compress H block =
     map2 (+) H (foldl (\<lambda>v t. fips_round (kK ! t) (fips_W block t) v) H [0..<64])"

definition be_bytes :: "nat \<Rightarrow> 'a::len word \<Rightarrow> u8 list" where
  "be_bytes n w = map (\<lambda>i. ucast (drop_bit (8 * (n - 1 - i)) w)) [0..<n]"

definition fips_pad :: "u8 list \<Rightarrow> u8 list" where
  "fips_pad m =
     m @ 0x80 # replicate ((119 - length m mod 64) mod 64) 0 @ be_bytes 8 (of_nat (8 * length m) :: u64)"

function chunks :: "u8 list \<Rightarrow> u8 list list" where
  "chunks xs = (if xs = [] then [] else take 64 xs # chunks (drop 64 xs))"
  by auto
termination by (relation "measure length") auto

declare chunks.simps [simp del]

definition fips_sha256 :: "u8 list \<Rightarrow> u8 list" where
  "fips_sha256 m = concat (map (be_bytes 4) (foldl fips_compress sha256_init (chunks (fips_pad m))))"

section \<open>The code implements it\<close>

lemma length_schedule_steps [simp]:
  "length (foldl extend_word w is) = length w" "length (foldl (load_word block) w is) = length w"
  by (induction "is" arbitrary: w) (auto simp: extend_word_def load_word_def Let_def)

lemma load_be_word:
  "push_bit 24 (ucast a) OR push_bit 16 (ucast b) OR push_bit 8 (ucast c) OR ucast d = be_word a b c d"
  for a b c d :: u8
proof -
  have d0: "x AND y = 0" if "\<And>n. n < 32 \<Longrightarrow> \<not> (bit x n \<and> bit y n)" for x y :: u32
    by (rule bit_word_eqI) (use that in \<open>auto simp: bit_and_iff\<close>)
  have hi: "bit (x :: u8) n \<Longrightarrow> n < 8" for x n using bit_imp_le_length [of x n] by simp
  let ?a = "push_bit 24 (ucast a) :: u32" and ?b = "push_bit 16 (ucast b) :: u32"
    and ?c = "push_bit 8 (ucast c) :: u32" and ?d = "ucast d :: u32"
  have "?c OR ?d = ?c + ?d"
    by (intro disjunctive_add_eq_or [symmetric] d0) (auto simp: bit_simps dest!: hi)
  moreover have "?b OR (?c OR ?d) = ?b + (?c OR ?d)"
    by (intro disjunctive_add_eq_or [symmetric] d0) (auto simp: bit_simps dest!: hi)
  moreover have "?a OR (?b OR (?c OR ?d)) = ?a + (?b OR (?c OR ?d))"
    by (intro disjunctive_add_eq_or [symmetric] d0) (auto simp: bit_simps dest!: hi)
  ultimately show ?thesis by (simp add: be_word_def push_bit_eq_mult algebra_simps)
qed

lemma load_prefix:
  "n \<le> 16 \<Longrightarrow> t < n \<Longrightarrow> foldl (load_word block) (replicate 64 0) [0..<n] ! t = fips_W block t"
proof (induction n)
  case (Suc n)
  have "foldl (load_word block) (replicate 64 0) [0..<Suc n] =
      load_word block (foldl (load_word block) (replicate 64 0) [0..<n]) n"
    by simp
  moreover have "load_word block w n ! t = (if t = n then fips_W block n else w ! t)" if "length w = 64" for w
    using that Suc.prems unfolding load_word_def load_be_word
    by (simp add: fips_W.simps [of block n] nth_list_update mult.commute)
  ultimately show ?case using Suc by auto
qed simp

lemma extend_prefix:
  "n \<le> 48 \<Longrightarrow> t < 16 + n \<Longrightarrow>
   foldl extend_word (foldl (load_word block) (replicate 64 0) [0..<16]) [16..<16 + n] ! t = fips_W block t"
proof (induction n arbitrary: t)
  case 0
  then show ?case using load_prefix [of 16 t block] by simp
next
  case (Suc n)
  define w where "w = foldl extend_word (foldl (load_word block) (replicate 64 0) [0..<16]) [16..<16 + n]"
  have IH: "w ! s = fips_W block s" if "s < 16 + n" for s
    using Suc that by (simp add: w_def)
  have len: "length w = 64" by (simp add: w_def)
  have "foldl extend_word (foldl (load_word block) (replicate 64 0) [0..<16]) [16..<16 + Suc n] =
      extend_word w (16 + n)"
    by (simp only: w_def add_Suc_right upt_Suc) simp
  moreover have "extend_word w (16 + n) ! t = fips_W block t"
  proof (cases "t = 16 + n")
    case True
    then show ?thesis
      using len Suc.prems(1) by (simp add: extend_word_def IH fips_W.simps [of block "n + 16"]
          rot2_shift_def rotr_def Let_def add_ac)
  next
    case False
    then show ?thesis using Suc.prems len by (simp add: extend_word_def IH Let_def)
  qed
  ultimately show ?case by simp
qed

lemma schedule_nth: "t < 64 \<Longrightarrow> schedule block ! t = fips_W block t"
  using extend_prefix [of 48 t block] by (simp add: schedule_def)

definition vars_list :: "vars \<Rightarrow> u32 list" where
  "vars_list v = [va v, vb v, vc v, vd v, ve v, vf v, vg v, vh v]"

lemma rounds_eq:
  "n \<le> 64 \<Longrightarrow> vars_list (foldl (sha_round (schedule block)) v [0..<n]) =
     foldl (\<lambda>v t. fips_round (kK ! t) (fips_W block t) v) (vars_list v) [0..<n]"
proof (induction n)
  case (Suc n)
  have "vars_list (sha_round (schedule block) u n) = fips_round (kK ! n) (fips_W block n) (vars_list u)" for u
    using Suc.prems by (simp add: vars_list_def sha_round_def Let_def schedule_nth rot3_def rotr_def Ch_def Maj_def)
  then show ?case using Suc by simp
qed simp

lemma list8: "length h = 8 \<Longrightarrow> h = [h ! 0, h ! 1, h ! 2, h ! 3, h ! 4, h ! 5, h ! 6, h ! 7]"
  by (rule nth_equalityI) (auto simp: less_Suc_eq numeral_eq_Suc)

lemma compress_eq: "length h = 8 \<Longrightarrow> compress h block = fips_compress h block"
proof -
  assume len: "length h = 8"
  define v where "v = \<lparr>va = h ! 0, vb = h ! 1, vc = h ! 2, vd = h ! 3, ve = h ! 4, vf = h ! 5, vg = h ! 6, vh = h ! 7\<rparr>"
  have "vars_list v = h" using list8 [OF len] by (simp add: vars_list_def v_def)
  then have "foldl (\<lambda>v t. fips_round (kK ! t) (fips_W block t) v) h [0..<64] =
      vars_list (foldl (sha_round (schedule block)) v [0..<64])"
    using rounds_eq [of 64 block v] by simp
  then show ?thesis
    unfolding fips_compress_def compress_def v_def [symmetric]
    by (subst (8) list8 [OF len]) (simp add: vars_list_def Let_def)
qed

lemma length_compress [simp]: "length (compress h block) = 8"
  by (simp add: compress_def Let_def)

lemma chunks_Cons: "length x = 64 \<Longrightarrow> chunks (x @ y) = x # chunks y"
  by (subst chunks.simps) auto

lemma sha256_blocks_fold:
  assumes "off \<le> length p" "length h = 8"
  shows "case sha256_blocks p off h of (h', off') \<Rightarrow>
     foldl compress h (chunks (drop off p @ T)) = foldl compress h' (chunks (drop off' p @ T))
     \<and> length h' = 8 \<and> off' \<le> length p \<and> length p - off' = (length p - off) mod 64"
  using assms
proof (induction p off h rule: sha256_blocks.induct)
  case (1 p off h)
  show ?case
  proof (cases "off + 64 \<le> length p")
    case True
    have "drop off p @ T = take 64 (drop off p) @ drop (off + 64) p @ T"
      by (simp add: add.commute [of off] flip: drop_drop append_assoc)
    then have "chunks (drop off p @ T) = take 64 (drop off p) # chunks (drop (off + 64) p @ T)"
      using True chunks_Cons [of "take 64 (drop off p)" "drop (off + 64) p @ T"] by (simp only:) simp
    then have "foldl compress h (chunks (drop off p @ T)) =
        foldl compress (compress h (take 64 (drop off p))) (chunks (drop (off + 64) p @ T))"
      by simp
    moreover have "(length p - (off + 64)) mod 64 = (length p - off) mod 64"
      using True by (metis add_diff_inverse_nat diff_diff_left leD le_diff_conv2 add_leD1 mod_add_self1 add.commute)
    ultimately show ?thesis
      using 1(1) [OF True] True by (subst sha256_blocks.simps) (auto split: prod.splits)
  next
    case False
    then show ?thesis using 1(2,3) by (subst sha256_blocks.simps) auto
  qed
qed

lemma length_be_bytes [simp]: "length (be_bytes n w) = n"
  by (simp add: be_bytes_def)

lemma store_bits_fold:
  assumes "length xs + 8 = n"
  shows "foldl (store_bits bits n) (xs @ replicate 8 0 @ ys) [0..<8] = xs @ be_bytes 8 bits @ ys"
proof -
  have upt: "[0..<8] = [0, 1, 2, 3, 4, 5, 6, 7 :: nat]" by (simp add: upt_rec)
  show ?thesis
    using assms by (auto simp: upt store_bits_def be_bytes_def list_update_append numeral_eq_Suc)
qed

text \<open>The tail buffer, up to its used length, is the last one or two blocks of the padded message.\<close>

lemma make_tail_pad:
  assumes "off \<le> length p" "length p - off = length p mod 64"
  defines "r \<equiv> length p mod 64"
  shows "take (tail_len r) (make_tail p off) = drop off (fips_pad p)"
    and "length (make_tail p off) = 128" and "length (drop off (fips_pad p)) = tail_len r"
proof -
  define z where "z = (119 - r) mod 64"
  have r: "r < 64" "length p - off = r" using assms by auto
  have z: "r + 1 + z + 8 = tail_len r"
  proof (cases "r \<le> 55")
    case True
    then have "z = 55 - r" using mod_if [of "119 - r" 64] by (simp add: z_def)
    then show ?thesis using True by (simp add: tail_len_def)
  next
    case False
    then show ?thesis using r(1) by (simp add: z_def tail_len_def)
  qed
  have le: "tail_len r \<le> 128" by (simp add: tail_len_def)
  let ?bits = "of_nat (length p) * 8 :: u64"
  have "replicate (128 - r) (0 :: u8) = 0 # replicate z 0 @ replicate 8 0 @ replicate (128 - tail_len r) 0"
    using z le by (simp flip: replicate_Suc replicate_add)
  then have "(drop off p @ replicate (128 - r) 0)[r := 0x80] =
      (drop off p @ 0x80 # replicate z 0) @ replicate 8 0 @ replicate (128 - tail_len r) 0"
    using r by (simp add: list_update_append)
  moreover have "length (drop off p @ 0x80 # replicate z (0 :: u8)) + 8 = tail_len r" using z r by simp
  ultimately have mt: "make_tail p off =
      (drop off p @ 0x80 # replicate z 0) @ be_bytes 8 ?bits @ replicate (128 - tail_len r) 0"
    unfolding make_tail_def Let_def r(2) by (simp only: store_bits_fold)
  have pad: "drop off (fips_pad p) = drop off p @ 0x80 # replicate z 0 @ be_bytes 8 ?bits"
    using assms(1) by (simp add: fips_pad_def z_def r_def mult.commute)
  show l: "length (drop off (fips_pad p)) = tail_len r" unfolding pad using r z by simp
  show "length (make_tail p off) = 128" unfolding mt using r z le by simp
  show "take (tail_len r) (make_tail p off) = drop off (fips_pad p)"
  proof -
    have "make_tail p off = drop off (fips_pad p) @ replicate (128 - tail_len r) 0"
      unfolding mt pad by simp
    then show ?thesis using l by simp
  qed
qed

lemma put_word_append:
  assumes "length xs = 4 * i"
  shows "put_word h (xs @ replicate 4 0 @ ys) i = xs @ be_bytes 4 (h ! i) @ ys"
proof -
  have upt: "[0..<4] = [0, 1, 2, 3 :: nat]" by (simp add: upt_rec)
  have "replicate 4 0 = [0, 0, 0, 0 :: u8]" by (simp add: numeral_eq_Suc)
  then show ?thesis
    using assms by (auto simp: put_word_def be_bytes_def upt list_update_append numeral_eq_Suc)
qed

lemma put_words: "length h = 8 \<Longrightarrow> foldl (put_word h) (replicate 32 0) [0..<8] = concat (map (be_bytes 4) h)"
proof -
  assume len: "length h = 8"
  have "n \<le> 8 \<Longrightarrow> foldl (put_word h) (replicate 32 0) [0..<n] =
      concat (map (be_bytes 4) (take n h)) @ replicate (4 * (8 - n)) 0" for n
  proof (induction n)
    case (Suc n)
    have "4 * (8 - n) = 4 + 4 * (8 - Suc n)" using Suc.prems by simp
    then have r: "replicate (4 * (8 - n)) (0 :: u8) = replicate 4 0 @ replicate (4 * (8 - Suc n)) 0"
      by (simp only: replicate_add)
    have "length (concat (map (be_bytes 4) (take n h))) = 4 * n"
      using Suc.prems len by (simp add: length_concat comp_def sum_list_triv)
    moreover have "take (Suc n) h = take n h @ [h ! n]" using Suc.prems len by (simp add: take_Suc_conv_app_nth)
    ultimately show ?case using Suc by (simp add: r put_word_append del: replicate_append_same)
  qed simp
  from this [of 8] show ?thesis using len by simp
qed

lemma length_init: "length sha256_init = 8"
  by (simp add: sha256_init_def)

lemma foldl_compress: "length h = 8 \<Longrightarrow> foldl compress h bs = foldl fips_compress h bs"
  by (induction bs arbitrary: h) (simp_all add: compress_eq flip: compress_eq)


end
