(* ===== verification/Sync.thy ===== *)
theory Sync
  imports Prelude
begin

text \<open>
  \<^verbatim>\<open>engine/include/bench/sync.hpp\<close>: the sense-reversing spin barrier that starts and ends
  every batch of a benchmark session. The barrier is a step relation at the granularity of
  its atomic operations: each load, fetch-and-subtract, store and fetch-and-add is one
  step, interleaved arbitrarily between the participants. The generation is a 64-bit
  counter that wraps.

  The completion function is an argument; it acts on the state \<open>'s\<close> the participants
  share. \<open>sb_phase\<close>, \<open>sb_arrived\<close> and \<open>sb_left\<close> are ghost counters (finished phases, and
  arrivals and departures of each participant) that no step tests.
\<close>

section \<open>The barrier\<close>

text \<open>Where a participant is in \<open>arrive_and_wait\<close>; the argument is its local \<open>gen\<close>.\<close>

datatype pc =
    Outside            \<comment> \<open>not in the barrier\<close>
  | Loaded u64         \<comment> \<open>has loaded the generation\<close>
  | Last u64           \<comment> \<open>its \<open>fetch_sub\<close> returned 1\<close>
  | Completed u64      \<comment> \<open>has run the completion\<close>
  | Restored u64       \<comment> \<open>has stored the full count\<close>
  | Waiting u64        \<comment> \<open>in the spin loop\<close>

record 's barrier =
  sb_count :: int
  sb_generation :: u64
  sb_pc :: "nat \<Rightarrow> pc"
  sb_user :: 's
  sb_phase :: nat
  sb_arrived :: "nat \<Rightarrow> nat"
  sb_left :: "nat \<Rightarrow> nat"

definition sb_init :: "nat \<Rightarrow> 's \<Rightarrow> 's barrier" where
  "sb_init n u = \<lparr>sb_count = int n, sb_generation = 0, sb_pc = (\<lambda>t. Outside), sb_user = u,
     sb_phase = 0, sb_arrived = (\<lambda>t. 0), sb_left = (\<lambda>t. 0)\<rparr>"

definition generation :: "'s barrier \<Rightarrow> u64" where
  "generation b = sb_generation b"

text \<open>
  One atomic operation of participant \<open>t\<close>: of \<open>arrive\<close> (lines 55-65), then of the waiting
  loop (lines 36-37, and 44-45 for the polling coordinator, which only sleeps between its
  loads).
\<close>

definition load_generation :: "nat \<Rightarrow> 's barrier \<Rightarrow> 's barrier" where
  "load_generation t b = b\<lparr>sb_pc := (sb_pc b)(t := Loaded (sb_generation b))\<rparr>"

definition fetch_sub_count :: "nat \<Rightarrow> u64 \<Rightarrow> 's barrier \<Rightarrow> 's barrier" where
  "fetch_sub_count t gen b =
     b\<lparr>sb_count := sb_count b - 1,
       sb_pc := (sb_pc b)(t := if sb_count b = 1 then Last gen else Waiting gen),
       sb_arrived := (sb_arrived b)(t := sb_arrived b t + 1)\<rparr>"

definition run_completion :: "('s \<Rightarrow> 's) \<Rightarrow> nat \<Rightarrow> u64 \<Rightarrow> 's barrier \<Rightarrow> 's barrier" where
  "run_completion c t gen b =
     b\<lparr>sb_user := c (sb_user b), sb_pc := (sb_pc b)(t := Completed gen)\<rparr>"

definition store_count :: "nat \<Rightarrow> nat \<Rightarrow> u64 \<Rightarrow> 's barrier \<Rightarrow> 's barrier" where
  "store_count n t gen b = b\<lparr>sb_count := int n, sb_pc := (sb_pc b)(t := Restored gen)\<rparr>"

definition bump_generation :: "nat \<Rightarrow> u64 \<Rightarrow> 's barrier \<Rightarrow> 's barrier" where
  "bump_generation t gen b =
     b\<lparr>sb_generation := sb_generation b + 1, sb_phase := sb_phase b + 1,
       sb_pc := (sb_pc b)(t := Waiting gen)\<rparr>"

definition leave :: "nat \<Rightarrow> 's barrier \<Rightarrow> 's barrier" where
  "leave t b = b\<lparr>sb_pc := (sb_pc b)(t := Outside), sb_left := (sb_left b)(t := sb_left b t + 1)\<rparr>"

text \<open>
  \<open>sb_move n c t b b'\<close>: participant \<open>t\<close> makes progress. A poll that finds the generation
  unchanged changes nothing; it is the extra case of \<open>sb_step\<close>.
\<close>

inductive sb_move :: "nat \<Rightarrow> ('s \<Rightarrow> 's) \<Rightarrow> nat \<Rightarrow> 's barrier \<Rightarrow> 's barrier \<Rightarrow> bool"
  for n c t b where
  move_load: "sb_pc b t = Outside \<Longrightarrow> sb_move n c t b (load_generation t b)"
| move_fetch_sub: "sb_pc b t = Loaded gen \<Longrightarrow> sb_move n c t b (fetch_sub_count t gen b)"
| move_complete: "sb_pc b t = Last gen \<Longrightarrow> sb_move n c t b (run_completion c t gen b)"
| move_store: "sb_pc b t = Completed gen \<Longrightarrow> sb_move n c t b (store_count n t gen b)"
| move_bump: "sb_pc b t = Restored gen \<Longrightarrow> sb_move n c t b (bump_generation t gen b)"
| move_leave: "sb_pc b t = Waiting gen \<Longrightarrow> sb_generation b \<noteq> gen \<Longrightarrow> sb_move n c t b (leave t b)"

inductive_cases sb_moveE: "sb_move n c t b b'"

inductive sb_step :: "nat \<Rightarrow> ('s \<Rightarrow> 's) \<Rightarrow> 's barrier \<Rightarrow> 's barrier \<Rightarrow> bool"
  for n c b where
  step_move: "t < n \<Longrightarrow> sb_move n c t b b' \<Longrightarrow> sb_step n c b b'"
| step_poll: "t < n \<Longrightarrow> sb_pc b t = Waiting gen \<Longrightarrow> sb_generation b = gen \<Longrightarrow> sb_step n c b b"

inductive sb_reach :: "nat \<Rightarrow> ('s \<Rightarrow> 's) \<Rightarrow> 's \<Rightarrow> 's barrier \<Rightarrow> bool" for n c u where
  reach_init: "sb_reach n c u (sb_init n u)"
| reach_step: "sb_reach n c u b \<Longrightarrow> sb_step n c b b' \<Longrightarrow> sb_reach n c u b'"

lemmas sb_ops_def = load_generation_def fetch_sub_count_def run_completion_def store_count_def
  bump_generation_def leave_def

section \<open>The invariant\<close>

text \<open>
  A participant has either not arrived in the current phase (\<open>Fresh\<close>), arrived in it
  (\<open>In_phase\<close>), or is still leaving the previous one (\<open>Released\<close>); the local generation and
  the ghost counters agree with that. The last arriver is separate.
\<close>

definition fresh :: "'s barrier \<Rightarrow> nat \<Rightarrow> bool" where
  "fresh b t \<longleftrightarrow> (sb_pc b t = Outside \<or> sb_pc b t = Loaded (of_nat (sb_phase b)))
     \<and> sb_arrived b t = sb_phase b \<and> sb_left b t = sb_phase b"

definition in_phase :: "'s barrier \<Rightarrow> nat \<Rightarrow> bool" where
  "in_phase b t \<longleftrightarrow> sb_pc b t = Waiting (of_nat (sb_phase b))
     \<and> sb_arrived b t = Suc (sb_phase b) \<and> sb_left b t = sb_phase b"

definition released :: "'s barrier \<Rightarrow> nat \<Rightarrow> bool" where
  "released b t \<longleftrightarrow> 0 < sb_phase b \<and> sb_pc b t = Waiting (of_nat (sb_phase b - 1))
     \<and> sb_arrived b t = sb_phase b \<and> Suc (sb_left b t) = sb_phase b"

definition last_arriver :: "'s barrier \<Rightarrow> nat \<Rightarrow> bool" where
  "last_arriver b t \<longleftrightarrow>
     sb_pc b t \<in> {Last (of_nat (sb_phase b)), Completed (of_nat (sb_phase b)), Restored (of_nat (sb_phase b))}
     \<and> sb_arrived b t = Suc (sb_phase b) \<and> sb_left b t = sb_phase b"

text \<open>What the last arriver has done to the count and to the shared state.\<close>

fun finishing :: "nat \<Rightarrow> ('s \<Rightarrow> 's) \<Rightarrow> 's \<Rightarrow> 's barrier \<Rightarrow> pc \<Rightarrow> bool" where
  "finishing n c u b (Last g) \<longleftrightarrow> sb_count b = 0 \<and> sb_user b = (c ^^ sb_phase b) u"
| "finishing n c u b (Completed g) \<longleftrightarrow> sb_count b = 0 \<and> sb_user b = (c ^^ Suc (sb_phase b)) u"
| "finishing n c u b (Restored g) \<longleftrightarrow> sb_count b = int n \<and> sb_user b = (c ^^ Suc (sb_phase b)) u"
| "finishing n c u b p \<longleftrightarrow> False"

definition gathering :: "nat \<Rightarrow> ('s \<Rightarrow> 's) \<Rightarrow> 's \<Rightarrow> 's barrier \<Rightarrow> bool" where
  "gathering n c u b \<longleftrightarrow>
     (\<forall>t<n. fresh b t \<or> in_phase b t \<or> released b t)
     \<and> sb_count b = int n - int (card {t. t < n \<and> in_phase b t}) \<and> 0 < sb_count b
     \<and> sb_user b = (c ^^ sb_phase b) u"

definition closing :: "nat \<Rightarrow> ('s \<Rightarrow> 's) \<Rightarrow> 's \<Rightarrow> 's barrier \<Rightarrow> bool" where
  "closing n c u b \<longleftrightarrow>
     (\<exists>l<n. last_arriver b l \<and> (\<forall>t<n. t \<noteq> l \<longrightarrow> in_phase b t) \<and> finishing n c u b (sb_pc b l))"

definition sb_inv :: "nat \<Rightarrow> ('s \<Rightarrow> 's) \<Rightarrow> 's \<Rightarrow> 's barrier \<Rightarrow> bool" where
  "sb_inv n c u b \<longleftrightarrow>
     sb_generation b = of_nat (sb_phase b) \<and> (gathering n c u b \<or> closing n c u b)"

lemmas role_defs = fresh_def in_phase_def released_def last_arriver_def

text \<open>The wrapping counter still tells two consecutive phases apart.\<close>

lemma gen_distinct: "0 < p \<Longrightarrow> (of_nat p :: u64) \<noteq> of_nat (p - 1)"
  by (cases p) auto

lemma in_phase_all:
  assumes "card {t. t < n \<and> in_phase b t} + 1 = n" "l < n" "\<not> in_phase b l" "t < n" "t \<noteq> l"
  shows "in_phase b t"
proof (rule ccontr)
  assume "\<not> in_phase b t"
  then have "{t. t < n \<and> in_phase b t} \<subseteq> {..<n} - {l, t}" using assms(3) by auto
  then have "card {t. t < n \<and> in_phase b t} \<le> card ({..<n} - {l, t})" by (intro card_mono) auto
  also have "\<dots> = n - 2" using assms by (subst card_Diff_subset) auto
  finally show False using assms by linarith
qed

lemma inv_init: "0 < n \<Longrightarrow> sb_inv n c u (sb_init n u)"
  by (auto simp: sb_inv_def sb_init_def gathering_def role_defs)

text \<open>A step of \<open>t\<close> that leaves its arrival alone keeps the others' roles.\<close>

lemma gathering_update:
  assumes "gathering n c u b" "t < n"
    and same: "sb_phase b' = sb_phase b" "sb_count b' = sb_count b" "sb_user b' = sb_user b"
      "\<And>s. s \<noteq> t \<Longrightarrow> sb_pc b' s = sb_pc b s \<and> sb_arrived b' s = sb_arrived b s \<and> sb_left b' s = sb_left b s"
    and t: "fresh b' t" "\<not> in_phase b t"
  shows "gathering n c u b'"
proof -
  have role: "fresh b' s = fresh b s" "in_phase b' s = in_phase b s" "released b' s = released b s"
    if "s \<noteq> t" for s using same(1) same(4) [OF that] by (auto simp: role_defs)
  have "\<not> in_phase b' t" using t(1) by (auto simp: role_defs)
  then have "{s. s < n \<and> in_phase b' s} = {s. s < n \<and> in_phase b s}"
    using role(2) t(2) by metis
  then show ?thesis
    using assms(1) same(1-3) role t(1) unfolding gathering_def by (metis (no_types, lifting))
qed

lemma move_gathering:
  assumes "sb_move n c t b b'" "t < n" "sb_generation b = of_nat (sb_phase b)" "gathering n c u b"
  shows "sb_inv n c u b'"
  using assms(1)
proof cases
  case move_load
  have "fresh b' t" "\<not> in_phase b t"
    using move_load assms(2-4) by (auto simp: gathering_def role_defs load_generation_def)
  then have "gathering n c u b'"
    using move_load by (intro gathering_update [OF assms(4,2)]) (auto simp: load_generation_def)
  then show ?thesis using move_load assms(3) by (simp add: sb_inv_def load_generation_def)
next
  case (move_fetch_sub gen)
  have f: "fresh b t" and gen: "gen = of_nat (sb_phase b)"
    using move_fetch_sub assms(2,4) by (auto simp: gathering_def role_defs)
  have nt: "\<not> in_phase b t" using f by (auto simp: role_defs)
  let ?A = "{s. s < n \<and> in_phase b s}"
  have cnt: "sb_count b = int n - int (card ?A)" "0 < sb_count b" using assms(4) by (auto simp: gathering_def)
  have others: "fresh b' s = fresh b s" "in_phase b' s = in_phase b s" "released b' s = released b s"
    if "s \<noteq> t" for s using that move_fetch_sub(1) by (auto simp: role_defs fetch_sub_count_def)
  show ?thesis
  proof (cases "sb_count b = 1")
    case True
    then have card: "card ?A + 1 = n" using cnt by linarith
    have "in_phase b s" if "s < n" "s \<noteq> t" for s
      using in_phase_all [OF card assms(2) nt that] .
    then have "closing n c u b'"
      using assms(2,4) others(2) f gen True move_fetch_sub(1)
      unfolding closing_def by (intro exI [of _ t]) (auto simp: gathering_def role_defs fetch_sub_count_def)
    then show ?thesis using move_fetch_sub(1) assms(3) by (simp add: sb_inv_def fetch_sub_count_def)
  next
    case False
    then have it: "in_phase b' t" using f gen move_fetch_sub(1) by (auto simp: role_defs fetch_sub_count_def)
    then have "{s. s < n \<and> in_phase b' s} = insert t ?A"
      using others(2) assms(2) nt by (intro set_eqI) (metis (mono_tags, lifting) insert_iff mem_Collect_eq)
    then have card: "card {s. s < n \<and> in_phase b' s} = Suc (card ?A)" using nt by simp
    have "\<forall>s<n. fresh b' s \<or> in_phase b' s \<or> released b' s"
      using it others assms(4) unfolding gathering_def by metis
    then have "gathering n c u b'"
      using card cnt False assms(4) move_fetch_sub(1) unfolding gathering_def
      by (simp add: fetch_sub_count_def)
    then show ?thesis using move_fetch_sub(1) assms(3) by (simp add: sb_inv_def fetch_sub_count_def)
  qed
next
  case (move_leave gen)
  have "fresh b' t" "\<not> in_phase b t"
    using move_leave assms(2-4) by (auto simp: gathering_def role_defs leave_def)
  then have "gathering n c u b'"
    using move_leave by (intro gathering_update [OF assms(4,2)]) (auto simp: leave_def)
  then show ?thesis using move_leave assms(3) by (simp add: sb_inv_def leave_def)
qed (use assms(2,4) in \<open>auto simp: gathering_def role_defs\<close>)

lemma move_closing:
  assumes "sb_move n c t b b'" "t < n" "sb_generation b = of_nat (sb_phase b)" "closing n c u b"
  shows "sb_inv n c u b'"
proof -
  obtain l where l: "l < n" "last_arriver b l" "\<And>s. s < n \<Longrightarrow> s \<noteq> l \<Longrightarrow> in_phase b s"
      "finishing n c u b (sb_pc b l)"
    using assms(4) by (auto simp: closing_def)
  have tl: "t = l"
  proof (rule ccontr)
    assume "t \<noteq> l"
    then have "in_phase b t" using l(3) assms(2) by blast
    then have "sb_pc b t = Waiting (sb_generation b)" using assms(3) by (simp add: in_phase_def)
    with assms(1) show False by (cases rule: sb_move.cases) auto
  qed
  show ?thesis
    using assms(1)
  proof cases
    case (move_bump gen)
    have *: "sb_phase b' = Suc (sb_phase b)" "sb_generation b' = of_nat (sb_phase b')"
        "sb_count b' = int n" "sb_user b' = (c ^^ sb_phase b') u"
      using move_bump assms(3) l(2,4) tl by (auto simp: bump_generation_def role_defs)
    have r: "released b' s" if "s < n" for s
      using move_bump l(2) l(3) [OF that] tl by (cases "s = l") (auto simp: bump_generation_def role_defs)
    have "\<not> in_phase b' s" if "s < n" for s using r [OF that] by (auto simp: role_defs)
    then have "{s. s < n \<and> in_phase b' s} = {}" by blast
    then show ?thesis using * r l(1) by (auto simp: sb_inv_def gathering_def)
  qed (use assms(2,3) l tl in \<open>auto simp: sb_inv_def closing_def sb_ops_def role_defs\<close>)
qed

lemma inv_reach: "sb_reach n c u b \<Longrightarrow> 0 < n \<Longrightarrow> sb_inv n c u b"
proof (induction rule: sb_reach.induct)
  case reach_init
  then show ?case by (rule inv_init)
next
  case (reach_step b b')
  then have inv: "sb_inv n c u b" by simp
  show ?case
    using \<open>sb_step n c b b'\<close>
  proof cases
    case (step_move t)
    from inv consider "gathering n c u b" | "closing n c u b" by (auto simp: sb_inv_def)
    then show ?thesis
    proof cases
      case 1
      then show ?thesis using move_gathering [OF step_move(2,1)] inv by (simp add: sb_inv_def)
    next
      case 2
      then show ?thesis using move_closing [OF step_move(2,1)] inv by (simp add: sb_inv_def)
    qed
  qed (use inv in simp)
qed

section \<open>Safety\<close>

lemma inv_role:
  "sb_inv n c u b \<Longrightarrow> t < n \<Longrightarrow> fresh b t \<or> in_phase b t \<or> released b t \<or> last_arriver b t"
  unfolding sb_inv_def gathering_def closing_def by metis

lemma inv_counts:
  assumes "sb_inv n c u b" "t < n"
  shows "sb_left b t \<le> sb_phase b \<and> sb_phase b \<le> Suc (sb_left b t)
    \<and> sb_phase b \<le> sb_arrived b t \<and> sb_arrived b t \<le> Suc (sb_phase b)"
  using inv_role [OF assms] by (elim disjE) (simp_all add: role_defs)

text \<open>
  (C18) The barrier separates phases. In every interleaving of the participants' atomic
  operations: nobody leaves the barrier for the \<open>k\<close>-th time before everybody has arrived
  \<open>k\<close> times, no participant is ever more than one phase ahead of another, the 64-bit
  generation counts the finished phases modulo \<open>2 ^ 64\<close>, and the completion runs exactly once
  per phase, after the last arrival and before the first departure: when it is about to
  run, each participant has arrived in this phase and none has left it.
\<close>

theorem barrier_safety:
  assumes "sb_reach n c u b" "0 < n"
  shows "(\<forall>t<n. \<forall>s<n. sb_left b t \<le> sb_arrived b s \<and> sb_left b t \<le> Suc (sb_left b s))
    \<and> generation b = of_nat (sb_phase b)
    \<and> (sb_user b = (c ^^ sb_phase b) u \<or> sb_user b = (c ^^ Suc (sb_phase b)) u)
    \<and> (\<forall>l<n. \<forall>g. sb_pc b l = Last g \<longrightarrow> sb_user b = (c ^^ sb_phase b) u
        \<and> (\<forall>t<n. sb_arrived b t = Suc (sb_phase b) \<and> sb_left b t = sb_phase b))"
proof (intro conjI allI impI)
  have inv: "sb_inv n c u b" using assms by (rule inv_reach)
  note counts = inv_counts [OF inv]
  show "sb_left b t \<le> sb_arrived b s" "sb_left b t \<le> Suc (sb_left b s)" if "t < n" "s < n" for t s
    using counts [OF that(1)] counts [OF that(2)] by linarith+
  show "generation b = of_nat (sb_phase b)" using inv by (simp add: sb_inv_def generation_def)
  show "sb_user b = (c ^^ sb_phase b) u \<or> sb_user b = (c ^^ Suc (sb_phase b)) u"
    using inv by (auto simp: sb_inv_def gathering_def closing_def role_defs)
  fix l g
  assume l: "l < n" "sb_pc b l = Last g"
  then have "\<not> gathering n c u b" by (auto simp: gathering_def role_defs)
  then obtain k where k: "k < n" "last_arriver b k" "\<And>t. t < n \<Longrightarrow> t \<noteq> k \<Longrightarrow> in_phase b t"
      "finishing n c u b (sb_pc b k)"
    using inv by (auto simp: sb_inv_def closing_def)
  have "l = k" using k(3) [OF l(1)] l(2) by (auto simp: in_phase_def)
  then show "sb_user b = (c ^^ sb_phase b) u" using k(4) l(2) by simp
  show "sb_arrived b t = Suc (sb_phase b)" "sb_left b t = sb_phase b" if "t < n" for t
    using k(2) k(3) [OF that] by (cases "t = k"; simp add: role_defs)+
qed

text \<open>Two participants, run until the first one has arrived and the second is about to complete.\<close>

lemma reach_two:
  "sb_reach 2 Suc 0 (fetch_sub_count 1 0 (load_generation 1 (fetch_sub_count 0 0
     (load_generation 0 (sb_init 2 0)))))"
proof -
  have 1: "sb_reach 2 Suc 0 (load_generation 0 (sb_init 2 0))"
    by (rule reach_step [OF reach_init step_move [where t = 0]])
      (simp, rule move_load, simp add: sb_init_def sb_ops_def)
  have 2: "sb_reach 2 Suc 0 (fetch_sub_count 0 0 (load_generation 0 (sb_init 2 0)))"
    by (rule reach_step [OF 1 step_move [where t = 0]])
      (simp, rule move_fetch_sub, simp add: sb_init_def sb_ops_def)
  have 3: "sb_reach 2 Suc 0 (load_generation 1 (fetch_sub_count 0 0 (load_generation 0 (sb_init 2 0))))"
    by (rule reach_step [OF 2 step_move [where t = 1]])
      (simp, rule move_load, simp add: sb_init_def sb_ops_def)
  show ?thesis
    by (rule reach_step [OF 3 step_move [where t = 1]])
      (simp, rule move_fetch_sub, simp add: sb_init_def sb_ops_def)
qed

theorem barrier_safety_witness:
  "let b = fetch_sub_count 1 0 (load_generation 1 (fetch_sub_count 0 0 (load_generation 0 (sb_init 2 (0 :: nat)))))
   in sb_pc b 1 = Last 0 \<and> sb_user b = 0 \<and> sb_arrived b 0 = 1 \<and> generation b = 0"
proof -
  define b where "b = fetch_sub_count 1 0 (load_generation 1 (fetch_sub_count 0 0
    (load_generation 0 (sb_init 2 (0 :: nat)))))"
  have pc: "sb_pc b 1 = Last 0" "sb_phase b = 0" by (simp_all add: b_def sb_ops_def sb_init_def)
  have r: "sb_reach 2 Suc 0 b" unfolding b_def by (rule reach_two)
  have safe: "generation b = of_nat (sb_phase b)"
      "\<forall>l<2. \<forall>g. sb_pc b l = Last g \<longrightarrow> sb_user b = (Suc ^^ sb_phase b) 0
        \<and> (\<forall>t<2. sb_arrived b t = Suc (sb_phase b) \<and> sb_left b t = sb_phase b)"
    using barrier_safety [OF r pos2] by blast+
  have "sb_user b = (Suc ^^ sb_phase b) 0" "sb_arrived b 0 = Suc (sb_phase b)"
    using safe(2) [rule_format, of 1 0] pc(1) by simp_all
  then show ?thesis using pc safe(1) unfolding b_def [symmetric] Let_def by simp
qed

section \<open>Progress\<close>

definition sb_moves :: "nat \<Rightarrow> ('s \<Rightarrow> 's) \<Rightarrow> 's barrier \<Rightarrow> 's barrier \<Rightarrow> bool" where
  "sb_moves n c b b' \<longleftrightarrow> (\<exists>t<n. sb_move n c t b b')"

text \<open>Operations a participant still has to do before the current phase can end.\<close>

fun pc_rank :: "u64 \<Rightarrow> pc \<Rightarrow> nat" where
  "pc_rank g Outside = 5"
| "pc_rank g (Loaded _) = 4"
| "pc_rank g (Last _) = 3"
| "pc_rank g (Completed _) = 2"
| "pc_rank g (Restored _) = 1"
| "pc_rank g (Waiting g') = (if g' = g then 0 else 6)"

definition work_left :: "nat \<Rightarrow> 's barrier \<Rightarrow> nat" where
  "work_left n b = (\<Sum>t<n. pc_rank (sb_generation b) (sb_pc b t))"

lemma work_left_le: "work_left n b \<le> 6 * n"
proof -
  have "pc_rank g p \<le> 6" for g p by (cases p) auto
  then have "work_left n b \<le> (\<Sum>t<n. 6)" unfolding work_left_def by (intro sum_mono)
  then show ?thesis by simp
qed

lemma work_left_less:
  assumes "t < n" "sb_generation b' = sb_generation b" "\<And>s. s \<noteq> t \<Longrightarrow> sb_pc b' s = sb_pc b s"
    and "pc_rank (sb_generation b) (sb_pc b' t) < pc_rank (sb_generation b) (sb_pc b t)"
  shows "work_left n b' < work_left n b"
proof -
  have "(\<Sum>s\<in>{..<n} - {t}. pc_rank (sb_generation b') (sb_pc b' s)) =
      (\<Sum>s\<in>{..<n} - {t}. pc_rank (sb_generation b) (sb_pc b s))"
    using assms(2,3) by (intro sum.cong) auto
  then show ?thesis
    unfolding work_left_def using assms(1,2,4) by (subst (1 2) sum.remove [of _ t]) auto
qed

lemma move_rank:
  assumes "sb_move n c t b b'" "t < n" "sb_inv n c u b"
  shows "sb_phase b' = Suc (sb_phase b) \<or> (sb_phase b' = sb_phase b \<and> work_left n b' < work_left n b)"
  using assms(1)
proof cases
  case (move_fetch_sub gen)
  then have "gen = sb_generation b"
    using inv_role [OF assms(3,2)] assms(3) by (auto simp: sb_inv_def role_defs)
  then show ?thesis
    using move_fetch_sub assms(2) by (auto simp: fetch_sub_count_def intro!: work_left_less [of t])
next
  case (move_bump gen)
  then show ?thesis by (simp add: bump_generation_def)
qed (use assms(2) in \<open>auto simp: sb_ops_def intro!: work_left_less [of t]\<close>)

lemma moves_reach: "sb_moves n c b b' \<Longrightarrow> sb_reach n c u b \<Longrightarrow> sb_reach n c u b'"
  unfolding sb_moves_def by (blast intro: reach_step step_move)

lemma moves_bound:
  assumes "(sb_moves n c ^^ k) b b'" "sb_reach n c u b" "0 < n"
  shows "sb_phase b < sb_phase b' \<or> (sb_phase b' = sb_phase b \<and> k + work_left n b' \<le> work_left n b)"
  using assms(1,2)
proof (induction k arbitrary: b)
  case (Suc k)
  then obtain a where a: "sb_moves n c b a" "(sb_moves n c ^^ k) a b'"
    by (blast dest: relpowp_Suc_D2)
  have "sb_phase a = Suc (sb_phase b) \<or> (sb_phase a = sb_phase b \<and> work_left n a < work_left n b)"
    using a(1) move_rank [OF _ _ inv_reach [OF Suc.prems(2) assms(3)]] unfolding sb_moves_def by blast
  moreover note Suc.IH [OF a(2) moves_reach [OF a(1) Suc.prems(2)]]
  ultimately show ?case by linarith
qed simp

lemma not_stuck: "sb_inv n c u b \<Longrightarrow> 0 < n \<Longrightarrow> \<exists>t<n. \<exists>b'. sb_move n c t b b'"
proof -
  assume inv: "sb_inv n c u b" and n: "0 < n"
  have move: "\<exists>b'. sb_move n c t b b'" if "\<not> in_phase b t" "t < n" for t
  proof (cases "released b t")
    case True
    then have "sb_generation b \<noteq> of_nat (sb_phase b - 1)"
      using inv gen_distinct by (simp add: sb_inv_def released_def)
    with True show ?thesis unfolding released_def by (blast intro: move_leave)
  next
    case False
    then show ?thesis
      using inv_role [OF inv that(2)] that(1) by (auto simp: fresh_def last_arriver_def intro: sb_move.intros)
  qed
  have "\<exists>t<n. \<not> in_phase b t"
  proof (rule ccontr)
    assume "\<not> ?thesis"
    then have "{t. t < n \<and> in_phase b t} = {..<n}" and all: "\<And>t. t < n \<Longrightarrow> in_phase b t" by auto
    then have "\<not> gathering n c u b" by (auto simp: gathering_def)
    then show False using inv all by (auto simp: sb_inv_def closing_def role_defs)
  qed
  with move show ?thesis by blast
qed

text \<open>
  (C19) The barrier never deadlocks and every phase ends: in every reachable state some
  participant can perform an operation other than a poll, and as long as the current phase
  has not ended at most \<open>6 * n\<close> such operations have happened, whatever the schedule.
\<close>

theorem barrier_progress:
  assumes "sb_reach n c u b" "0 < n"
  shows "(\<exists>b'. sb_moves n c b b')
    \<and> (\<forall>k b'. (sb_moves n c ^^ k) b b' \<and> 6 * n < k \<longrightarrow> sb_phase b < sb_phase b')"
  using not_stuck [OF inv_reach [OF assms] assms(2)] moves_bound [OF _ assms] work_left_le [of n b]
  by (fastforce simp: sb_moves_def)

theorem barrier_progress_witness:
  "(\<exists>b'. sb_moves 2 Suc (sb_init 2 0) b') \<and> \<not> (sb_moves 2 Suc ^^ 13) (sb_init 2 0) (sb_init 2 0)"
proof -
  note p = barrier_progress [OF reach_init [of 2 Suc 0] pos2]
  have "\<not> (sb_moves 2 Suc ^^ 13) (sb_init 2 0) (sb_init 2 0)"
    using conjunct2 [OF p, rule_format, of 13 "sb_init 2 0"] by auto
  then show ?thesis using p by blast
qed

end
