(* ===== verification/Protocol.thy ===== *)
theory Protocol
  imports Sync
begin

text \<open>
  The threads of one configuration (\<^verbatim>\<open>engine/src/runner.cpp\<close>: \<open>worker\<close>, \<open>Gate\<close>, and \<open>start\<close>,
  \<open>run_one_trial\<close> and \<open>stop\<close> of \<open>ConfigSession\<close>) as one interleaved transition system: \<open>n\<close>
  workers and the main thread (participant \<open>n\<close>) over the two spin barriers of the theory \<open>Sync\<close>,
  whose atomic operations are steps of their own. The data a trial produces are left to the
  theory \<open>Session\<close>; here only who may touch it when is of interest: the slot of a worker (written
  in \<open>Run\<close>, read by the main thread in \<open>Idle\<close>) and the two latency histograms of a worker
  (one cleared in \<open>Clear\<close> and filled in \<open>Run\<close>, the published one read in \<open>Idle\<close>).
\<close>

section \<open>Places\<close>

datatype worker_place =
    Park        \<comment> \<open>top of the loop: \<open>gate->wait\<close>, if there is a gate\<close>
  | Prep        \<comment> \<open>\<open>before_trial\<close>: switches to the other histogram\<close>
  | Clear       \<comment> \<open>\<open>before_trial\<close>: clears that histogram; then the cold preparation\<close>
  | At_start    \<comment> \<open>in \<open>start_b.arrive_and_wait\<close>\<close>
  | Check       \<comment> \<open>\<open>st.stop_requested\<close>\<close>
  | Run         \<comment> \<open>the timed region and the writes to the slot\<close>
  | At_end      \<comment> \<open>in \<open>end_b.arrive_and_wait\<close>\<close>
  | Done        \<comment> \<open>left the loop\<close>

datatype main_place =
    Idle          \<comment> \<open>between trials: reads the slots and the histograms\<close>
  | M_start       \<comment> \<open>\<open>run_one_trial\<close>, in the start barrier\<close>
  | M_end         \<comment> \<open>\<open>run_one_trial\<close>, in the end barrier\<close>
  | Stopping nat  \<comment> \<open>\<open>stop\<close>: this many workers were asked to stop\<close>
  | M_last        \<comment> \<open>\<open>stop\<close>, in the start barrier\<close>
  | Joining
  | Joined

text \<open>
  \<open>pr_cur t\<close> is the histogram worker \<open>t\<close> records into, \<open>pr_pub t\<close> the one its slot shows;
  \<open>pr_seen t\<close> its \<open>gate_seen\<close>.
\<close>

record 's proto =
  pr_start :: "'s barrier"
  pr_end :: "'s barrier"
  pr_worker :: "nat \<Rightarrow> worker_place"
  pr_main :: main_place
  pr_stop :: "nat \<Rightarrow> bool"
  pr_gate :: u64
  pr_seen :: "nat \<Rightarrow> u64"
  pr_cur :: "nat \<Rightarrow> bool"
  pr_pub :: "nat \<Rightarrow> bool option"

definition pr_init :: "nat \<Rightarrow> 's \<Rightarrow> 's \<Rightarrow> 's proto" where
  "pr_init n us ue = \<lparr>pr_start = sb_init (Suc n) us, pr_end = sb_init (Suc n) ue, pr_worker = (\<lambda>t. Park), pr_main = Idle,
     pr_stop = (\<lambda>t. False), pr_gate = 0, pr_seen = (\<lambda>t. 0), pr_cur = (\<lambda>t. False), pr_pub = (\<lambda>t. None)\<rparr>"

section \<open>Steps\<close>

text \<open>\<open>Gate::open\<close> and the loop condition of \<open>Gate::wait\<close>; without parking there is no gate.\<close>

definition gate_open :: "bool \<Rightarrow> 's proto \<Rightarrow> 's proto" where
  "gate_open park p = (if park then p\<lparr>pr_gate := pr_gate p + 1\<rparr> else p)"

definition gate_passes :: "bool \<Rightarrow> nat \<Rightarrow> 's proto \<Rightarrow> bool" where
  "gate_passes park t p \<longleftrightarrow> park \<longrightarrow> pr_gate p \<noteq> pr_seen p t"

definition enter_trial :: "bool \<Rightarrow> nat \<Rightarrow> 's proto \<Rightarrow> 's proto" where
  "enter_trial park t p =
     p\<lparr>pr_worker := (pr_worker p)(t := Prep),
       pr_seen := (if park then (pr_seen p)(t := pr_seen p t + 1) else pr_seen p)\<rparr>"

text \<open>\<open>before_trial\<close> flips the histogram, if the set-up of the worker succeeded, and then clears it.\<close>

definition prepare_trial :: "(nat \<Rightarrow> bool) \<Rightarrow> nat \<Rightarrow> 's proto \<Rightarrow> 's proto" where
  "prepare_trial ok t p =
     p\<lparr>pr_worker := (pr_worker p)(t := Clear), pr_cur := (if ok t then (pr_cur p)(t := \<not> pr_cur p t) else pr_cur p)\<rparr>"

definition clear_histogram :: "nat \<Rightarrow> 's proto \<Rightarrow> 's proto" where
  "clear_histogram t p = p\<lparr>pr_worker := (pr_worker p)(t := At_start)\<rparr>"

definition check_stop :: "nat \<Rightarrow> 's proto \<Rightarrow> 's proto" where
  "check_stop t p = p\<lparr>pr_worker := (pr_worker p)(t := if pr_stop p t then Done else Run)\<rparr>"

definition publish :: "nat \<Rightarrow> 's proto \<Rightarrow> 's proto" where
  "publish t p = p\<lparr>pr_worker := (pr_worker p)(t := At_end), pr_pub := (pr_pub p)(t := Some (pr_cur p t))\<rparr>"

text \<open>A thread is back from a barrier when its operation in it has ended.\<close>

inductive pr_step :: "nat \<Rightarrow> bool \<Rightarrow> (nat \<Rightarrow> bool) \<Rightarrow> ('s \<Rightarrow> 's) \<Rightarrow> ('s \<Rightarrow> 's) \<Rightarrow> 's proto \<Rightarrow> 's proto \<Rightarrow> bool"
  for n park ok cs ce p where
  w_gate: "t < n \<Longrightarrow> pr_worker p t = Park \<Longrightarrow> gate_passes park t p \<Longrightarrow> pr_step n park ok cs ce p (enter_trial park t p)"
| w_prep: "t < n \<Longrightarrow> pr_worker p t = Prep \<Longrightarrow> pr_step n park ok cs ce p (prepare_trial ok t p)"
| w_clear: "t < n \<Longrightarrow> pr_worker p t = Clear \<Longrightarrow> pr_step n park ok cs ce p (clear_histogram t p)"
| w_start: "t < n \<Longrightarrow> pr_worker p t = At_start \<Longrightarrow> sb_move (Suc n) cs t (pr_start p) b \<Longrightarrow>
    pr_step n park ok cs ce p (p\<lparr>pr_start := b,
      pr_worker := (pr_worker p)(t := if sb_pc b t = Outside then Check else At_start)\<rparr>)"
| w_check: "t < n \<Longrightarrow> pr_worker p t = Check \<Longrightarrow> pr_step n park ok cs ce p (check_stop t p)"
| w_run: "t < n \<Longrightarrow> pr_worker p t = Run \<Longrightarrow> pr_step n park ok cs ce p (publish t p)"
| w_end: "t < n \<Longrightarrow> pr_worker p t = At_end \<Longrightarrow> sb_move (Suc n) ce t (pr_end p) b \<Longrightarrow>
    pr_step n park ok cs ce p (p\<lparr>pr_end := b,
      pr_worker := (pr_worker p)(t := if sb_pc b t = Outside then Park else At_end)\<rparr>)"
| m_trial: "pr_main p = Idle \<Longrightarrow> pr_step n park ok cs ce p ((gate_open park p)\<lparr>pr_main := M_start\<rparr>)"
| m_start: "pr_main p = M_start \<Longrightarrow> sb_move (Suc n) cs n (pr_start p) b \<Longrightarrow>
    pr_step n park ok cs ce p (p\<lparr>pr_start := b, pr_main := if sb_pc b n = Outside then M_end else M_start\<rparr>)"
| m_end: "pr_main p = M_end \<Longrightarrow> sb_move (Suc n) ce n (pr_end p) b \<Longrightarrow>
    pr_step n park ok cs ce p (p\<lparr>pr_end := b, pr_main := if sb_pc b n = Outside then Idle else M_end\<rparr>)"
| m_stop: "pr_main p = Idle \<Longrightarrow> pr_step n park ok cs ce p (p\<lparr>pr_main := Stopping 0\<rparr>)"
| m_request: "pr_main p = Stopping k \<Longrightarrow> k < n \<Longrightarrow>
    pr_step n park ok cs ce p (p\<lparr>pr_stop := (pr_stop p)(k := True), pr_main := Stopping (Suc k)\<rparr>)"
| m_last: "pr_main p = Stopping n \<Longrightarrow> pr_step n park ok cs ce p ((gate_open park p)\<lparr>pr_main := M_last\<rparr>)"
| m_final: "pr_main p = M_last \<Longrightarrow> sb_move (Suc n) cs n (pr_start p) b \<Longrightarrow>
    pr_step n park ok cs ce p (p\<lparr>pr_start := b, pr_main := if sb_pc b n = Outside then Joining else M_last\<rparr>)"
| m_join: "pr_main p = Joining \<Longrightarrow> \<forall>t<n. pr_worker p t = Done \<Longrightarrow> pr_step n park ok cs ce p (p\<lparr>pr_main := Joined\<rparr>)"

inductive pr_reach :: "nat \<Rightarrow> bool \<Rightarrow> (nat \<Rightarrow> bool) \<Rightarrow> ('s \<Rightarrow> 's) \<Rightarrow> ('s \<Rightarrow> 's) \<Rightarrow> 's \<Rightarrow> 's \<Rightarrow> 's proto \<Rightarrow> bool"
  for n park ok cs ce us ue where
  preach_init: "pr_reach n park ok cs ce us ue (pr_init n us ue)"
| preach_step: "pr_reach n park ok cs ce us ue p \<Longrightarrow> pr_step n park ok cs ce p p' \<Longrightarrow> pr_reach n park ok cs ce us ue p'"

inductive_cases pr_stepE: "pr_step n park ok cs ce p p'"

lemmas pr_ops_def = gate_open_def enter_trial_def prepare_trial_def clear_histogram_def check_stop_def publish_def

section \<open>Positions in the phases of the barriers\<close>

datatype position = Before | In_start | Between | In_end

fun worker_pos :: "worker_place \<Rightarrow> position" where
  "worker_pos Park = Before"
| "worker_pos Prep = Before"
| "worker_pos Clear = Before"
| "worker_pos At_start = In_start"
| "worker_pos At_end = In_end"
| "worker_pos _ = Between"

fun main_pos :: "main_place \<Rightarrow> position" where
  "main_pos Idle = Before"
| "main_pos (Stopping k) = Before"
| "main_pos M_start = In_start"
| "main_pos M_last = In_start"
| "main_pos M_end = In_end"
| "main_pos _ = Between"

text \<open>A thread is inside a barrier only where its place says so, and has left the start barrier once
  more than the end barrier exactly from the one to the other.\<close>

definition pos_ok :: "'s barrier \<Rightarrow> 's barrier \<Rightarrow> nat \<Rightarrow> position \<Rightarrow> bool" where
  "pos_ok S E t q \<longleftrightarrow> (q \<noteq> In_start \<longrightarrow> sb_pc S t = Outside) \<and> (q \<noteq> In_end \<longrightarrow> sb_pc E t = Outside)
     \<and> sb_left S t = sb_left E t + (if q = Between \<or> q = In_end then 1 else 0)"

definition positions :: "nat \<Rightarrow> ('s \<Rightarrow> 's) \<Rightarrow> ('s \<Rightarrow> 's) \<Rightarrow> 's \<Rightarrow> 's \<Rightarrow> 's proto \<Rightarrow> bool" where
  "positions n cs ce us ue p \<longleftrightarrow> sb_inv (Suc n) cs us (pr_start p) \<and> sb_inv (Suc n) ce ue (pr_end p)
     \<and> (\<forall>t<n. pos_ok (pr_start p) (pr_end p) t (worker_pos (pr_worker p t)))
     \<and> pos_ok (pr_start p) (pr_end p) n (main_pos (pr_main p))"

text \<open>What a move of \<open>t\<close> does to the counters.\<close>

lemma move_inv: "sb_inv n c u b \<Longrightarrow> t < n \<Longrightarrow> sb_move n c t b b' \<Longrightarrow> sb_inv n c u b'"
  using move_gathering [of n c t b b' u] move_closing [of n c t b b' u] by (auto simp: sb_inv_def)

lemma move_others:
  "sb_move n c t b b' \<Longrightarrow> s \<noteq> t \<Longrightarrow> sb_pc b' s = sb_pc b s \<and> sb_left b' s = sb_left b s"
  by (erule sb_moveE) (auto simp: sb_ops_def)

lemma move_left:
  "sb_move n c t b b' \<Longrightarrow> sb_left b' t = sb_left b t + (if sb_pc b' t = Outside then 1 else 0)"
  by (erule sb_moveE) (auto simp: sb_ops_def)

lemma outside_counts: "sb_inv n c u b \<Longrightarrow> t < n \<Longrightarrow> sb_pc b t = Outside \<Longrightarrow> sb_left b t = sb_phase b"
  using inv_role [of n c u b t] by (auto simp: role_defs)

lemma pos_ok_other:
  assumes "pos_ok S E t q" "t \<noteq> s"
  shows "sb_move n c s S S' \<Longrightarrow> pos_ok S' E t q" and "sb_move n c s E E' \<Longrightarrow> pos_ok S E' t q"
  using assms move_others [of n c s S S' t] move_others [of n c s E E' t] by (auto simp: pos_ok_def)

lemma pos_ok_start:
  "pos_ok S E t In_start \<Longrightarrow> sb_move n c t S S' \<Longrightarrow> pos_ok S' E t (if sb_pc S' t = Outside then Between else In_start)"
  "pos_ok S E t In_start \<Longrightarrow> sb_move n c t S S' \<Longrightarrow> sb_pc S' t = Outside \<Longrightarrow> pos_ok S' E t In_end"
  by (auto simp: pos_ok_def move_left)

lemma pos_ok_end:
  "pos_ok S E t In_end \<Longrightarrow> sb_move n c t E E' \<Longrightarrow> pos_ok S E' t (if sb_pc E' t = Outside then Before else In_end)"
  by (auto simp: pos_ok_def move_left)

lemma pos_ok_enter:
  "pos_ok S E t Before \<Longrightarrow> pos_ok S E t In_start" "pos_ok S E t Between \<Longrightarrow> pos_ok S E t In_end"
  by (auto simp: pos_ok_def)

lemma positions_init: "positions n cs ce us ue (pr_init n us ue)"
  using inv_init [of "Suc n" cs us] inv_init [of "Suc n" ce ue]
  by (auto simp: positions_def pr_init_def pos_ok_def sb_init_def)

lemma positions_step:
  assumes "positions n cs ce us ue p" "pr_step n park ok cs ce p p'"
  shows "positions n cs ce us ue p'"
  using assms(2)
proof cases
  case (w_start t b)
  then show ?thesis
    using assms(1) move_inv [of "Suc n" cs us "pr_start p" t b] pos_ok_start(1) [of "pr_start p" "pr_end p" t "Suc n" cs b]
      pos_ok_other(1) [of "pr_start p" "pr_end p" _ _ t "Suc n" cs b]
    by (auto simp: positions_def split: if_splits)
next
  case (w_end t b)
  then show ?thesis
    using assms(1) move_inv [of "Suc n" ce ue "pr_end p" t b] pos_ok_end [of "pr_start p" "pr_end p" t "Suc n" ce b]
      pos_ok_other(2) [of "pr_start p" "pr_end p" _ _ t "Suc n" ce b]
    by (auto simp: positions_def split: if_splits)
next
  case (m_start b)
  then show ?thesis
    using assms(1) move_inv [of "Suc n" cs us "pr_start p" n b] pos_ok_start [of "pr_start p" "pr_end p" n "Suc n" cs b]
      pos_ok_other(1) [of "pr_start p" "pr_end p" _ _ n "Suc n" cs b]
    by (auto simp: positions_def split: if_splits)
next
  case (m_end b)
  then show ?thesis
    using assms(1) move_inv [of "Suc n" ce ue "pr_end p" n b] pos_ok_end [of "pr_start p" "pr_end p" n "Suc n" ce b]
      pos_ok_other(2) [of "pr_start p" "pr_end p" _ _ n "Suc n" ce b]
    by (auto simp: positions_def split: if_splits)
next
  case (m_final b)
  then show ?thesis
    using assms(1) move_inv [of "Suc n" cs us "pr_start p" n b] pos_ok_start [of "pr_start p" "pr_end p" n "Suc n" cs b]
      pos_ok_other(1) [of "pr_start p" "pr_end p" _ _ n "Suc n" cs b]
    by (auto simp: positions_def split: if_splits)
qed (use assms(1) in \<open>auto simp: positions_def pr_ops_def pos_ok_enter split: if_splits\<close>)

text \<open>Two threads outside both barriers are in the same phase of the trial.\<close>

lemma before_between:
  assumes "sb_inv N cs us S" "sb_inv N ce ue E" "a < N" "b < N" "pos_ok S E a Before" "pos_ok S E b q"
  shows "q \<noteq> Between" and "q = In_end \<Longrightarrow> sb_left E b < sb_left E a"
  using assms outside_counts [OF assms(1,3)] outside_counts [OF assms(2,3)] outside_counts [OF assms(1,4)] outside_counts [OF assms(2,4)]
  by (auto simp: pos_ok_def)

section \<open>Gate, stop requests and histograms\<close>

text \<open>The gate has been opened once per trial that was started, and a worker has consumed as many
  openings as it has started trials.\<close>

definition gate_inv :: "nat \<Rightarrow> bool \<Rightarrow> 's proto \<Rightarrow> bool" where
  "gate_inv n park p \<longleftrightarrow> park \<longrightarrow>
     pr_gate p = of_nat (sb_left (pr_start p) n + (if main_pos (pr_main p) = In_start then 1 else 0))
     \<and> (\<forall>t<n. pr_seen p t = of_nat (sb_left (pr_start p) t + (if pr_worker p t \<in> {Prep, Clear, At_start} then 1 else 0)))"

text \<open>Stop requests are complete before the main thread enters its last phase; from then on no worker
  runs, and one that is still in the end barrier is leaving it.\<close>

definition stopping :: "main_place \<Rightarrow> bool" where
  "stopping m \<longleftrightarrow> m \<notin> {Idle, M_start, M_end}"

definition stop_inv :: "nat \<Rightarrow> 's proto \<Rightarrow> bool" where
  "stop_inv n p \<longleftrightarrow>
     (\<forall>k. pr_main p = Stopping k \<longrightarrow> k \<le> n)
     \<and> (\<forall>t<n. pr_stop p t \<longleftrightarrow> (case pr_main p of Idle \<Rightarrow> False | M_start \<Rightarrow> False | M_end \<Rightarrow> False | Stopping k \<Rightarrow> t < k | _ \<Rightarrow> True))
     \<and> (\<forall>t<n. pr_worker p t = Done \<longrightarrow> stopping (pr_main p))
     \<and> (stopping (pr_main p) \<longrightarrow> (\<forall>t<n. pr_worker p t \<noteq> Run
          \<and> (pr_worker p t = At_end \<longrightarrow> sb_left (pr_end p) t < sb_left (pr_end p) n)))
     \<and> (pr_main p = Joined \<longrightarrow> (\<forall>t<n. pr_worker p t = Done))"

definition pub_inv :: "nat \<Rightarrow> (nat \<Rightarrow> bool) \<Rightarrow> 's proto \<Rightarrow> bool" where
  "pub_inv n ok p \<longleftrightarrow> (\<forall>t<n. (pr_worker p t \<in> {Park, Prep, At_end} \<longrightarrow> pr_pub p t = None \<or> pr_pub p t = Some (pr_cur p t))
     \<and> (pr_worker p t = Clear \<and> ok t \<longrightarrow> pr_pub p t \<noteq> Some (pr_cur p t)))"

lemma pub_inv_step: "pub_inv n ok p \<Longrightarrow> pr_step n park ok cs ce p p' \<Longrightarrow> pub_inv n ok p'"
  by (erule pr_stepE) (auto simp: pub_inv_def pr_ops_def split: if_splits)

lemma move_left_other: "sb_move n c t b b' \<Longrightarrow> s \<noteq> t \<Longrightarrow> sb_left b' s = sb_left b s"
  using move_others by blast

lemma gate_inv_step:
  assumes "gate_inv n park p" "pr_step n park ok cs ce p p'"
  shows "gate_inv n park p'"
  using assms(2)
proof cases
  case (w_start t b)
  then show ?thesis
    using assms(1) move_left [of "Suc n" cs t "pr_start p" b] move_left_other [of "Suc n" cs t "pr_start p" b]
    by (auto simp: gate_inv_def split: if_splits)
next
  case (m_start b)
  then show ?thesis
    using assms(1) move_left [of "Suc n" cs n "pr_start p" b] move_left_other [of "Suc n" cs n "pr_start p" b]
    by (auto simp: gate_inv_def split: if_splits)
next
  case (m_final b)
  then show ?thesis
    using assms(1) move_left [of "Suc n" cs n "pr_start p" b] move_left_other [of "Suc n" cs n "pr_start p" b]
    by (auto simp: gate_inv_def split: if_splits)
qed (use assms(1) in \<open>auto simp: gate_inv_def pr_ops_def split: if_splits\<close>)

lemma idle_no_run:
  assumes "positions n cs ce us ue p" "main_pos (pr_main p) = Before" "t < n"
  shows "worker_pos (pr_worker p t) \<noteq> Between"
    and "pr_worker p t = At_end \<Longrightarrow> sb_left (pr_end p) t < sb_left (pr_end p) n"
  using assms before_between [of "Suc n" cs us "pr_start p" ce ue "pr_end p" n t "worker_pos (pr_worker p t)"]
  by (auto simp: positions_def)

lemma stop_inv_step:
  assumes "positions n cs ce us ue p" "stop_inv n p" "pr_step n park ok cs ce p p'"
  shows "stop_inv n p'"
  using assms(3)
proof cases
  case (w_check t)
  have "pr_main p \<noteq> Idle" "pr_main p \<noteq> Stopping k" for k
    using idle_no_run(1) [OF assms(1) _ w_check(2)] w_check(3) by auto
  then show ?thesis using w_check assms(2) by (cases "pr_main p") (auto simp: stop_inv_def check_stop_def stopping_def)
next
  case (w_end t b)
  then show ?thesis
    using assms(2) move_left_other [of "Suc n" ce t "pr_end p" b] move_left [of "Suc n" ce t "pr_end p" b]
    by (auto simp: stop_inv_def split: if_splits)
next
  case (m_end b)
  then show ?thesis
    using assms(2) move_left_other [of "Suc n" ce n "pr_end p" b]
    by (auto simp: stop_inv_def stopping_def split: if_splits)
next
  case m_stop
  have "pr_worker p t \<noteq> Run" "pr_worker p t = At_end \<Longrightarrow> sb_left (pr_end p) t < sb_left (pr_end p) n" if "t < n" for t
    using idle_no_run [OF assms(1) _ that] m_stop(2) by auto
  then show ?thesis using m_stop assms(2) by (auto simp: stop_inv_def stopping_def)
qed (use assms(2) in \<open>auto simp: stop_inv_def pr_ops_def stopping_def split: if_splits\<close>)

lemma pr_reach_inv:
  assumes "pr_reach n park ok cs ce us ue p"
  shows "positions n cs ce us ue p \<and> gate_inv n park p \<and> stop_inv n p \<and> pub_inv n ok p"
  using assms
proof induction
  case preach_init
  show ?case using positions_init by (auto simp: gate_inv_def stop_inv_def pub_inv_def pr_init_def sb_init_def stopping_def)
next
  case (preach_step p p')
  then show ?case using positions_step gate_inv_step stop_inv_step pub_inv_step by metis
qed

section \<open>What the main thread reads is not being written\<close>

lemma outside_user:
  assumes "sb_inv n c u b" "t < n" "sb_pc b t = Outside"
  shows "sb_user b = (c ^^ sb_phase b) u" "sb_arrived b t = sb_phase b"
proof -
  have "\<not> closing n c u b"
  proof
    assume "closing n c u b"
    then obtain l where "last_arriver b l" "t \<noteq> l \<Longrightarrow> in_phase b t" using assms(2) by (auto simp: closing_def)
    then show False using assms(3) by (cases "t = l") (auto simp: role_defs)
  qed
  then show "sb_user b = (c ^^ sb_phase b) u" using assms(1) by (simp add: sb_inv_def gathering_def)
  show "sb_arrived b t = sb_phase b" using inv_role [OF assms(1,2)] assms(3) by (auto simp: role_defs)
qed

text \<open>
  (C4) The trial protocol is free of races. In every interleaving of the workers and the main
  thread, whether workers park or spin and whatever their set-up did: while the main thread
  reads the slots and the merged histograms between two trials, no worker is in its timed
  region (the only place where slots are written), a worker that clears a histogram for the next
  trial clears one that is not published, every worker has arrived at the end of the last trial,
  and the time stamps are stable: both completion functions have run exactly once per trial.
\<close>

theorem trial_race_free:
  assumes "pr_reach n park ok cs ce us ue p" "pr_main p = Idle"
  shows "(\<forall>t<n. pr_worker p t \<notin> {Check, Run, Done} \<and> (pr_worker p t = Clear \<and> ok t \<longrightarrow> pr_pub p t \<noteq> Some (pr_cur p t)))
    \<and> (\<exists>k. sb_user (pr_start p) = (cs ^^ k) us \<and> sb_user (pr_end p) = (ce ^^ k) ue
        \<and> (\<forall>t\<le>n. sb_arrived (pr_end p) t = k))"
proof -
  note inv = pr_reach_inv [OF assms(1)]
  define S E where "S = pr_start p" and "E = pr_end p"
  have SE: "sb_inv (Suc n) cs us S" "sb_inv (Suc n) ce ue E" "pos_ok S E n Before"
    "\<And>t. t < n \<Longrightarrow> pos_ok S E t (worker_pos (pr_worker p t))"
    using inv assms(2) by (auto simp: positions_def S_def E_def)
  have out: "sb_pc S n = Outside" "sb_pc E n = Outside" "sb_left S n = sb_left E n" using SE(3) by (auto simp: pos_ok_def)
  then have ph: "sb_phase S = sb_phase E" using outside_counts [OF SE(1)] outside_counts [OF SE(2)] by simp
  have pos: "main_pos (pr_main p) = Before" using assms(2) by simp
  have arr: "sb_arrived E t = sb_phase E" if "t < n" for t
  proof (cases "pr_worker p t = At_end")
    case True
    then have "sb_left E t < sb_phase E"
      using idle_no_run(2) [OF _ pos that] inv outside_counts [OF SE(2) _ out(2)] by (auto simp: E_def)
    then show ?thesis using inv_role [OF SE(2), of t] that by (auto simp: role_defs)
  next
    case False
    then have "worker_pos (pr_worker p t) \<noteq> In_end" by (cases "pr_worker p t") auto
    then show ?thesis using SE(4) [OF that] outside_user(2) [OF SE(2), of t] that by (auto simp: pos_ok_def)
  qed
  have "\<forall>t\<le>n. sb_arrived E t = sb_phase E" using arr outside_user(2) [OF SE(2) _ out(2)] by (auto simp: le_less)
  moreover have "sb_user S = (cs ^^ sb_phase E) us" "sb_user E = (ce ^^ sb_phase E) ue"
    using outside_user(1) [OF SE(1) _ out(1)] outside_user(1) [OF SE(2) _ out(2)] ph by simp_all
  moreover have "pr_worker p t \<notin> {Check, Run, Done} \<and> (pr_worker p t = Clear \<and> ok t \<longrightarrow> pr_pub p t \<noteq> Some (pr_cur p t))" if "t < n" for t
    using idle_no_run(1) [OF _ pos that] inv that by (auto simp: pub_inv_def)
  ultimately show ?thesis unfolding S_def E_def by blast
qed

theorem trial_race_free_witness:
  "\<exists>p. pr_reach 1 False (\<lambda>t. True) Suc Suc 0 0 p \<and> pr_worker p 0 = Clear \<and> pr_pub p 0 \<noteq> Some (pr_cur p 0)"
proof -
  define q p where "q = enter_trial False 0 (pr_init 1 (0 :: nat) 0)" and "p = prepare_trial (\<lambda>t. True) 0 q"
  have "pr_step 1 False (\<lambda>t. True) Suc Suc (pr_init 1 0 0) q"
    unfolding q_def by (rule w_gate) (simp_all add: pr_init_def gate_passes_def)
  then have q: "pr_reach 1 False (\<lambda>t. True) Suc Suc 0 0 q" by (rule preach_step [OF preach_init])
  have "pr_step 1 False (\<lambda>t. True) Suc Suc q p"
    unfolding p_def by (rule w_prep) (simp_all add: q_def enter_trial_def)
  then have r: "pr_reach 1 False (\<lambda>t. True) Suc Suc 0 0 p" by (rule preach_step [OF q])
  moreover have "pr_worker p 0 = Clear" "pr_main p = Idle" by (simp_all add: p_def q_def prepare_trial_def enter_trial_def pr_init_def)
  ultimately show ?thesis using trial_race_free [OF r] by blast
qed

section \<open>No deadlock\<close>

lemma blocked_in_phase:
  assumes "sb_inv n c u b" "t < n" "\<And>b'. \<not> sb_move n c t b b'"
  shows "in_phase b t"
proof -
  have "sb_pc b t \<noteq> Outside" "sb_pc b t \<noteq> Loaded g" "sb_pc b t \<noteq> Last g" "sb_pc b t \<noteq> Completed g" "sb_pc b t \<noteq> Restored g" for g
    using assms(3) move_load move_fetch_sub move_complete move_store move_bump by metis+
  moreover have "\<not> released b t"
  proof
    assume "released b t"
    then have "sb_pc b t = Waiting (of_nat (sb_phase b - 1))" "sb_generation b \<noteq> of_nat (sb_phase b - 1)"
      using assms(1) gen_distinct [of "sb_phase b"] by (auto simp: role_defs sb_inv_def)
    then show False using assms(3) move_leave by blast
  qed
  ultimately show ?thesis using inv_role [OF assms(1,2)] by (auto simp: fresh_def last_arriver_def)
qed

lemma not_all_in_phase: "sb_inv n c u b \<Longrightarrow> \<not> (\<forall>t<n. in_phase b t)"
proof
  assume inv: "sb_inv n c u b" and all: "\<forall>t<n. in_phase b t"
  then have "\<not> closing n c u b" by (auto simp: closing_def role_defs)
  moreover have "{t. t < n \<and> in_phase b t} = {..<n}" using all by auto
  then have "\<not> gathering n c u b" by (simp add: gathering_def)
  ultimately show False using inv by (simp add: sb_inv_def)
qed

text \<open>Nobody can step: where each thread then is.\<close>

lemma stuck_worker:
  assumes "\<And>p'. \<not> pr_step n park ok cs ce p p'" "positions n cs ce us ue p" "t < n"
  shows "pr_worker p t \<in> {Park, At_start, At_end, Done}"
    and "pr_worker p t = Park \<Longrightarrow> park \<and> pr_gate p = pr_seen p t"
    and "pr_worker p t = At_start \<Longrightarrow> in_phase (pr_start p) t"
    and "pr_worker p t = At_end \<Longrightarrow> in_phase (pr_end p) t"
proof -
  have "pr_worker p t \<noteq> Prep" "pr_worker p t \<noteq> Clear" "pr_worker p t \<noteq> Check" "pr_worker p t \<noteq> Run"
    using assms(1) w_prep [OF assms(3), of p] w_clear [OF assms(3), of p] w_check [OF assms(3), of p] w_run [OF assms(3), of p] by blast+
  then show "pr_worker p t \<in> {Park, At_start, At_end, Done}" by (cases "pr_worker p t") auto
  show "pr_worker p t = Park \<Longrightarrow> park \<and> pr_gate p = pr_seen p t"
    using assms(1,3) w_gate unfolding gate_passes_def by metis
  have inv: "sb_inv (Suc n) cs us (pr_start p)" "sb_inv (Suc n) ce ue (pr_end p)" "t < Suc n"
    using assms(2,3) by (auto simp: positions_def)
  show "pr_worker p t = At_start \<Longrightarrow> in_phase (pr_start p) t"
    using blocked_in_phase [OF inv(1,3)] assms(1,3) w_start by metis
  show "pr_worker p t = At_end \<Longrightarrow> in_phase (pr_end p) t"
    using blocked_in_phase [OF inv(2,3)] assms(1,3) w_end by metis
qed

lemma stuck_main:
  assumes "\<And>p'. \<not> pr_step n park ok cs ce p p'" "positions n cs ce us ue p" "stop_inv n p"
  shows "pr_main p \<in> {M_start, M_end, M_last, Joining, Joined}"
    and "pr_main p \<in> {M_start, M_last} \<Longrightarrow> in_phase (pr_start p) n"
    and "pr_main p = M_end \<Longrightarrow> in_phase (pr_end p) n"
    and "pr_main p = Joining \<Longrightarrow> \<exists>t<n. pr_worker p t \<noteq> Done"
proof -
  have "pr_main p \<noteq> Idle" using assms(1) m_trial by metis
  moreover have "pr_main p \<noteq> Stopping k" for k
    using assms(1,3) m_request [of p k n] m_last [of p n] unfolding stop_inv_def by (metis le_neq_implies_less)
  ultimately show "pr_main p \<in> {M_start, M_end, M_last, Joining, Joined}" by (cases "pr_main p") auto
  have inv: "sb_inv (Suc n) cs us (pr_start p)" "sb_inv (Suc n) ce ue (pr_end p)" "n < Suc n"
    using assms(2) by (auto simp: positions_def)
  show "pr_main p \<in> {M_start, M_last} \<Longrightarrow> in_phase (pr_start p) n"
    using blocked_in_phase [OF inv(1,3)] assms(1) m_start m_final by (metis insertE singletonD)
  show "pr_main p = M_end \<Longrightarrow> in_phase (pr_end p) n"
    using blocked_in_phase [OF inv(2,3)] assms(1) m_end by metis
  show "pr_main p = Joining \<Longrightarrow> \<exists>t<n. pr_worker p t \<noteq> Done" using assms(1) m_join by metis
qed

text \<open>In a stuck state every thread is at the latest phase of the barriers.\<close>

lemma stuck_phase:
  assumes "sb_inv N cs us S" "sb_inv N ce ue E" "t < N" "pos_ok S E t q" "q = In_start \<Longrightarrow> in_phase S t" "q = In_end \<Longrightarrow> in_phase E t"
  shows "sb_phase S = sb_phase E + (if q = Between \<or> q = In_end then 1 else 0)"
  using assms outside_counts [OF assms(1,3)] outside_counts [OF assms(2,3)] by (cases q) (auto simp: pos_ok_def in_phase_def)

lemma not_stuck_protocol:
  assumes "pr_reach n park ok cs ce us ue p" "pr_main p \<noteq> Joined"
  shows "\<exists>p'. pr_step n park ok cs ce p p'"
proof (rule ccontr)
  assume "\<nexists>p'. pr_step n park ok cs ce p p'"
  then have no: "\<And>p'. \<not> pr_step n park ok cs ce p p'" by blast
  define S E where "S = pr_start p" and "E = pr_end p"
  have inv: "positions n cs ce us ue p" "gate_inv n park p" "stop_inv n p" using pr_reach_inv [OF assms(1)] by auto
  have SE: "sb_inv (Suc n) cs us S" "sb_inv (Suc n) ce ue E" using inv(1) by (auto simp: positions_def S_def E_def)
  note m = stuck_main [OF no inv(1,3)] and w = stuck_worker [OF no inv(1)]
  define later where "later = (pr_main p \<in> {M_end, Joining})"
  have main: "sb_phase S = sb_phase E + (if later then 1 else 0)"
    using stuck_phase [OF SE, of n "main_pos (pr_main p)"] m assms(2) inv(1)
    by (auto simp: positions_def S_def E_def later_def split: if_splits)
  have work: "sb_phase S = sb_phase E + (if pr_worker p t \<in> {At_end, Done} then 1 else 0)" if "t < n" for t
    using stuck_phase [OF SE, of t "worker_pos (pr_worker p t)"] w [OF that] that inv(1)
    by (auto simp: positions_def S_def E_def split: if_splits)
  show False
  proof (cases later)
    case True
    then have at: "pr_worker p t \<in> {At_end, Done}" if "t < n" for t using main work [OF that] by (auto split: if_splits)
    show False
    proof (cases "pr_main p = M_end")
      case True
      then have "pr_worker p t = At_end" if "t < n" for t using at [OF that] inv(3) that by (auto simp: stop_inv_def stopping_def)
      then have "\<forall>t<Suc n. in_phase E t" using w(4) m(3) [OF True] by (auto simp: E_def less_Suc_eq)
      then show False using not_all_in_phase [OF SE(2)] by simp
    next
      case False
      then have j: "pr_main p = Joining" using True by (simp add: later_def)
      then obtain t where t: "t < n" "pr_worker p t = At_end" using m(4) at by auto
      then have "sb_left E t < sb_left E n" using inv(3) j by (auto simp: stop_inv_def stopping_def E_def)
      moreover have "sb_left E t = sb_phase E" using w(4) [OF t] by (simp add: E_def in_phase_def)
      moreover have "sb_left E n \<le> sb_phase E" using inv_counts [OF SE(2), of n] by simp
      ultimately show False by simp
    qed
  next
    case False
    then have ms: "pr_main p \<in> {M_start, M_last}" using m(1) assms(2) by (auto simp: later_def)
    have ln: "sb_left S n = sb_phase S" using m(2) [OF ms] by (simp add: S_def in_phase_def)
    have "in_phase S t" if t: "t < n" for t
    proof -
      have "pr_worker p t \<noteq> Park"
      proof
        assume a: "pr_worker p t = Park"
        then have "sb_left S t = sb_phase S" using inv(1) t outside_counts [OF SE(1), of t] by (auto simp: positions_def pos_ok_def S_def)
        then have "pr_gate p = of_nat (Suc (sb_phase S)) \<and> pr_seen p t = of_nat (sb_phase S)" if park
          using inv(2) that ms ln a t by (auto simp: gate_inv_def S_def)
        then show False using w(2) [OF t a] gen_distinct [of "Suc (sb_phase S)"] by auto
      qed
      then show ?thesis using w(1,3) [OF t] work [OF t] main False by (auto simp: S_def)
    qed
    then have "\<forall>t<Suc n. in_phase S t" using m(2) [OF ms] by (auto simp: S_def less_Suc_eq)
    then show False using not_all_in_phase [OF SE(1)] by simp
  qed
qed

text \<open>
  (C5) The trial protocol never deadlocks, and stopping is seen consistently: in every reachable
  state in which the main thread has not joined the workers some thread can take a step that
  makes progress; a worker leaves its loop only after all stop requests are under way, never
  while the main thread is in or between trials; and when the main thread is done, every worker
  is.
\<close>

theorem protocol_progress:
  assumes "pr_reach n park ok cs ce us ue p"
  shows "(pr_main p \<noteq> Joined \<longrightarrow> (\<exists>p'. pr_step n park ok cs ce p p'))
    \<and> (pr_main p \<in> {Idle, M_start, M_end} \<longrightarrow> (\<forall>t<n. pr_worker p t \<noteq> Done))
    \<and> (pr_main p = Joined \<longrightarrow> (\<forall>t<n. pr_worker p t = Done))"
  using not_stuck_protocol [OF assms] pr_reach_inv [OF assms] by (auto simp: stop_inv_def stopping_def)

theorem protocol_progress_witness:
  "\<exists>p'. pr_step 2 True (\<lambda>t. t = 0) Suc Suc (pr_init 2 (0 :: nat) 0) p'"
  using protocol_progress [OF preach_init [of 2 True "\<lambda>t. t = 0" Suc Suc 0 0]] by (simp add: pr_init_def)

end
