(* ===== verification/Sync_Memory.thy ===== *)
theory Sync_Memory
  imports Sync
begin

text \<open>
  The spin barrier of \<^verbatim>\<open>engine/include/bench/sync.hpp\<close> with the memory orders it names.
  \<open>Sync\<close> interleaves the participants over one shared memory; here a load may return an old
  value, and what a participant has seen of the others' plain accesses is tracked.

  The memory is the timestamped release/acquire model of the C++ atomics. A location is a
  set of messages, one for each write, at natural-number timestamps that give its modification
  order. A participant's \<open>view\<close> holds the newest timestamp it has seen of each location; a
  load may return any message that is not older than that, a store may take any free
  timestamp after it, and a read-modify-write takes the timestamp right after the message it
  reads, so that nothing comes between. A message carries a view: the writer's, when the
  write is a release, together with the view of the message a read-modify-write continues
  (the release sequence); an acquire joins it to the reader's view.

  The views also hold how much of the participants' work happens-before: how many of each
  participant's arrivals (with the plain accesses sequenced before them) and how many
  completions. These two fields are ghosts, no step tests them.
\<close>

section \<open>Release/acquire memory\<close>

datatype mem_order = Relaxed | Acquire | Release | Acq_Rel

datatype cell = Count | Generation

record view =
  seen :: "cell \<Rightarrow> nat"
  seen_work :: "nat \<Rightarrow> nat"
  seen_done :: nat

record 'v location =
  loc_messages :: "nat \<Rightarrow> ('v \<times> view) option"
  loc_top :: nat

definition no_view :: view where
  "no_view = \<lparr>seen = (\<lambda>x. 0), seen_work = (\<lambda>s. 0), seen_done = 0\<rparr>"

definition join :: "view \<Rightarrow> view \<Rightarrow> view" where
  "join V W = \<lparr>seen = (\<lambda>x. max (seen V x) (seen W x)),
     seen_work = (\<lambda>s. max (seen_work V s) (seen_work W s)),
     seen_done = max (seen_done V) (seen_done W)\<rparr>"

definition see :: "cell \<Rightarrow> nat \<Rightarrow> view \<Rightarrow> view" where
  "see x ts V = V\<lparr>seen := (seen V)(x := ts)\<rparr>"

definition acquires :: "mem_order \<Rightarrow> bool" where
  "acquires mo \<longleftrightarrow> mo = Acquire \<or> mo = Acq_Rel"

definition releases :: "mem_order \<Rightarrow> bool" where
  "releases mo \<longleftrightarrow> mo = Release \<or> mo = Acq_Rel"

definition acquired :: "mem_order \<Rightarrow> view \<Rightarrow> view \<Rightarrow> view" where
  "acquired mo M V = (if acquires mo then join V M else V)"

definition message_view :: "mem_order \<Rightarrow> cell \<Rightarrow> nat \<Rightarrow> view \<Rightarrow> view" where
  "message_view mo x ts V = (if releases mo then V else see x ts no_view)"

text \<open>The write of a message; \<open>loc_top\<close> is the newest timestamp in use.\<close>

definition put :: "nat \<Rightarrow> 'v \<Rightarrow> view \<Rightarrow> 'v location \<Rightarrow> 'v location" where
  "put ts v M l = \<lparr>loc_messages = (loc_messages l)(ts \<mapsto> (v, M)), loc_top = max (loc_top l) ts\<rparr>"

definition init_location :: "'v \<Rightarrow> 'v location" where
  "init_location v = \<lparr>loc_messages = [0 \<mapsto> (v, no_view)], loc_top = 0\<rparr>"

text \<open>
  The atomic operations by a participant with view \<open>V\<close> at a timestamp of the scheduler's
  choice; \<open>None\<close> when the timestamp is not allowed.
\<close>

definition atomic_load :: "mem_order \<Rightarrow> cell \<Rightarrow> nat \<Rightarrow> 'v location \<Rightarrow> view \<Rightarrow> ('v \<times> view) option" where
  "atomic_load mo x ts l V =
     (case loc_messages l ts of
        None \<Rightarrow> None
      | Some (v, M) \<Rightarrow> if seen V x \<le> ts then Some (v, acquired mo M (see x ts V)) else None)"

definition atomic_store ::
    "mem_order \<Rightarrow> cell \<Rightarrow> 'v \<Rightarrow> nat \<Rightarrow> 'v location \<Rightarrow> view \<Rightarrow> (view \<times> 'v location) option" where
  "atomic_store mo x v ts l V =
     (if seen V x < ts \<and> loc_messages l ts = None
      then let W = see x ts V in Some (W, put ts v (message_view mo x ts W) l)
      else None)"

definition atomic_rmw :: "mem_order \<Rightarrow> cell \<Rightarrow> ('v \<Rightarrow> 'v) \<Rightarrow> nat \<Rightarrow> 'v location \<Rightarrow> view
    \<Rightarrow> ('v \<times> view \<times> 'v location) option" where
  "atomic_rmw mo x f ts l V =
     (case loc_messages l ts of
        None \<Rightarrow> None
      | Some (v, M) \<Rightarrow>
          if seen V x \<le> ts \<and> loc_messages l (Suc ts) = None
          then let W = acquired mo M (see x (Suc ts) V)
               in Some (v, W, put (Suc ts) (f v) (join (message_view mo x (Suc ts) W) M) l)
          else None)"

lemmas memory_defs = acquired_def message_view_def acquires_def releases_def

lemma join_simps [simp]:
  "seen (join V W) x = max (seen V x) (seen W x)"
  "seen_work (join V W) s = max (seen_work V s) (seen_work W s)"
  "seen_done (join V W) = max (seen_done V) (seen_done W)"
  by (simp_all add: join_def)

lemma see_simps [simp]:
  "seen (see x ts V) y = (if y = x then ts else seen V y)"
  "seen_work (see x ts V) = seen_work V"
  "seen_done (see x ts V) = seen_done V"
  by (simp_all add: see_def)

lemma no_view_simps [simp]: "seen no_view x = 0" "seen_work no_view s = 0" "seen_done no_view = 0"
  by (simp_all add: no_view_def)

lemma put_simps [simp]:
  "loc_messages (put ts v M l) = (loc_messages l)(ts \<mapsto> (v, M))"
  "loc_top (put ts v M l) = max (loc_top l) ts"
  by (simp_all add: put_def)

lemma atomic_load_Some:
  "atomic_load mo x ts l V = Some (v, W) \<longleftrightarrow>
     (\<exists>M. loc_messages l ts = Some (v, M) \<and> seen V x \<le> ts \<and> W = acquired mo M (see x ts V))"
  by (auto simp: atomic_load_def split: option.splits)

lemma atomic_store_Some:
  "atomic_store mo x v ts l V = Some (W, l') \<longleftrightarrow>
     seen V x < ts \<and> loc_messages l ts = None \<and> W = see x ts V
     \<and> l' = put ts v (message_view mo x ts W) l"
  by (auto simp: atomic_store_def Let_def)

lemma atomic_rmw_Some:
  "atomic_rmw mo x f ts l V = Some (v, W, l') \<longleftrightarrow>
     (\<exists>M. loc_messages l ts = Some (v, M) \<and> seen V x \<le> ts \<and> loc_messages l (Suc ts) = None
       \<and> W = acquired mo M (see x (Suc ts) V)
       \<and> l' = put (Suc ts) (f v) (join (message_view mo x (Suc ts) W) M) l)"
  by (auto simp: atomic_rmw_def Let_def split: option.splits)

lemmas atomic_Some = atomic_load_Some atomic_store_Some atomic_rmw_Some

section \<open>The barrier over this memory\<close>

text \<open>
  The state of \<open>Sync\<close> with the two atomics as locations and a view for each participant. The
  program counters are those of \<open>Sync\<close>, and so are the ghosts.
\<close>

record 's ra_barrier =
  ra_count :: "int location"
  ra_generation :: "u64 location"
  ra_view :: "nat \<Rightarrow> view"
  ra_pc :: "nat \<Rightarrow> pc"
  ra_user :: 's
  ra_phase :: nat
  ra_arrived :: "nat \<Rightarrow> nat"
  ra_left :: "nat \<Rightarrow> nat"

definition ra_init :: "nat \<Rightarrow> 's \<Rightarrow> 's ra_barrier" where
  "ra_init n u = \<lparr>ra_count = init_location (int n), ra_generation = init_location 0,
     ra_view = (\<lambda>t. no_view), ra_pc = (\<lambda>t. Outside), ra_user = u, ra_phase = 0,
     ra_arrived = (\<lambda>t. 0), ra_left = (\<lambda>t. 0)\<rparr>"

text \<open>
  The operations of \<open>arrive\<close> and of the waiting loops, with the orders of lines 36, 44 and
  55-63; \<open>ts\<close> is the timestamp the memory picks.
\<close>

definition ra_load_generation :: "nat \<Rightarrow> nat \<Rightarrow> 's ra_barrier \<Rightarrow> 's ra_barrier option" where
  "ra_load_generation t ts w =
     (case atomic_load Acquire Generation ts (ra_generation w) (ra_view w t) of
        None \<Rightarrow> None
      | Some (gen, V) \<Rightarrow>
          Some (w\<lparr>ra_pc := (ra_pc w)(t := Loaded gen), ra_view := (ra_view w)(t := V)\<rparr>))"

text \<open>The work before the arrival is the participant's own: it enters its view here.\<close>

definition own_work :: "nat \<Rightarrow> nat \<Rightarrow> view \<Rightarrow> view" where
  "own_work t k V = V\<lparr>seen_work := (seen_work V)(t := max k (seen_work V t))\<rparr>"

definition ra_fetch_sub_count :: "nat \<Rightarrow> u64 \<Rightarrow> nat \<Rightarrow> 's ra_barrier \<Rightarrow> 's ra_barrier option" where
  "ra_fetch_sub_count t gen ts w =
     (case atomic_rmw Acq_Rel Count (\<lambda>v. v - 1) ts (ra_count w)
             (own_work t (ra_arrived w t + 1) (ra_view w t)) of
        None \<Rightarrow> None
      | Some (v, V, l) \<Rightarrow>
          Some (w\<lparr>ra_count := l, ra_pc := (ra_pc w)(t := if v = 1 then Last gen else Waiting gen),
            ra_view := (ra_view w)(t := V),
            ra_arrived := (ra_arrived w)(t := ra_arrived w t + 1)\<rparr>))"

definition ra_run_completion :: "('s \<Rightarrow> 's) \<Rightarrow> nat \<Rightarrow> u64 \<Rightarrow> 's ra_barrier \<Rightarrow> 's ra_barrier" where
  "ra_run_completion c t gen w =
     w\<lparr>ra_user := c (ra_user w), ra_pc := (ra_pc w)(t := Completed gen),
       ra_view := (ra_view w)(t := (ra_view w t)
         \<lparr>seen_done := max (Suc (ra_phase w)) (seen_done (ra_view w t))\<rparr>)\<rparr>"

definition ra_store_count :: "nat \<Rightarrow> nat \<Rightarrow> u64 \<Rightarrow> nat \<Rightarrow> 's ra_barrier \<Rightarrow> 's ra_barrier option" where
  "ra_store_count n t gen ts w =
     (case atomic_store Relaxed Count (int n) ts (ra_count w) (ra_view w t) of
        None \<Rightarrow> None
      | Some (V, l) \<Rightarrow>
          Some (w\<lparr>ra_count := l, ra_pc := (ra_pc w)(t := Restored gen),
            ra_view := (ra_view w)(t := V)\<rparr>))"

definition ra_bump_generation :: "nat \<Rightarrow> u64 \<Rightarrow> nat \<Rightarrow> 's ra_barrier \<Rightarrow> 's ra_barrier option" where
  "ra_bump_generation t gen ts w =
     (case atomic_rmw Release Generation (\<lambda>g. g + 1) ts (ra_generation w) (ra_view w t) of
        None \<Rightarrow> None
      | Some (g, V, l) \<Rightarrow>
          Some (w\<lparr>ra_generation := l, ra_phase := ra_phase w + 1,
            ra_pc := (ra_pc w)(t := Waiting gen), ra_view := (ra_view w)(t := V)\<rparr>))"

text \<open>One test of the waiting loop: it ends the loop when the value read is not \<open>gen\<close>.\<close>

definition ra_poll :: "nat \<Rightarrow> u64 \<Rightarrow> nat \<Rightarrow> 's ra_barrier \<Rightarrow> 's ra_barrier option" where
  "ra_poll t gen ts w =
     (case atomic_load Acquire Generation ts (ra_generation w) (ra_view w t) of
        None \<Rightarrow> None
      | Some (g, V) \<Rightarrow>
          let w' = w\<lparr>ra_view := (ra_view w)(t := V)\<rparr>
          in Some (if g = gen then w'
             else w'\<lparr>ra_pc := (ra_pc w)(t := Outside), ra_left := (ra_left w)(t := ra_left w t + 1)\<rparr>))"

inductive ra_step :: "nat \<Rightarrow> ('s \<Rightarrow> 's) \<Rightarrow> nat \<Rightarrow> 's ra_barrier \<Rightarrow> 's ra_barrier \<Rightarrow> bool"
  for n c t w where
  ra_load: "ra_pc w t = Outside \<Longrightarrow> ra_load_generation t ts w = Some w' \<Longrightarrow> ra_step n c t w w'"
| ra_fetch_sub: "ra_pc w t = Loaded gen \<Longrightarrow> ra_fetch_sub_count t gen ts w = Some w' \<Longrightarrow> ra_step n c t w w'"
| ra_complete: "ra_pc w t = Last gen \<Longrightarrow> ra_step n c t w (ra_run_completion c t gen w)"
| ra_store: "ra_pc w t = Completed gen \<Longrightarrow> ra_store_count n t gen ts w = Some w' \<Longrightarrow> ra_step n c t w w'"
| ra_bump: "ra_pc w t = Restored gen \<Longrightarrow> ra_bump_generation t gen ts w = Some w' \<Longrightarrow> ra_step n c t w w'"
| ra_wait: "ra_pc w t = Waiting gen \<Longrightarrow> ra_poll t gen ts w = Some w' \<Longrightarrow> ra_step n c t w w'"

inductive_cases ra_stepE: "ra_step n c t w w'"

inductive ra_reach :: "nat \<Rightarrow> ('s \<Rightarrow> 's) \<Rightarrow> 's \<Rightarrow> 's ra_barrier \<Rightarrow> bool" for n c u where
  ra_reach_init: "ra_reach n c u (ra_init n u)"
| ra_reach_step: "ra_reach n c u w \<Longrightarrow> t < n \<Longrightarrow> ra_step n c t w w' \<Longrightarrow> ra_reach n c u w'"

lemmas ra_ops_def = ra_load_generation_def ra_fetch_sub_count_def ra_run_completion_def
  ra_store_count_def ra_bump_generation_def ra_poll_def

text \<open>The barrier of \<open>Sync\<close> this state stands for: the newest value of each location.\<close>

definition newest :: "'v location \<Rightarrow> 'v" where
  "newest l = fst (the (loc_messages l (loc_top l)))"

definition sc_view :: "'s ra_barrier \<Rightarrow> 's barrier" where
  "sc_view w = \<lparr>sb_count = newest (ra_count w), sb_generation = newest (ra_generation w),
     sb_pc = ra_pc w, sb_user = ra_user w, sb_phase = ra_phase w, sb_arrived = ra_arrived w,
     sb_left = ra_left w\<rparr>"

lemma sc_view_simps [simp]:
  "sb_count (sc_view w) = newest (ra_count w)" "sb_generation (sc_view w) = newest (ra_generation w)"
  "sb_pc (sc_view w) = ra_pc w" "sb_user (sc_view w) = ra_user w" "sb_phase (sc_view w) = ra_phase w"
  "sb_arrived (sc_view w) = ra_arrived w" "sb_left (sc_view w) = ra_left w"
  by (simp_all add: sc_view_def)

section \<open>The invariant\<close>

text \<open>\<open>V\<close> holds \<open>k\<close> arrivals of everybody and \<open>k\<close> completions.\<close>

definition knows :: "nat \<Rightarrow> nat \<Rightarrow> view \<Rightarrow> bool" where
  "knows n k V \<longleftrightarrow> k \<le> seen_done V \<and> (\<forall>s<n. k \<le> seen_work V s)"

definition in_range :: "'s ra_barrier \<Rightarrow> view \<Rightarrow> bool" where
  "in_range w V \<longleftrightarrow> seen V Generation \<le> ra_phase w \<and> seen V Count \<le> loc_top (ra_count w)"

text \<open>
  The generation has the timestamps up to the phase, with their own numbers as values; the
  message of phase \<open>k\<close> knows \<open>k\<close>.
\<close>

definition generation_ok :: "nat \<Rightarrow> 's ra_barrier \<Rightarrow> bool" where
  "generation_ok n w \<longleftrightarrow> loc_top (ra_generation w) = ra_phase w
     \<and> (\<forall>ts. loc_messages (ra_generation w) ts = None \<longleftrightarrow> ra_phase w < ts)
     \<and> (\<forall>ts v M. loc_messages (ra_generation w) ts = Some (v, M) \<longrightarrow>
          v = of_nat ts \<and> in_range w M \<and> knows n ts M)"

definition restoring :: "nat \<Rightarrow> 's ra_barrier \<Rightarrow> bool" where
  "restoring n w \<longleftrightarrow> (\<exists>t<n. \<exists>g. ra_pc w t = Restored g)"

text \<open>
  The count of the current phase starts at timestamp \<open>B\<close>, the store of the full count, and has
  no gap from there to its newest message, which knows the arrivals of this phase. Once the
  full count of the next phase is stored, only that message matters.
\<close>

definition count_ok :: "nat \<Rightarrow> nat \<Rightarrow> 's ra_barrier \<Rightarrow> bool" where
  "count_ok n B w \<longleftrightarrow> B \<le> loc_top (ra_count w)
     \<and> loc_messages (ra_count w) (loc_top (ra_count w)) \<noteq> None
     \<and> (\<forall>ts>loc_top (ra_count w). loc_messages (ra_count w) ts = None)
     \<and> (\<forall>ts v M. loc_messages (ra_count w) ts = Some (v, M) \<longrightarrow> in_range w M)
     \<and> (\<forall>v M. loc_messages (ra_generation w) (ra_phase w) = Some (v, M) \<longrightarrow> B \<le> seen M Count)
     \<and> (\<not> restoring n w \<longrightarrow>
          (\<forall>ts. B \<le> ts \<and> ts \<le> loc_top (ra_count w) \<longrightarrow> loc_messages (ra_count w) ts \<noteq> None)
          \<and> (\<forall>v M. loc_messages (ra_count w) (loc_top (ra_count w)) = Some (v, M) \<longrightarrow>
              (\<forall>s<n. ra_arrived w s = Suc (ra_phase w) \<longrightarrow> Suc (ra_phase w) \<le> seen_work M s)))"

fun finishing_view :: "nat \<Rightarrow> 's ra_barrier \<Rightarrow> view \<Rightarrow> pc \<Rightarrow> bool" where
  "finishing_view n w V (Last g) \<longleftrightarrow>
     seen V Count = loc_top (ra_count w) \<and> (\<forall>s<n. Suc (ra_phase w) \<le> seen_work V s)"
| "finishing_view n w V (Completed g) \<longleftrightarrow>
     seen V Count = loc_top (ra_count w) \<and> knows n (Suc (ra_phase w)) V"
| "finishing_view n w V (Restored g) \<longleftrightarrow>
     seen V Count = loc_top (ra_count w) \<and> knows n (Suc (ra_phase w)) V"
| "finishing_view n w V _ \<longleftrightarrow> True"

definition view_ok :: "nat \<Rightarrow> nat \<Rightarrow> 's ra_barrier \<Rightarrow> nat \<Rightarrow> bool" where
  "view_ok n B w t \<longleftrightarrow> in_range w (ra_view w t) \<and> ra_left w t \<le> seen (ra_view w t) Generation
     \<and> knows n (ra_left w t) (ra_view w t)
     \<and> (ra_left w t = ra_phase w \<longrightarrow> B \<le> seen (ra_view w t) Count)
     \<and> finishing_view n w (ra_view w t) (ra_pc w t)"

definition ra_inv :: "nat \<Rightarrow> 's ra_barrier \<Rightarrow> bool" where
  "ra_inv n w \<longleftrightarrow> (\<exists>B. generation_ok n w \<and> count_ok n B w \<and> (\<forall>t<n. view_ok n B w t))"

lemma ra_invI:
  "generation_ok n w \<Longrightarrow> count_ok n B w \<Longrightarrow> (\<And>t. t < n \<Longrightarrow> view_ok n B w t) \<Longrightarrow> ra_inv n w"
  unfolding ra_inv_def by blast

lemma knows_join: "knows n k V \<or> knows n k W \<Longrightarrow> knows n k (join V W)"
  unfolding knows_def by (auto simp: max.coboundedI1 max.coboundedI2)

lemma knows_mono: "knows n k V \<Longrightarrow> j \<le> k \<Longrightarrow> knows n j V"
  unfolding knows_def by (meson order_trans)

lemma knows_see [simp]: "knows n k (see x ts V) = knows n k V"
  by (simp add: knows_def)

lemma finishing_view_other:
  "(\<And>g. p \<noteq> Last g) \<Longrightarrow> (\<And>g. p \<noteq> Completed g) \<Longrightarrow> (\<And>g. p \<noteq> Restored g) \<Longrightarrow> finishing_view n w V p"
  by (cases p) auto

lemma generation_okD:
  assumes "generation_ok n w" "loc_messages (ra_generation w) ts = Some (v, M)"
  shows "ts \<le> ra_phase w" "v = of_nat ts" "in_range w M" "knows n ts M"
proof -
  show "ts \<le> ra_phase w" using assms unfolding generation_ok_def by (metis not_less option.distinct(1))
  show "v = of_nat ts" "in_range w M" "knows n ts M" using assms unfolding generation_ok_def by blast+
qed

lemma generation_ok_top:
  assumes "generation_ok n w"
  obtains v M where "loc_messages (ra_generation w) (ra_phase w) = Some (v, M)"
    "loc_top (ra_generation w) = ra_phase w" "loc_messages (ra_generation w) (Suc (ra_phase w)) = None"
  using assms unfolding generation_ok_def by (metis lessI less_irrefl not_None_eq surj_pair)

lemma newest_generation:
  assumes "generation_ok n w"
  shows "newest (ra_generation w) = of_nat (ra_phase w)"
proof -
  obtain v M where "loc_messages (ra_generation w) (ra_phase w) = Some (v, M)"
      "loc_top (ra_generation w) = ra_phase w"
    using assms by (rule generation_ok_top)
  then show ?thesis using generation_okD(2) [OF assms] by (simp add: newest_def)
qed

lemma in_range_cong:
  "ra_phase w' = ra_phase w \<Longrightarrow> ra_count w' = ra_count w \<Longrightarrow> in_range w' V = in_range w V"
  by (simp add: in_range_def)

lemma generation_ok_cong:
  "ra_generation w' = ra_generation w \<Longrightarrow> ra_phase w' = ra_phase w \<Longrightarrow> ra_count w' = ra_count w
    \<Longrightarrow> generation_ok n w' = generation_ok n w"
  by (simp add: generation_ok_def in_range_cong [of w' w])

lemma count_ok_cong:
  "ra_generation w' = ra_generation w \<Longrightarrow> ra_phase w' = ra_phase w \<Longrightarrow> ra_count w' = ra_count w
    \<Longrightarrow> ra_arrived w' = ra_arrived w \<Longrightarrow> restoring n w' = restoring n w
    \<Longrightarrow> count_ok n B w' = count_ok n B w"
  by (simp add: count_ok_def in_range_cong [of w' w])

lemma finishing_view_cong:
  "ra_phase w' = ra_phase w \<Longrightarrow> ra_count w' = ra_count w
    \<Longrightarrow> finishing_view n w' V p = finishing_view n w V p"
  by (cases p) auto

lemma view_ok_cong:
  "ra_phase w' = ra_phase w \<Longrightarrow> ra_count w' = ra_count w \<Longrightarrow> ra_view w' t = ra_view w t
    \<Longrightarrow> ra_pc w' t = ra_pc w t \<Longrightarrow> ra_left w' t = ra_left w t \<Longrightarrow> view_ok n B w' t = view_ok n B w t"
  by (simp add: view_ok_def in_range_cong [of w' w] finishing_view_cong [of w' w])

lemma ra_inv_init: "ra_inv n (ra_init n u)"
proof (rule ra_invI [where B = 0])
  show "generation_ok n (ra_init n u)"
    by (simp add: generation_ok_def ra_init_def init_location_def in_range_def knows_def)
  show "count_ok n 0 (ra_init n u)"
    by (simp add: count_ok_def ra_init_def init_location_def in_range_def restoring_def)
  show "view_ok n 0 (ra_init n u) t" if "t < n" for t
    by (simp add: view_ok_def ra_init_def init_location_def in_range_def knows_def)
qed

lemma sc_view_init: "sc_view (ra_init n u) = sb_init n u"
  by (simp add: sc_view_def ra_init_def sb_init_def init_location_def newest_def)

section \<open>Every step keeps the invariant and is a step of Sync\<close>

text \<open>Loads of the generation, by a participant that has finished nothing yet.\<close>

lemma generation_load:
  assumes "generation_ok n w" "count_ok n B w" "view_ok n B w t"
    and "atomic_load Acquire Generation ts (ra_generation w) (ra_view w t) = Some (v, V)"
  shows "v = of_nat ts" "ra_left w t \<le> ts" "ts \<le> ra_phase w" "in_range w V" "ts \<le> seen V Generation"
    "knows n ts V" "ts = ra_phase w \<Longrightarrow> B \<le> seen V Count"
proof -
  obtain M where M: "loc_messages (ra_generation w) ts = Some (v, M)"
      "seen (ra_view w t) Generation \<le> ts" "V = join (see Generation ts (ra_view w t)) M"
    using assms(4) by (auto simp: atomic_Some memory_defs)
  note g = generation_okD [OF assms(1) M(1)]
  have top: "loc_messages (ra_generation w) (ra_phase w) = Some (v, M) \<Longrightarrow> B \<le> seen M Count"
    using assms(2) by (simp add: count_ok_def)
  show "v = of_nat ts" "ts \<le> ra_phase w" using g by simp_all
  show "ra_left w t \<le> ts" "in_range w V" "knows n ts V"
    using assms(3) M(2,3) g by (auto simp: view_ok_def in_range_def intro: knows_join)
  show "B \<le> seen V Count" if "ts = ra_phase w" using that top M by (simp add: max.coboundedI2)
  show "ts \<le> seen V Generation" using M(3) by simp
qed

lemma view_move:
  assumes inv: "generation_ok n w" "count_ok n B w" "\<And>s. s < n \<Longrightarrow> view_ok n B w s"
    and same: "ra_generation w' = ra_generation w" "ra_phase w' = ra_phase w" "ra_count w' = ra_count w"
      "ra_arrived w' = ra_arrived w"
      "\<And>s. s \<noteq> t \<Longrightarrow> ra_view w' s = ra_view w s \<and> ra_pc w' s = ra_pc w s \<and> ra_left w' s = ra_left w s"
    and t: "\<And>g. ra_pc w t \<noteq> Restored g" "\<And>g. ra_pc w' t \<noteq> Restored g" "view_ok n B w' t"
  shows "ra_inv n w'"
proof (rule ra_invI)
  show "generation_ok n w'" using inv(1) generation_ok_cong [of w' w] same by simp
  have "restoring n w' = restoring n w" unfolding restoring_def using same(5) t(1,2) by metis
  then show "count_ok n B w'" using inv(2) count_ok_cong [of w' w] same by simp
  show "view_ok n B w' s" if "s < n" for s
    using that inv(3) view_ok_cong [of w' w s] same t(3) by (cases "s = t") auto
qed

lemma load_sim:
  assumes "generation_ok n w" "count_ok n B w" "\<And>s. s < n \<Longrightarrow> view_ok n B w s"
    and "sb_inv n c u (sc_view w)" "t < n" "ra_pc w t = Outside"
    and "ra_load_generation t ts w = Some w'"
  shows "ra_inv n w' \<and> sc_view w' = load_generation t (sc_view w)"
proof -
  obtain v V where l: "atomic_load Acquire Generation ts (ra_generation w) (ra_view w t) = Some (v, V)"
      and w': "w' = w\<lparr>ra_pc := (ra_pc w)(t := Loaded v), ra_view := (ra_view w)(t := V)\<rparr>"
    using assms(7) by (auto simp: ra_load_generation_def split: option.splits)
  note g = generation_load [OF assms(1,2) assms(3) [OF assms(5)] l]
  have left: "ra_left w t = ra_phase w"
    using inv_role [OF assms(4,5)] assms(6) by (auto simp: role_defs)
  then have ts: "ts = ra_phase w" using g by simp
  have "view_ok n B w' t"
    using g ts left by (simp add: view_ok_def w' in_range_def)
  then have "ra_inv n w'"
    using assms(6) by (intro view_move [OF assms(1,2,3), where t = t and w' = w']) (auto simp: w')
  then show ?thesis
    using newest_generation [OF assms(1)] g(1) ts by (simp add: w' sc_view_def load_generation_def)
qed

lemma poll_sim:
  assumes "generation_ok n w" "count_ok n B w" "\<And>s. s < n \<Longrightarrow> view_ok n B w s"
    and "sb_inv n c u (sc_view w)" "t < n" "ra_pc w t = Waiting gen"
    and "ra_poll t gen ts w = Some w'"
  shows "ra_inv n w' \<and> (sc_view w' = sc_view w
    \<or> sb_generation (sc_view w) \<noteq> gen \<and> sc_view w' = leave t (sc_view w))"
proof -
  obtain v V where l: "atomic_load Acquire Generation ts (ra_generation w) (ra_view w t) = Some (v, V)"
    using assms(7) by (auto simp: ra_poll_def split: option.splits)
  note g = generation_load [OF assms(1,2) assms(3) [OF assms(5)] l]
  show ?thesis
  proof (cases "v = gen")
    case True
    then have w': "w' = w\<lparr>ra_view := (ra_view w)(t := V)\<rparr>"
      using assms(7) l by (simp add: ra_poll_def)
    have "view_ok n B w' t"
      using g assms(6) knows_mono [OF g(6,2)] by (auto simp: view_ok_def w' in_range_def)
    then have "ra_inv n w'"
      using assms(6) by (intro view_move [OF assms(1,2,3), where t = t and w' = w']) (auto simp: w')
    then show ?thesis by (simp add: w' sc_view_def)
  next
    case False
    then have w': "w' = w\<lparr>ra_view := (ra_view w)(t := V), ra_pc := (ra_pc w)(t := Outside),
        ra_left := (ra_left w)(t := ra_left w t + 1)\<rparr>"
      using assms(7) l by (simp add: ra_poll_def)
    have role: "in_phase (sc_view w) t \<or> released (sc_view w) t"
      using inv_role [OF assms(4,5)] assms(6) by (auto simp: role_defs)
    have ts: "ts = ra_phase w" "Suc (ra_left w t) = ra_phase w"
    proof -
      have "gen = of_nat (ra_left w t)"
        using role
      proof
        assume r: "released (sc_view w) t"
        then have "ra_phase w - 1 = ra_left w t" unfolding released_def by (simp, linarith)
        then show ?thesis using r assms(6) by (simp add: released_def del: of_nat_diff)
      qed (use assms(6) in \<open>simp add: in_phase_def\<close>)
      then have "ts \<noteq> ra_left w t" using False g(1) by auto
      then show "ts = ra_phase w" "Suc (ra_left w t) = ra_phase w"
        using role g(2,3) by (auto simp: role_defs)
    qed
    have "view_ok n B w' t" using g ts by (simp add: view_ok_def w' in_range_def)
    then have "ra_inv n w'"
      using assms(6) by (intro view_move [OF assms(1,2,3), where t = t and w' = w']) (auto simp: w')
    then show ?thesis
      using newest_generation [OF assms(1)] g(1) ts False by (simp add: w' sc_view_def leave_def)
  qed
qed

lemma complete_sim:
  assumes "generation_ok n w" "count_ok n B w" "\<And>s. s < n \<Longrightarrow> view_ok n B w s"
    and "t < n" "ra_pc w t = Last gen"
  shows "ra_inv n (ra_run_completion c t gen w)
    \<and> sc_view (ra_run_completion c t gen w) = run_completion c t gen (sc_view w)"
proof -
  let ?w = "ra_run_completion c t gen w"
  have "view_ok n B ?w t"
    using assms(3) [OF assms(4)] assms(5)
    by (auto simp: view_ok_def in_range_def knows_def ra_run_completion_def)
  then have "ra_inv n ?w"
    using assms(5) by (intro view_move [OF assms(1,2,3), where t = t and w' = ?w]) (auto simp: ra_run_completion_def)
  then show ?thesis by (simp add: ra_run_completion_def sc_view_def run_completion_def)
qed

lemma closing_roles:
  assumes "sb_inv n c u b" "l < n" "sb_pc b l \<in> {Last g, Completed g, Restored g}"
  shows "last_arriver b l" "\<And>t. t < n \<Longrightarrow> t \<noteq> l \<Longrightarrow> in_phase b t"
proof -
  have "\<not> gathering n c u b" using assms(2,3) by (auto simp: gathering_def role_defs)
  then obtain k where k: "k < n" "last_arriver b k" "\<And>t. t < n \<Longrightarrow> t \<noteq> k \<Longrightarrow> in_phase b t"
    using assms(1) by (auto simp: sb_inv_def closing_def)
  have "l = k" using k(3) [OF assms(2)] assms(3) by (cases "l = k") (auto simp: in_phase_def)
  then show "last_arriver b l" "\<And>t. t < n \<Longrightarrow> t \<noteq> l \<Longrightarrow> in_phase b t" using k by auto
qed

text \<open>While somebody is about to arrive, nobody is finishing the phase.\<close>

lemma not_finishing:
  assumes "sb_inv n c u (sc_view w)" "t < n" "ra_pc w t = Loaded gen" "s < n"
  shows "ra_pc w s \<noteq> Last g" "ra_pc w s \<noteq> Completed g" "ra_pc w s \<noteq> Restored g"
proof -
  have *: False if "sb_pc (sc_view w) s \<in> {Last g, Completed g, Restored g}"
    using closing_roles(2) [OF assms(1,4) that assms(2)] that assms(3)
    by (cases "t = s") (auto simp: in_phase_def)
  show "ra_pc w s \<noteq> Last g" "ra_pc w s \<noteq> Completed g" "ra_pc w s \<noteq> Restored g"
    using * by auto
qed

lemma in_range_mono:
  "in_range w V \<Longrightarrow> ra_phase w \<le> ra_phase w' \<Longrightarrow> loc_top (ra_count w) \<le> loc_top (ra_count w')
    \<Longrightarrow> in_range w' V"
  by (simp add: in_range_def)

lemma generation_ok_mono:
  assumes "generation_ok n w" "ra_generation w' = ra_generation w" "ra_phase w' = ra_phase w"
    "loc_top (ra_count w) \<le> loc_top (ra_count w')"
  shows "generation_ok n w'"
  using assms in_range_mono [of w _ w'] unfolding generation_ok_def by (metis le_refl)

lemma view_ok_mono:
  assumes "view_ok n B w s" "ra_phase w' = ra_phase w" "loc_top (ra_count w) \<le> loc_top (ra_count w')"
    and "ra_view w' s = ra_view w s" "ra_left w' s = ra_left w s" "finishing_view n w' (ra_view w' s) (ra_pc w' s)"
  shows "view_ok n B w' s"
  using assms in_range_mono [of w _ w'] by (simp add: view_ok_def)

lemma count_okD:
  assumes "count_ok n B w"
  shows "B \<le> loc_top (ra_count w)" "loc_messages (ra_count w) (loc_top (ra_count w)) \<noteq> None"
    "\<And>ts. loc_top (ra_count w) < ts \<Longrightarrow> loc_messages (ra_count w) ts = None"
    "\<And>ts v M. loc_messages (ra_count w) ts = Some (v, M) \<Longrightarrow> in_range w M"
    "\<And>v M. loc_messages (ra_generation w) (ra_phase w) = Some (v, M) \<Longrightarrow> B \<le> seen M Count"
  using assms unfolding count_ok_def by blast+

lemma count_ok_arriving:
  assumes "count_ok n B w" "\<not> restoring n w"
  shows "\<And>ts. B \<le> ts \<Longrightarrow> ts \<le> loc_top (ra_count w) \<Longrightarrow> loc_messages (ra_count w) ts \<noteq> None"
    "\<And>v M s. loc_messages (ra_count w) (loc_top (ra_count w)) = Some (v, M) \<Longrightarrow> s < n
      \<Longrightarrow> ra_arrived w s = Suc (ra_phase w) \<Longrightarrow> Suc (ra_phase w) \<le> seen_work M s"
  using assms unfolding count_ok_def by blast+

lemma store_sim:
  assumes "generation_ok n w" "count_ok n B w" "\<And>s. s < n \<Longrightarrow> view_ok n B w s"
    and "sb_inv n c u (sc_view w)" "t < n" "ra_pc w t = Completed gen"
    and "ra_store_count n t gen ts w = Some w'"
  shows "ra_inv n w' \<and> sc_view w' = store_count n t gen (sc_view w)"
proof -
  let ?V = "see Count ts (ra_view w t)"
  let ?M = "see Count ts no_view"
  have fin: "seen (ra_view w t) Count = loc_top (ra_count w)" "knows n (Suc (ra_phase w)) (ra_view w t)"
    using assms(3) [OF assms(5)] assms(6) by (simp_all add: view_ok_def)
  then have ts: "loc_top (ra_count w) < ts"
      and w': "w' = w\<lparr>ra_count := put ts (int n) ?M (ra_count w),
        ra_pc := (ra_pc w)(t := Restored gen), ra_view := (ra_view w)(t := ?V)\<rparr>"
    using assms(7) by (auto simp: ra_store_count_def atomic_Some memory_defs split: option.splits)
  note roles = closing_roles [OF assms(4,5), of gen, simplified, OF disjI2 [OF disjI1 [OF assms(6)]]]
  have le: "loc_top (ra_count w) \<le> loc_top (ra_count w')" "ra_phase w' = ra_phase w"
    using ts by (simp_all add: w')
  have "generation_ok n w'" using ts by (intro generation_ok_mono [OF assms(1)]) (simp_all add: w')
  moreover have "count_ok n B w'"
  proof -
    have "restoring n w'" using assms(5) by (auto simp: restoring_def w')
    moreover have "in_range w' M" if "loc_messages (ra_count w') i = Some (v, M)" for i v M
      using that in_range_mono [OF count_okD(4) [OF assms(2), of i v M], of w'] le ts
      by (cases "i = ts") (auto simp: w' in_range_def)
    ultimately show ?thesis
      using count_okD [OF assms(2)] ts unfolding count_ok_def by (auto simp: w')
  qed
  moreover have "view_ok n B w' s" if "s < n" for s
  proof (cases "s = t")
    case True
    then show ?thesis
      using assms(3) [OF assms(5)] ts fin by (auto simp: view_ok_def w' in_range_def)
  next
    case False
    then show ?thesis
      using roles(2) [OF that] view_ok_mono [OF assms(3) [OF that], of w'] le
      by (simp add: w' in_phase_def)
  qed
  ultimately have "ra_inv n w'" by (rule ra_invI)
  then show ?thesis using ts by (simp add: w' sc_view_def store_count_def newest_def)
qed

lemma fetch_sub_sim:
  assumes "generation_ok n w" "count_ok n B w" "\<And>s. s < n \<Longrightarrow> view_ok n B w s"
    and "sb_reach n c u (sc_view w)" "t < n" "ra_pc w t = Loaded gen"
    and "ra_fetch_sub_count t gen ts w = Some w'"
  shows "ra_inv n w' \<and> sc_view w' = fetch_sub_count t gen (sc_view w)"
proof -
  have inv: "sb_inv n c u (sc_view w)" using assms(4,5) by (auto intro: inv_reach)
  have role: "ra_arrived w t = ra_phase w" "ra_left w t = ra_phase w"
    using inv_role [OF inv assms(5)] assms(6) by (auto simp: role_defs)
  note idle = not_finishing [OF inv assms(5,6)]
  have nr: "\<not> restoring n w" using idle(3) by (auto simp: restoring_def)
  note cnt = count_okD [OF assms(2)] and arr = count_ok_arriving [OF assms(2) nr]
  let ?top = "loc_top (ra_count w)"
  let ?O = "see Count (Suc ts) (own_work t (Suc (ra_phase w)) (ra_view w t))"
  obtain v M where M: "loc_messages (ra_count w) ts = Some (v, M)" "seen (ra_view w t) Count \<le> ts"
      "loc_messages (ra_count w) (Suc ts) = None"
      and w': "w' = w\<lparr>ra_count := put (Suc ts) (v - 1) (join (join ?O M) M) (ra_count w),
        ra_pc := (ra_pc w)(t := if v = 1 then Last gen else Waiting gen),
        ra_view := (ra_view w)(t := join ?O M), ra_arrived := (ra_arrived w)(t := Suc (ra_phase w))\<rparr>"
    using assms(7) role(1)
    by (auto simp: ra_fetch_sub_count_def atomic_Some memory_defs own_work_def split: option.splits)
  have ts: "ts = ?top"
  proof (rule ccontr)
    assume "ts \<noteq> ?top"
    moreover have "ts \<le> ?top" using M(1) cnt(3) by (metis not_less option.distinct(1))
    moreover have "B \<le> ts" using assms(3) [OF assms(5)] role(2) M(2) by (simp add: view_ok_def)
    ultimately show False using arr(1) [of "Suc ts"] M(3) by simp
  qed
  have sc: "sc_view w' = fetch_sub_count t gen (sc_view w)"
    using M(1) ts role(1) by (simp add: w' sc_view_def fetch_sub_count_def newest_def)
  have new: "Suc (ra_phase w) \<le> seen_work (join ?O M) s" if "s < n" "ra_arrived w' s = Suc (ra_phase w)" for s
    using that arr(2) [of v M s] M(1) ts
    by (cases "s = t") (auto simp: w' own_work_def max.coboundedI2)
  have le: "ra_phase w' = ra_phase w" "?top \<le> loc_top (ra_count w')" "loc_top (ra_count w') = Suc ?top"
    using ts by (simp_all add: w')
  have range: "in_range w' (join ?O M)" "in_range w' M"
    using assms(3) [OF assms(5)] cnt(4) [OF M(1)] le ts
    by (auto simp: view_ok_def in_range_def own_work_def w')
  have "generation_ok n w'" using ts by (intro generation_ok_mono [OF assms(1)]) (simp_all add: w')
  moreover have "count_ok n B w'"
  proof -
    have "in_range w' M'" if "loc_messages (ra_count w') i = Some (v', M')" for i v' M'
      using that in_range_mono [OF cnt(4) [of i v' M'], of w'] le range
      by (cases "i = Suc ts") (auto simp: w' in_range_def)
    moreover have "loc_messages (ra_count w') i \<noteq> None" if "B \<le> i" "i \<le> loc_top (ra_count w')" for i
      using arr(1) [of i] that ts by (auto simp: w' le_Suc_eq)
    moreover have "Suc (ra_phase w) \<le> seen_work (join (join ?O M) M) s"
      if "s < n" "ra_arrived w' s = Suc (ra_phase w)" for s
      using new [OF that] by simp
    ultimately show ?thesis
      using cnt ts unfolding count_ok_def by (simp add: w')
  qed
  moreover have "view_ok n B w' s" if "s < n" for s
  proof (cases "s = t")
    case True
    have "Suc (ra_phase w) \<le> seen_work (join ?O M) i" if "v = 1" "i < n" for i
    proof (rule new [OF that(2)])
      have "sb_reach n c u (sc_view w')"
        using reach_step [OF assms(4) step_move [OF assms(5) move_fetch_sub]] assms(6) sc by simp
      then have "sb_inv n c u (sc_view w')" using assms(5) by (auto intro: inv_reach)
      note roles = closing_roles [OF this assms(5), of gen]
      show "ra_arrived w' i = Suc (ra_phase w)"
        using roles(1) roles(2) [OF _ that(2)] that(1)
        by (cases "i = t") (auto simp: w' in_phase_def last_arriver_def)
    qed
    moreover have "seen (join ?O M) Count = Suc ?top"
      using cnt(4) [OF M(1)] ts by (simp add: in_range_def)
    moreover have "knows n (ra_left w t) (join ?O M)"
      using assms(3) [OF assms(5)] by (auto simp: view_ok_def knows_def own_work_def max.coboundedI1)
    ultimately show ?thesis
      using True range assms(3) [OF assms(5)] le cnt(1) role(2)
      by (auto simp: view_ok_def w' own_work_def ts)
  next
    case False
    have "finishing_view n w' (ra_view w' s) (ra_pc w' s)"
      using idle [OF that] False by (intro finishing_view_other) (auto simp: w')
    then show ?thesis using view_ok_mono [OF assms(3) [OF that], of w'] le False by (simp add: w')
  qed
  ultimately have "ra_inv n w'" by (rule ra_invI)
  then show ?thesis using sc by simp
qed

lemma bump_sim:
  assumes "generation_ok n w" "count_ok n B w" "\<And>s. s < n \<Longrightarrow> view_ok n B w s"
    and "sb_inv n c u (sc_view w)" "t < n" "ra_pc w t = Restored gen"
    and "ra_bump_generation t gen ts w = Some w'"
  shows "ra_inv n w' \<and> sc_view w' = bump_generation t gen (sc_view w)"
proof -
  let ?p = "ra_phase w"
  let ?V = "see Generation (Suc ?p) (ra_view w t)"
  note roles = closing_roles [OF assms(4,5), of gen, simplified, OF disjI2 [OF disjI2 [OF assms(6)]]]
  have fin: "seen (ra_view w t) Count = loc_top (ra_count w)" "knows n (Suc ?p) (ra_view w t)"
      "in_range w (ra_view w t)" "?p \<le> seen (ra_view w t) Generation"
    using assms(3) [OF assms(5)] assms(6) roles(1) by (auto simp: view_ok_def last_arriver_def)
  obtain g M where M: "loc_messages (ra_generation w) ts = Some (g, M)" "seen (ra_view w t) Generation \<le> ts"
      and w'': "w' = w\<lparr>ra_generation := put (Suc ts) (g + 1) (join (see Generation (Suc ts) (ra_view w t)) M) (ra_generation w),
        ra_phase := Suc ?p, ra_pc := (ra_pc w)(t := Waiting gen),
        ra_view := (ra_view w)(t := see Generation (Suc ts) (ra_view w t))\<rparr>"
    using assms(7) by (auto simp: ra_bump_generation_def atomic_Some memory_defs split: option.splits)
  note g = generation_okD [OF assms(1) M(1)]
  have ts: "ts = ?p" using g(1) M(2) fin(4) by simp
  note w' = w'' [unfolded ts]
  have top: "loc_top (ra_generation w) = ?p" "\<And>i. loc_messages (ra_generation w) i = None \<longleftrightarrow> ?p < i"
    using assms(1) unfolding generation_ok_def by blast+
  have arrived: "ra_arrived w s = Suc ?p" "ra_left w s = ?p" "s \<noteq> t \<Longrightarrow> \<exists>h. ra_pc w s = Waiting h"
    if "s < n" for s
    using roles(1) roles(2) [OF that] by (cases "s = t"; simp add: role_defs)+
  have mono: "in_range w V \<Longrightarrow> in_range w' V" for V by (simp add: in_range_def w')
  have new: "in_range w' (join ?V M)" "knows n (Suc ?p) (join ?V M)"
    using fin g by (auto simp: in_range_def w' intro: knows_join)
  have "generation_ok n w'"
  proof -
    have "v = of_nat i \<and> in_range w' N \<and> knows n i N"
      if "loc_messages (ra_generation w') i = Some (v, N)" for i v N
    proof (cases "i = Suc ?p")
      case True
      then show ?thesis using that new g(2) ts by (auto simp: w' add.commute)
    next
      case False
      then have "loc_messages (ra_generation w) i = Some (v, N)" using that by (simp add: w')
      from generation_okD [OF assms(1) this] show ?thesis using mono by simp
    qed
    moreover have "loc_messages (ra_generation w') i = None \<longleftrightarrow> ra_phase w' < i" for i
    proof -
      have "loc_messages (ra_generation w') i = None \<longleftrightarrow>
          i \<noteq> Suc ?p \<and> loc_messages (ra_generation w) i = None" by (simp add: w')
      moreover have "ra_phase w' = Suc ?p" by (simp add: w')
      ultimately show ?thesis using top(2) [of i] by linarith
    qed
    moreover have "loc_top (ra_generation w') = ra_phase w'" using top(1) by (simp add: w')
    ultimately show ?thesis unfolding generation_ok_def by blast
  qed
  moreover have "count_ok n (loc_top (ra_count w)) w'"
  proof -
    have "in_range w' N" if "loc_messages (ra_count w') i = Some (v, N)" for i v N
      using that count_okD(4) [OF assms(2)] mono by (simp add: w')
    moreover have "ra_arrived w' s \<noteq> Suc (ra_phase w')" if "s < n" for s
      using arrived(1) [OF that] by (simp add: w')
    moreover have "loc_messages (ra_count w) i \<noteq> None"
      if "loc_top (ra_count w) \<le> i \<and> i \<le> loc_top (ra_count w)" for i
      using that count_okD(2) [OF assms(2)] by (metis order_antisym)
    moreover have "loc_top (ra_count w) \<le> seen (join ?V M) Count" using fin(1) by simp
    moreover have "loc_messages (ra_generation w') (ra_phase w') = Some (g + 1, join ?V M)"
      "ra_count w' = ra_count w" by (simp_all add: w')
    ultimately show ?thesis
      using count_okD(2,3) [OF assms(2)] unfolding count_ok_def by auto
  qed
  moreover have "view_ok n (loc_top (ra_count w)) w' s" if "s < n" for s
  proof (cases "s = t")
    case True
    then show ?thesis
      using fin arrived(2) [OF assms(5)] knows_mono [OF fin(2), of ?p]
      by (simp add: view_ok_def w' in_range_def)
  next
    case False
    then show ?thesis
      using assms(3) [OF that] arrived(2,3) [OF that] mono by (auto simp: view_ok_def w' in_range_def)
  qed
  ultimately have "ra_inv n w'" by (rule ra_invI)
  then show ?thesis using top(1) g(2) M(1) ts by (simp add: w' sc_view_def bump_generation_def newest_def)
qed

lemma ra_step_sim:
  assumes "ra_step n c t w w'" "t < n" "sb_reach n c u (sc_view w)" "ra_inv n w"
  shows "ra_inv n w' \<and> sb_reach n c u (sc_view w')"
proof -
  obtain B where inv: "generation_ok n w" "count_ok n B w" "\<And>s. s < n \<Longrightarrow> view_ok n B w s"
    using assms(4) unfolding ra_inv_def by blast
  have sc: "sb_inv n c u (sc_view w)" using assms(2,3) by (auto intro: inv_reach)
  note move = reach_step [OF assms(3) step_move [OF assms(2)]]
  show ?thesis
    using assms(1)
  proof cases
    case (ra_load ts)
    then show ?thesis
      using load_sim [OF inv sc assms(2)] move [OF move_load] by simp
  next
    case (ra_fetch_sub gen ts)
    then show ?thesis
      using fetch_sub_sim [OF inv assms(3,2)] move [OF move_fetch_sub] by simp
  next
    case (ra_complete gen)
    then show ?thesis
      using complete_sim [OF inv assms(2)] move [OF move_complete] by simp
  next
    case (ra_store gen ts)
    then show ?thesis
      using store_sim [OF inv sc assms(2)] move [OF move_store] by simp
  next
    case (ra_bump gen ts)
    then show ?thesis
      using bump_sim [OF inv sc assms(2)] move [OF move_bump] by simp
  next
    case (ra_wait gen ts)
    then show ?thesis
      using poll_sim [OF inv sc assms(2)] move [OF move_leave] assms(3) by force
  qed
qed

lemma ra_reach_inv: "ra_reach n c u w \<Longrightarrow> 0 < n \<Longrightarrow> ra_inv n w \<and> sb_reach n c u (sc_view w)"
proof (induction rule: ra_reach.induct)
  case ra_reach_init
  show ?case unfolding sc_view_init by (intro conjI ra_inv_init reach_init)
next
  case (ra_reach_step w t w')
  then have "ra_inv n w" "sb_reach n c u (sc_view w)" by simp_all
  from ra_step_sim [OF ra_reach_step.hyps(3,2) this(2,1)] show ?case .
qed

text \<open>Conversely, the newest timestamp lets every move of \<open>Sync\<close> happen here.\<close>

lemma ra_step_enabled:
  assumes "sb_move n c t (sc_view w) b'" "t < n" "sb_reach n c u (sc_view w)" "ra_inv n w"
  shows "\<exists>w'. ra_step n c t w w' \<and> sc_view w' = b'"
proof -
  obtain B where inv: "generation_ok n w" "count_ok n B w" "\<And>s. s < n \<Longrightarrow> view_ok n B w s"
    using assms(4) unfolding ra_inv_def by blast
  have sc: "sb_inv n c u (sc_view w)" using assms(2,3) by (auto intro: inv_reach)
  have V: "seen (ra_view w t) Generation \<le> ra_phase w" "seen (ra_view w t) Count \<le> loc_top (ra_count w)"
    using inv(3) [OF assms(2)] by (simp_all add: view_ok_def in_range_def)
  obtain g M where G: "loc_messages (ra_generation w) (ra_phase w) = Some (g, M)"
      "loc_messages (ra_generation w) (Suc (ra_phase w)) = None" "loc_top (ra_generation w) = ra_phase w"
    using inv(1) by (rule generation_ok_top)
  obtain v N where C: "loc_messages (ra_count w) (loc_top (ra_count w)) = Some (v, N)"
      "loc_messages (ra_count w) (Suc (loc_top (ra_count w))) = None"
    using count_okD(2,3) [OF inv(2)] by (metis lessI not_None_eq surj_pair)
  show ?thesis
    using assms(1)
  proof cases
    case move_load
    have "ra_load_generation t (ra_phase w) w \<noteq> None"
      using G V by (simp add: ra_load_generation_def atomic_load_def)
    then obtain w' where w': "ra_load_generation t (ra_phase w) w = Some w'" by blast
    have pc: "ra_pc w t = Outside" using move_load by simp
    show ?thesis
      using ra_load [OF pc w'] load_sim [OF inv sc assms(2) pc w'] move_load by auto
  next
    case (move_fetch_sub gen)
    have "ra_fetch_sub_count t gen (loc_top (ra_count w)) w \<noteq> None"
      using C V by (simp add: ra_fetch_sub_count_def atomic_rmw_def Let_def own_work_def)
    then obtain w' where w': "ra_fetch_sub_count t gen (loc_top (ra_count w)) w = Some w'" by blast
    have pc: "ra_pc w t = Loaded gen" using move_fetch_sub by simp
    show ?thesis
      using ra_fetch_sub [OF pc w'] fetch_sub_sim [OF inv assms(3,2) pc w'] move_fetch_sub by auto
  next
    case (move_complete gen)
    then show ?thesis
      using ra_complete [of w t gen n c] complete_sim [OF inv assms(2), of gen c] by auto
  next
    case (move_store gen)
    have "ra_store_count n t gen (Suc (loc_top (ra_count w))) w \<noteq> None"
      using C V by (simp add: ra_store_count_def atomic_store_def Let_def)
    then obtain w' where w': "ra_store_count n t gen (Suc (loc_top (ra_count w))) w = Some w'" by blast
    have pc: "ra_pc w t = Completed gen" using move_store by simp
    show ?thesis
      using ra_store [OF pc w'] store_sim [OF inv sc assms(2) pc w'] move_store by auto
  next
    case (move_bump gen)
    have "ra_bump_generation t gen (ra_phase w) w \<noteq> None"
      using G V by (simp add: ra_bump_generation_def atomic_rmw_def Let_def)
    then obtain w' where w': "ra_bump_generation t gen (ra_phase w) w = Some w'" by blast
    have pc: "ra_pc w t = Restored gen" using move_bump by simp
    show ?thesis
      using ra_bump [OF pc w'] bump_sim [OF inv sc assms(2) pc w'] move_bump by auto
  next
    case (move_leave gen)
    have "ra_poll t gen (ra_phase w) w \<noteq> None"
      using G V by (simp add: ra_poll_def atomic_load_def Let_def)
    then obtain w' where w': "ra_poll t gen (ra_phase w) w = Some w'" by blast
    have "ra_pc w' t = Outside"
      using w' G V move_leave(3) by (auto simp: ra_poll_def atomic_load_def Let_def newest_def split: if_splits)
    moreover have pc: "ra_pc w t = Waiting gen" using move_leave by simp
    ultimately have "sc_view w' \<noteq> sc_view w" by (metis pc.distinct(9) sc_view_simps(3))
    then show ?thesis
      using ra_wait [OF pc w'] poll_sim [OF inv sc assms(2) pc w'] move_leave by auto
  qed
qed

section \<open>Refinement and publication\<close>

text \<open>
  (C11) The barrier is as good on release/acquire memory as on one that every participant sees
  alike. Whatever old values the loads return and wherever the memory puts the writes, the
  newest values go through states that \<open>Sync\<close> reaches, so \<open>barrier_safety\<close> and
  \<open>barrier_progress\<close> hold of them; and every move \<open>Sync\<close> allows can be made here too, so no
  participant is blocked by what it has or has not seen.
\<close>

theorem memory_order_refines:
  assumes "ra_reach n c u w" "0 < n"
  shows "sb_reach n c u (sc_view w)
    \<and> (\<forall>t<n. \<forall>b'. sb_move n c t (sc_view w) b' \<longrightarrow> (\<exists>w'. ra_step n c t w w' \<and> sc_view w' = b'))"
proof (intro conjI allI impI)
  have inv: "ra_inv n w" "sb_reach n c u (sc_view w)" using ra_reach_inv [OF assms] by simp_all
  show "sb_reach n c u (sc_view w)" by (rule inv(2))
  show "\<exists>w'. ra_step n c t w w' \<and> sc_view w' = b'" if "t < n" "sb_move n c t (sc_view w) b'" for t b'
    using that(2,1) inv(2,1) by (rule ra_step_enabled)
qed

text \<open>
  (C12) The orders the code names are strong enough to publish plain data through the
  barrier. A participant that has left \<open>k\<close> phases sees everything every participant did
  before its \<open>k\<close>-th arrival, and everything the first \<open>k\<close> completions did; and the last
  arriver of a phase, when it is about to run the completion, sees everything everybody did
  before arriving in this phase, and all earlier completions. (The count is restored by a
  relaxed store: the release of the generation after it is what orders it.)
\<close>

theorem barrier_publishes:
  assumes "ra_reach n c u w" "t < n"
  shows "(\<forall>s<n. ra_left w t \<le> seen_work (ra_view w t) s) \<and> ra_left w t \<le> seen_done (ra_view w t)
    \<and> (\<forall>g. ra_pc w t = Last g \<longrightarrow> ra_phase w \<le> seen_done (ra_view w t)
        \<and> (\<forall>s<n. ra_arrived w s = Suc (ra_phase w) \<and> Suc (ra_phase w) \<le> seen_work (ra_view w t) s))"
proof -
  have inv: "ra_inv n w" "sb_inv n c u (sc_view w)"
    using ra_reach_inv [OF assms(1)] assms(2) by (auto intro: inv_reach)
  obtain B where "view_ok n B w t" using inv(1) assms(2) unfolding ra_inv_def by blast
  then have v: "knows n (ra_left w t) (ra_view w t)" "finishing_view n w (ra_view w t) (ra_pc w t)"
    by (simp_all add: view_ok_def)
  have "ra_left w t = ra_phase w" "\<forall>s<n. ra_arrived w s = Suc (ra_phase w)" if "ra_pc w t = Last g" for g
    using closing_roles [OF inv(2) assms(2), of g] that
    by (auto simp: last_arriver_def in_phase_def)
  then show ?thesis using v unfolding knows_def by force
qed

text \<open>Two participants; the second one is the last to arrive.\<close>

definition ra_two :: "nat ra_barrier" where
  "ra_two = the (ra_fetch_sub_count 1 0 1 (the (ra_load_generation 1 0
     (the (ra_fetch_sub_count 0 0 0 (the (ra_load_generation 0 0 (ra_init 2 0))))))))"

lemmas ra_eval = ra_ops_def atomic_load_def atomic_rmw_def ra_init_def init_location_def put_def
  memory_defs own_work_def

lemma ra_reach_two: "ra_reach 2 Suc 0 ra_two"
proof -
  let ?a = "the (ra_load_generation 0 0 (ra_init 2 (0 :: nat)))"
  let ?b = "the (ra_fetch_sub_count 0 0 0 ?a)"
  let ?c = "the (ra_load_generation 1 0 ?b)"
  have "ra_reach 2 Suc 0 ?a"
    by (rule ra_reach_step [OF ra_reach_init _ ra_load [where t = 0 and ts = 0]]) (simp_all add: ra_eval)
  then have "ra_reach 2 Suc 0 ?b"
    by (rule ra_reach_step [OF _ _ ra_fetch_sub [where t = 0 and gen = 0 and ts = 0]])
      (simp_all add: ra_eval Let_def)
  then have "ra_reach 2 Suc 0 ?c"
    by (rule ra_reach_step [OF _ _ ra_load [where t = 1 and ts = 0]]) (simp_all add: ra_eval Let_def)
  then show ?thesis
    unfolding ra_two_def
    by (rule ra_reach_step [OF _ _ ra_fetch_sub [where t = 1 and gen = 0 and ts = 1]])
      (simp_all add: ra_eval Let_def)
qed

lemma ra_two_state: "ra_pc ra_two 1 = Last 0" "ra_phase ra_two = 0"
  by (simp_all add: ra_two_def ra_eval Let_def)

theorem memory_order_refines_witness:
  "\<exists>w'. ra_step 2 Suc 1 ra_two w' \<and> sc_view w' = run_completion Suc 1 0 (sc_view ra_two)"
proof -
  have "sb_move 2 Suc 1 (sc_view ra_two) (run_completion Suc 1 0 (sc_view ra_two))"
    using ra_two_state by (intro move_complete) simp
  then show ?thesis using memory_order_refines [OF ra_reach_two pos2] by simp
qed

theorem barrier_publishes_witness:
  "ra_pc ra_two 1 = Last 0 \<and> 1 \<le> seen_work (ra_view ra_two 1) 0 \<and> ra_arrived ra_two 0 = 1"
proof -
  have "\<forall>g. ra_pc ra_two 1 = Last g \<longrightarrow> ra_phase ra_two \<le> seen_done (ra_view ra_two 1)
        \<and> (\<forall>s<2. ra_arrived ra_two s = Suc (ra_phase ra_two)
            \<and> Suc (ra_phase ra_two) \<le> seen_work (ra_view ra_two 1) s)"
    using barrier_publishes [OF ra_reach_two, of 1] by simp
  then show ?thesis using ra_two_state by auto
qed

end
