(* ===== verification/Gate_Memory.thy ===== *)
theory Gate_Memory
  imports Sync_Memory
begin

text \<open>
  The gate of an interleaved run (\<open>Gate\<close> in \<^verbatim>\<open>engine/src/runner.cpp\<close>), on the release/acquire
  memory of \<open>Sync_Memory\<close> and with the sleeping that \<open>Protocol\<close> leaves out: the main thread opens
  the gate by a release increment and then notifies; a worker tests the generation, and while it
  is the one it has consumed, waits in \<open>atomic::wait\<close>, which may put it to sleep.
\<close>

section \<open>State and operations\<close>

text \<open>
  Where a worker is: elsewhere in its loop, before the loop condition of \<open>wait\<close>, inside
  \<open>generation.wait\<close>, or asleep in it.
\<close>

datatype gate_pc = At_work | Testing | In_wait | Asleep

text \<open>
  \<open>ga_seen\<close> is the worker's \<open>gate_seen\<close>; \<open>ga_notifying\<close> says that the main thread is between
  the two calls of \<open>open\<close>. The openings and passages are counted in ghosts. The main thread is
  participant 0 of the views: its work is what it did before each opening.
\<close>

record ra_gate =
  ga_generation :: "u64 location"
  ga_opener :: view
  ga_notifying :: bool
  ga_pc :: "nat \<Rightarrow> gate_pc"
  ga_seen :: "nat \<Rightarrow> u64"
  ga_view :: "nat \<Rightarrow> view"
  ga_opened :: nat
  ga_passed :: "nat \<Rightarrow> nat"

definition gate_init :: ra_gate where
  "gate_init = \<lparr>ga_generation = init_location 0, ga_opener = no_view, ga_notifying = False,
     ga_pc = (\<lambda>t. At_work), ga_seen = (\<lambda>t. 0), ga_view = (\<lambda>t. no_view), ga_opened = 0, ga_passed = (\<lambda>t. 0)\<rparr>"

text \<open>\<open>open\<close>: the increment, and \<open>notify_all\<close>.\<close>

definition ga_open :: "nat \<Rightarrow> ra_gate \<Rightarrow> ra_gate option" where
  "ga_open ts w =
     (case atomic_rmw Release Generation (\<lambda>g. g + 1) ts (ga_generation w) (own_work 0 (ga_opened w + 1) (ga_opener w)) of
        None \<Rightarrow> None
      | Some (g, V, l) \<Rightarrow>
          Some (w\<lparr>ga_generation := l, ga_opener := V, ga_opened := ga_opened w + 1, ga_notifying := True\<rparr>))"

definition ga_notify :: "ra_gate \<Rightarrow> ra_gate" where
  "ga_notify w = w\<lparr>ga_notifying := False, ga_pc := (\<lambda>t. if ga_pc w t = Asleep then In_wait else ga_pc w t)\<rparr>"

text \<open>The loop condition; when it fails, \<open>wait\<close> returns and the worker counts the opening.\<close>

definition ga_test :: "nat \<Rightarrow> nat \<Rightarrow> ra_gate \<Rightarrow> ra_gate option" where
  "ga_test t ts w =
     (case atomic_load Acquire Generation ts (ga_generation w) (ga_view w t) of
        None \<Rightarrow> None
      | Some (g, V) \<Rightarrow>
          let w' = w\<lparr>ga_view := (ga_view w)(t := V)\<rparr>
          in Some (if g = ga_seen w t then w'\<lparr>ga_pc := (ga_pc w)(t := In_wait)\<rparr>
             else w'\<lparr>ga_pc := (ga_pc w)(t := At_work), ga_seen := (ga_seen w)(t := ga_seen w t + 1),
               ga_passed := (ga_passed w)(t := ga_passed w t + 1)\<rparr>))"

text \<open>
  \<open>generation.wait(seen)\<close>: it compares and returns when the value is another one. It goes to sleep
  only when the value in memory is still \<open>seen\<close> (the system checks this when it queues the thread), and
  is woken by a notification or for no reason, after which it compares again.
\<close>

definition ga_compare :: "nat \<Rightarrow> nat \<Rightarrow> ra_gate \<Rightarrow> ra_gate option" where
  "ga_compare t ts w =
     (case atomic_load Acquire Generation ts (ga_generation w) (ga_view w t) of
        None \<Rightarrow> None
      | Some (g, V) \<Rightarrow>
          Some (w\<lparr>ga_view := (ga_view w)(t := V),
            ga_pc := (ga_pc w)(t := if g = ga_seen w t then In_wait else Testing)\<rparr>))"

definition ga_move :: "nat \<Rightarrow> gate_pc \<Rightarrow> ra_gate \<Rightarrow> ra_gate" where
  "ga_move t c w = w\<lparr>ga_pc := (ga_pc w)(t := c)\<rparr>"

inductive gate_step :: "nat \<Rightarrow> ra_gate \<Rightarrow> ra_gate \<Rightarrow> bool" for n w where
  g_open: "\<not> ga_notifying w \<Longrightarrow> ga_open ts w = Some w' \<Longrightarrow> gate_step n w w'"
| g_notify: "ga_notifying w \<Longrightarrow> gate_step n w (ga_notify w)"
| g_enter: "t < n \<Longrightarrow> ga_pc w t = At_work \<Longrightarrow> gate_step n w (ga_move t Testing w)"
| g_test: "t < n \<Longrightarrow> ga_pc w t = Testing \<Longrightarrow> ga_test t ts w = Some w' \<Longrightarrow> gate_step n w w'"
| g_compare: "t < n \<Longrightarrow> ga_pc w t = In_wait \<Longrightarrow> ga_compare t ts w = Some w' \<Longrightarrow> gate_step n w w'"
| g_sleep: "t < n \<Longrightarrow> ga_pc w t = In_wait \<Longrightarrow> newest (ga_generation w) = ga_seen w t
    \<Longrightarrow> gate_step n w (ga_move t Asleep w)"
| g_wake: "t < n \<Longrightarrow> ga_pc w t = Asleep \<Longrightarrow> gate_step n w (ga_move t In_wait w)"

inductive gate_reach :: "nat \<Rightarrow> ra_gate \<Rightarrow> bool" for n where
  gate_reach_init: "gate_reach n gate_init"
| gate_reach_step: "gate_reach n w \<Longrightarrow> gate_step n w w' \<Longrightarrow> gate_reach n w'"

section \<open>The invariant\<close>

text \<open>A view that has seen an opening has seen the work before it.\<close>

definition sees_work :: "nat \<Rightarrow> view \<Rightarrow> bool" where
  "sees_work k V \<longleftrightarrow> seen V Generation \<le> k \<and> seen V Generation \<le> seen_work V 0"

definition openings_ok :: "ra_gate \<Rightarrow> bool" where
  "openings_ok w \<longleftrightarrow> loc_top (ga_generation w) = ga_opened w \<and> seen (ga_opener w) Generation = ga_opened w
     \<and> sees_work (ga_opened w) (ga_opener w)
     \<and> (\<forall>ts > ga_opened w. loc_messages (ga_generation w) ts = None)
     \<and> (\<forall>ts \<le> ga_opened w. \<exists>M. loc_messages (ga_generation w) ts = Some (of_nat ts, M)
          \<and> sees_work (ga_opened w) M \<and> ts \<le> seen_work M 0)"

definition worker_ok :: "ra_gate \<Rightarrow> nat \<Rightarrow> bool" where
  "worker_ok w t \<longleftrightarrow> sees_work (ga_opened w) (ga_view w t) \<and> ga_seen w t = of_nat (ga_passed w t)
     \<and> ga_passed w t \<le> seen (ga_view w t) Generation
     \<and> (ga_pc w t = Asleep \<longrightarrow> ga_notifying w \<or> ga_seen w t = of_nat (ga_opened w))"

lemma gate_newest: "openings_ok w \<Longrightarrow> newest (ga_generation w) = of_nat (ga_opened w)"
  by (fastforce simp: openings_ok_def newest_def)

text \<open>What a load finds: the value is the timestamp, and the new view has seen it.\<close>

lemma gate_load:
  assumes "openings_ok w" "sees_work (ga_opened w) V" "atomic_load Acquire Generation ts (ga_generation w) V = Some (g, W)"
  shows "g = of_nat ts" "sees_work (ga_opened w) W" "seen V Generation \<le> ts" "ts \<le> seen W Generation" "ts \<le> ga_opened w"
proof -
  obtain M where M: "loc_messages (ga_generation w) ts = Some (g, M)" "seen V Generation \<le> ts"
      "W = join (see Generation ts V) M"
    using assms(3) by (auto simp: atomic_load_Some memory_defs)
  show ts: "ts \<le> ga_opened w" using M(1) assms(1) by (force simp: openings_ok_def not_less [symmetric])
  then have ok: "g = of_nat ts" "sees_work (ga_opened w) M" "ts \<le> seen_work M 0"
    using M(1) assms(1) by (fastforce simp: openings_ok_def)+
  show "g = of_nat ts" "seen V Generation \<le> ts" "ts \<le> seen W Generation" using ok(1) M(2,3) by simp_all
  show "sees_work (ga_opened w) W" using ok(2,3) ts assms(2) by (auto simp: M(3) sees_work_def)
qed

lemma openings_step:
  assumes "openings_ok w" "ga_open ts w = Some w'"
  shows "openings_ok w'" "ga_opened w' = ga_opened w + 1" "ga_notifying w'" "ga_pc w' = ga_pc w"
    "ga_seen w' = ga_seen w" "ga_passed w' = ga_passed w" "ga_view w' = ga_view w"
proof -
  let ?V = "own_work 0 (ga_opened w + 1) (ga_opener w)"
  obtain g V l where r: "atomic_rmw Release Generation (\<lambda>g. g + 1) ts (ga_generation w) ?V = Some (g, V, l)"
      "w' = w\<lparr>ga_generation := l, ga_opener := V, ga_opened := ga_opened w + 1, ga_notifying := True\<rparr>"
    using assms(2) by (auto simp: ga_open_def split: option.splits)
  then obtain M where M: "loc_messages (ga_generation w) ts = Some (g, M)" "seen ?V Generation \<le> ts"
      "V = see Generation (Suc ts) ?V" "l = put (Suc ts) (g + 1) (join V M) (ga_generation w)"
    by (auto simp: atomic_rmw_Some memory_defs)
  have "ts \<le> ga_opened w" using M(1) assms(1) by (force simp: openings_ok_def not_less [symmetric])
  moreover have "ga_opened w \<le> ts" using M(2) assms(1) by (simp add: openings_ok_def own_work_def)
  ultimately have ts: "ts = ga_opened w" by simp
  then have "g = of_nat ts" "sees_work (ga_opened w) M" using M(1) assms(1) by (fastforce simp: openings_ok_def)+
  then show "openings_ok w'"
    using assms(1) M(3,4) ts by (auto simp: r(2) openings_ok_def sees_work_def own_work_def le_Suc_eq)
qed (use assms(2) in \<open>auto simp: ga_open_def split: option.splits\<close>)

lemma openings_frame:
  "ga_generation w' = ga_generation w \<Longrightarrow> ga_opener w' = ga_opener w \<Longrightarrow> ga_opened w' = ga_opened w \<Longrightarrow>
   openings_ok w' = openings_ok w"
  by (simp add: openings_ok_def)

lemma gate_step_inv:
  assumes "gate_step n w w'" "openings_ok w" "\<forall>t. worker_ok w t"
  shows "openings_ok w' \<and> (\<forall>t. worker_ok w' t)"
  using assms(1)
proof cases
  case (g_open ts)
  note s = openings_step [OF assms(2) g_open(2)]
  have "worker_ok w' t" for t
    using assms(3) [rule_format, of t] s(2-) by (simp add: worker_ok_def sees_work_def)
  with s(1) show ?thesis by blast
next
  case (g_test t ts)
  obtain g V where l: "atomic_load Acquire Generation ts (ga_generation w) (ga_view w t) = Some (g, V)"
    using g_test(3) by (auto simp: ga_test_def split: option.splits)
  have v: "sees_work (ga_opened w) (ga_view w t)" "ga_passed w t \<le> seen (ga_view w t) Generation"
      "ga_seen w t = of_nat (ga_passed w t)"
    using assms(3) by (simp_all add: worker_ok_def)
  note r = gate_load [OF assms(2) v(1) l]
  have less: "ga_passed w t < ts" if "g \<noteq> ga_seen w t" using that r(1,3) v(2,3) by (cases "ga_passed w t = ts") auto
  show ?thesis
  proof (cases "g = ga_seen w t")
    case True
    then have "w' = w\<lparr>ga_view := (ga_view w)(t := V), ga_pc := (ga_pc w)(t := In_wait)\<rparr>"
      using g_test(3) l by (simp add: ga_test_def)
    moreover have "ga_passed w t \<le> seen V Generation" using r(3,4) v(2) by simp
    ultimately show ?thesis using assms(2,3) r(2) openings_frame [of w' w] by (auto simp: worker_ok_def)
  next
    case False
    then have "w' = w\<lparr>ga_view := (ga_view w)(t := V), ga_pc := (ga_pc w)(t := At_work),
        ga_seen := (ga_seen w)(t := ga_seen w t + 1), ga_passed := (ga_passed w)(t := ga_passed w t + 1)\<rparr>"
      using g_test(3) l by (simp add: ga_test_def)
    moreover have "Suc (ga_passed w t) \<le> seen V Generation" using r(4) less [OF False] by simp
    ultimately show ?thesis
      using assms(2,3) r(2) openings_frame [of w' w] by (auto simp: worker_ok_def)
  qed
next
  case (g_compare t ts)
  obtain g V where l: "atomic_load Acquire Generation ts (ga_generation w) (ga_view w t) = Some (g, V)"
    using g_compare(3) by (auto simp: ga_compare_def split: option.splits)
  have "sees_work (ga_opened w) (ga_view w t)" using assms(3) by (simp add: worker_ok_def)
  note r = gate_load [OF assms(2) this l]
  have "w' = w\<lparr>ga_view := (ga_view w)(t := V), ga_pc := (ga_pc w)(t := if g = ga_seen w t then In_wait else Testing)\<rparr>"
    using g_compare(3) l by (simp add: ga_compare_def)
  moreover have "ga_passed w t \<le> seen V Generation"
    using r(3,4) assms(3) [rule_format, of t] by (simp add: worker_ok_def)
  ultimately show ?thesis using assms(2,3) r(2) openings_frame [of w' w] by (auto simp: worker_ok_def)
next
  case (g_sleep t)
  then have "ga_seen w t = of_nat (ga_opened w)" using gate_newest [OF assms(2)] by simp
  then have "worker_ok w' u" for u
    using assms(3) [rule_format, of u] g_sleep(1) by (cases "u = t") (auto simp: ga_move_def worker_ok_def)
  then show ?thesis using assms(2) g_sleep(1) openings_frame [of w' w] by (simp add: ga_move_def)
qed (use assms(2,3) in \<open>auto simp: ga_move_def ga_notify_def openings_ok_def worker_ok_def\<close>)

lemma gate_reach_inv: "gate_reach n w \<Longrightarrow> openings_ok w \<and> (\<forall>t. worker_ok w t)"
proof (induction rule: gate_reach.induct)
  case gate_reach_init
  show ?case
    by (simp add: openings_ok_def worker_ok_def sees_work_def gate_init_def init_location_def)
qed (blast dest: gate_step_inv)

section \<open>The gate keeps its promise\<close>

text \<open>A load of the newest opening is always possible.\<close>

lemma gate_load_newest:
  assumes "openings_ok w" "sees_work (ga_opened w) V"
  shows "\<exists>W. atomic_load Acquire Generation (ga_opened w) (ga_generation w) V = Some (of_nat (ga_opened w), W)"
  using assms by (fastforce simp: openings_ok_def sees_work_def atomic_load_Some)

lemma words_differ: "a < b \<Longrightarrow> b < 2 ^ 64 \<Longrightarrow> (of_nat b :: u64) \<noteq> of_nat a"
  by (simp add: word_of_nat_eq_iff take_bit_nat_eq_self)

text \<open>
  (C13) The gate of an interleaved run lets a worker through once for each opening, hands over what
  the main thread did before, and loses no wake-up. Whatever old generations the loads return and
  however often a sleeping worker wakes for no reason: a worker has passed at most as often as the
  gate was opened, and after its \<open>k\<close>-th passage it sees everything the main thread did before the \<open>k\<close>-th
  opening. While openings are left for it (and fewer than \<open>2 ^ 64\<close> were made), it never sleeps
  unless the notification is still to come, and it can pass: at once from the loop condition, and
  from inside \<open>wait\<close> by returning to it.
\<close>

theorem gate_hands_over:
  assumes "gate_reach n w" "t < n"
  shows "ga_passed w t \<le> ga_opened w \<and> ga_passed w t \<le> seen_work (ga_view w t) 0
    \<and> (ga_passed w t < ga_opened w \<and> ga_opened w < 2 ^ 64 \<longrightarrow>
        (ga_pc w t = Asleep \<longrightarrow> ga_notifying w)
      \<and> (ga_pc w t = Testing \<longrightarrow> (\<exists>w'. gate_step n w w' \<and> ga_pc w' t = At_work \<and> ga_passed w' t = ga_passed w t + 1))
      \<and> (ga_pc w t = In_wait \<longrightarrow> (\<exists>w'. gate_step n w w' \<and> ga_pc w' t = Testing)))"
proof (intro conjI impI)
  have inv: "openings_ok w" "worker_ok w t" using gate_reach_inv [OF assms(1)] by simp_all
  then have s: "sees_work (ga_opened w) (ga_view w t)" by (simp add: worker_ok_def)
  show "ga_passed w t \<le> ga_opened w" "ga_passed w t \<le> seen_work (ga_view w t) 0"
    using inv(2) by (auto simp: worker_ok_def sees_work_def)
  assume left: "ga_passed w t < ga_opened w \<and> ga_opened w < 2 ^ 64"
  then have new: "(of_nat (ga_opened w) :: u64) \<noteq> ga_seen w t"
    using words_differ [of "ga_passed w t" "ga_opened w"] inv(2) by (simp add: worker_ok_def)
  obtain V where V: "atomic_load Acquire Generation (ga_opened w) (ga_generation w) (ga_view w t) = Some (of_nat (ga_opened w), V)"
    using gate_load_newest [OF inv(1) s] by blast
  show "ga_notifying w" if "ga_pc w t = Asleep" using that new inv(2) by (simp add: worker_ok_def)
  show "\<exists>w'. gate_step n w w' \<and> ga_pc w' t = At_work \<and> ga_passed w' t = ga_passed w t + 1" if "ga_pc w t = Testing"
  proof -
    obtain w' where w': "ga_test t (ga_opened w) w = Some w'" using V by (simp add: ga_test_def Let_def)
    then have "ga_pc w' t = At_work" "ga_passed w' t = ga_passed w t + 1" using V new by (auto simp: ga_test_def Let_def)
    then show ?thesis using g_test [OF assms(2) that w'] by blast
  qed
  show "\<exists>w'. gate_step n w w' \<and> ga_pc w' t = Testing" if "ga_pc w t = In_wait"
  proof -
    obtain w' where w': "ga_compare t (ga_opened w) w = Some w'" using V by (simp add: ga_compare_def)
    then have "ga_pc w' t = Testing" using V new by (auto simp: ga_compare_def)
    then show ?thesis using g_compare [OF assms(2) that w'] by blast
  qed
qed

text \<open>One worker that tests the gate, goes to sleep, and finds the gate opened behind its back.\<close>

definition gate_asleep :: ra_gate where
  "gate_asleep = the (ga_open 0 (ga_move 0 Asleep (the (ga_test 0 0 (ga_move 0 Testing gate_init)))))"

lemmas gate_eval = ga_open_def ga_test_def ga_move_def gate_init_def atomic_load_def atomic_rmw_def init_location_def
  newest_def put_def memory_defs own_work_def

lemma gate_reach_asleep: "gate_reach 1 gate_asleep"
proof -
  let ?a = "ga_move 0 Testing gate_init" and ?b = "the (ga_test 0 0 (ga_move 0 Testing gate_init))"
  have "gate_reach 1 ?a"
    by (rule gate_reach_step [OF gate_reach_init g_enter]) (simp_all add: gate_init_def)
  then have "gate_reach 1 ?b"
    by (rule gate_reach_step [OF _ g_test [where t = 0 and ts = 0]]) (simp_all add: gate_eval Let_def)
  then have "gate_reach 1 (ga_move 0 Asleep ?b)"
    by (rule gate_reach_step [OF _ g_sleep]) (simp_all add: gate_eval Let_def)
  then show ?thesis
    unfolding gate_asleep_def
    by (rule gate_reach_step [OF _ g_open [where ts = 0]]) (simp_all add: gate_eval Let_def)
qed

theorem gate_hands_over_witness: "ga_pc gate_asleep 0 = Asleep \<and> ga_opened gate_asleep = 1 \<and> ga_notifying gate_asleep"
proof -
  have s: "ga_pc gate_asleep 0 = Asleep" "ga_opened gate_asleep = 1" "ga_passed gate_asleep 0 = 0"
    by (simp_all add: gate_asleep_def gate_eval Let_def)
  then show ?thesis using gate_hands_over [OF gate_reach_asleep, of 0] by simp
qed

end
