(* ===== verification/Cpp_String.thy ===== *)
theory Cpp_String
  imports Prelude
begin

text \<open>
  The part of the C++ string library the engine uses, on character lists: searching
  (\<open>find\<close>, \<open>rfind\<close>, \<open>starts_with\<close>, with \<open>npos\<close> as \<open>None\<close>), \<open>substr\<close>, the number parsers
  \<open>std::from_chars\<close>, \<open>std::stol\<close> and stream extraction, decimal and hexadecimal
  formatting, and reading a stream line by line. Classification and case mapping are those
  of the "C" locale.
\<close>

section \<open>Searching\<close>

definition starts_with :: "string \<Rightarrow> string \<Rightarrow> bool" where
  "starts_with s p \<longleftrightarrow> take (length p) s = p"

fun find_pat :: "string \<Rightarrow> string \<Rightarrow> nat option" where
  "find_pat p [] = (if p = [] then Some 0 else None)"
| "find_pat p (c # s) = (if starts_with (c # s) p then Some 0 else map_option Suc (find_pat p s))"

definition find_str :: "string \<Rightarrow> string \<Rightarrow> nat \<Rightarrow> nat option" where
  "find_str p s pos = (if length s < pos then None else map_option ((+) pos) (find_pat p (drop pos s)))"

fun find_char :: "char \<Rightarrow> string \<Rightarrow> nat option" where
  "find_char c [] = None"
| "find_char c (x # s) = (if x = c then Some 0 else map_option Suc (find_char c s))"

definition rfind_char :: "char \<Rightarrow> string \<Rightarrow> nat option" where
  "rfind_char c s = map_option (\<lambda>i. length s - 1 - i) (find_char c (rev s))"

definition substr :: "string \<Rightarrow> nat \<Rightarrow> nat \<Rightarrow> string" where
  "substr s pos n = take n (drop pos s)"

lemma starts_with_append [simp]: "starts_with (p @ s) p"
  by (simp add: starts_with_def)

lemma find_char_None: "find_char c s = None \<longleftrightarrow> c \<notin> set s"
  by (induction s) auto

lemma find_char_append: "c \<notin> set s \<Longrightarrow> find_char c (s @ t) = map_option ((+) (length s)) (find_char c t)"
  by (induction s) (cases "find_char c t"; auto)+

lemma find_char_first [simp]: "c \<notin> set s \<Longrightarrow> find_char c (s @ c # t) = Some (length s)"
  by (simp add: find_char_append)

lemma find_char_Some:
  "find_char c s = Some i \<Longrightarrow> i < length s \<and> s ! i = c \<and> c \<notin> set (take i s)"
  by (induction s arbitrary: i) (auto split: if_splits)

lemma find_char_SomeE:
  assumes "find_char c s = Some i"
  obtains a b where "s = a @ c # b" "length a = i" "c \<notin> set a"
  using find_char_Some [OF assms] that [of "take i s" "drop (Suc i) s"]
  by (metis id_take_nth_drop length_take less_imp_le min.absorb2)

lemma rfind_char_last: "c \<notin> set t \<Longrightarrow> rfind_char c (s @ c # t) = Some (length s)"
  by (simp add: rfind_char_def find_char_append)

lemma rfind_char_None: "rfind_char c s = None \<longleftrightarrow> c \<notin> set s"
  by (simp add: rfind_char_def find_char_None)

lemma rfind_char_SomeE:
  assumes "rfind_char c s = Some i"
  obtains a b where "s = a @ c # b" "length a = i" "c \<notin> set b"
proof -
  obtain j where j: "find_char c (rev s) = Some j" "i = length s - 1 - j"
    using assms by (auto simp: rfind_char_def)
  then obtain a b where ab: "rev s = a @ c # b" "length a = j" "c \<notin> set a" by (elim find_char_SomeE)
  then have s: "s = rev b @ c # rev a" by (metis append.assoc append_Cons append_Nil rev.simps(2) rev_append rev_rev_ident)
  then show thesis using that [OF s] j ab by simp
qed

lemma find_pat_first:
  assumes "find_pat p s = Some i"
  shows "i + length p \<le> length s \<and> take (length p) (drop i s) = p"
  using assms by (induction p s arbitrary: i rule: find_pat.induct)
    (auto simp: starts_with_def split: if_splits dest!: arg_cong [where f = length])

text \<open>A separator is found at its first occurrence: its first character does not occur before.\<close>

lemma find_pat_append:
  assumes "c \<notin> set s"
  shows "find_pat (c # p) (s @ c # p @ t) = Some (length s)"
  using assms by (induction s) (auto simp: starts_with_def)

section \<open>Character classes\<close>

definition is_space :: "char \<Rightarrow> bool" where
  "is_space c \<longleftrightarrow> c \<in> {CHR '' '', CHR 0x09, CHR 0x0A, CHR 0x0B, CHR 0x0C, CHR 0x0D}"

definition tolower :: "char \<Rightarrow> char" where
  "tolower c = (let n = (of_char c :: nat) in if 65 \<le> n \<and> n \<le> 90 then char_of (n + 32) else c)"

definition lower :: "string \<Rightarrow> string" where
  "lower s = map tolower s"

text \<open>The value of a digit in base 10 or 16.\<close>

definition digit_val :: "nat \<Rightarrow> char \<Rightarrow> nat option" where
  "digit_val base c =
     (let n = (of_char c :: nat);
          v = (if 48 \<le> n \<and> n \<le> 57 then Some (n - 48)
               else if 97 \<le> n \<and> n \<le> 122 then Some (n - 87)
               else if 65 \<le> n \<and> n \<le> 90 then Some (n - 55) else None)
      in case v of Some d \<Rightarrow> if d < base then Some d else None | None \<Rightarrow> None)"

definition is_digit :: "nat \<Rightarrow> char \<Rightarrow> bool" where
  "is_digit base c \<longleftrightarrow> digit_val base c \<noteq> None"

definition digits_val :: "nat \<Rightarrow> string \<Rightarrow> nat" where
  "digits_val base s = foldl (\<lambda>v c. v * base + the (digit_val base c)) 0 s"

section \<open>Numbers\<close>

text \<open>
  \<open>std::from_chars\<close>: parses the longest run of digits. \<open>FC_ok v n\<close> is success with the
  value and the number of characters consumed; the target is left alone otherwise.
\<close>

datatype from_chars = FC_ok nat nat | FC_invalid | FC_range

definition from_chars_unsigned :: "nat \<Rightarrow> nat \<Rightarrow> string \<Rightarrow> from_chars" where
  "from_chars_unsigned base bound s =
     (let ds = takeWhile (is_digit base) s in
      if ds = [] then FC_invalid
      else if bound \<le> digits_val base ds then FC_range
      else FC_ok (digits_val base ds) (length ds))"

text \<open>For a signed target (base 10, \<open>w\<close> value bits) a minus sign may come first.\<close>

definition from_chars_signed :: "nat \<Rightarrow> string \<Rightarrow> int option" where
  "from_chars_signed w s =
     (case s of
        c # s' \<Rightarrow>
          if c = CHR ''-'' then
            (case from_chars_unsigned 10 (2 ^ w + 1) s' of FC_ok v _ \<Rightarrow> Some (- int v) | _ \<Rightarrow> None)
          else (case from_chars_unsigned 10 (2 ^ w) s of FC_ok v _ \<Rightarrow> Some (int v) | _ \<Rightarrow> None)
      | [] \<Rightarrow> None)"

text \<open>
  \<open>std::stol\<close> and \<open>std::stoi\<close> (63 and 31 value bits): white space, a sign, digits; the
  result is the value and the index of the first unused character, an error carries the name
  of the function.
\<close>

definition stol :: "nat \<Rightarrow> string \<Rightarrow> (int \<times> nat) result" where
  "stol w s =
     (let ws = takeWhile is_space s; r = drop (length ws) s;
          neg = (r \<noteq> [] \<and> hd r = CHR ''-'');
          sgn = (if r \<noteq> [] \<and> (hd r = CHR ''-'' \<or> hd r = CHR ''+'') then 1 else 0);
          ds = takeWhile (is_digit 10) (drop sgn r);
          v = (if neg then - int (digits_val 10 ds) else int (digits_val 10 ds))
      in if ds = [] then Inl (Invalid_argument (if w = 63 then ''stol'' else ''stoi''))
         else if v < - (2 ^ w) \<or> 2 ^ w \<le> v then Inl (Out_of_range (if w = 63 then ''stol'' else ''stoi''))
         else Inr (v, length ws + sgn + length ds))"

text \<open>
  \<open>stream >> x\<close> for an unsigned 64-bit target: a failed parse stores 0, an overflow the
  largest value; a minus sign negates modulo \<open>2 ^ 64\<close>.
\<close>

definition extract_u64 :: "string \<Rightarrow> u64" where
  "extract_u64 s =
     (let r = dropWhile is_space s;
          neg = (r \<noteq> [] \<and> hd r = CHR ''-'');
          sgn = (if r \<noteq> [] \<and> (hd r = CHR ''-'' \<or> hd r = CHR ''+'') then 1 else 0);
          ds = takeWhile (is_digit 10) (drop sgn r);
          v = digits_val 10 ds
      in if ds = [] then 0
         else if 2 ^ 64 \<le> v then - 1
         else if neg then - of_nat v else of_nat v)"

text \<open>\<open>while (stream >> word)\<close>.\<close>

function extract_words :: "string \<Rightarrow> string list" where
  "extract_words s =
     (let r = dropWhile is_space s in
      if r = [] then [] else takeWhile (Not \<circ> is_space) r # extract_words (dropWhile (Not \<circ> is_space) r))"
  by auto
termination
proof (relation "measure length", simp)
  fix s r :: string
  assume r: "r = dropWhile is_space s" "r \<noteq> []"
  then have "\<not> is_space (hd r)" by (metis hd_dropWhile)
  then have "length (dropWhile (Not \<circ> is_space) r) < length r"
    using r(2) by (cases r) (auto simp: le_imp_less_Suc length_dropWhile_le)
  moreover have "length r \<le> length s" using r(1) by (simp add: length_dropWhile_le)
  ultimately show "(dropWhile (Not \<circ> is_space) r, s) \<in> measure length" by simp
qed

declare extract_words.simps [simp del]

text \<open>Formatting an unsigned number in base 10 or 16.\<close>

definition digit_char :: "nat \<Rightarrow> char" where
  "digit_char d = (if d < 10 then char_of (48 + d) else char_of (87 + d))"

fun format_nat :: "nat \<Rightarrow> nat \<Rightarrow> string" where
  "format_nat base n =
     (if base < 2 \<or> n < base then [digit_char n]
      else format_nat base (n div base) @ [digit_char (n mod base)])"

declare format_nat.simps [simp del]

definition to_dec :: "nat \<Rightarrow> string" where
  "to_dec n = format_nat 10 n"

definition int_to_dec :: "int \<Rightarrow> string" where
  "int_to_dec i = (if i < 0 then CHR ''-'' # to_dec (nat (- i)) else to_dec (nat i))"

definition quoted :: "string \<Rightarrow> string" where
  "quoted s = CHR 0x27 # s @ [CHR 0x27]"

lemma digit_val_char: "d < base \<Longrightarrow> base \<le> 16 \<Longrightarrow> digit_val base (digit_char d) = Some d"
proof -
  assume d: "d < base" "base \<le> 16"
  then have "d < 16" by simp
  then have "d \<in> {0, 1, 2, 3, 4, 5, 6, 7, 8, 9, 10, 11, 12, 13, 14, 15}"
    by (simp add: numeral_eq_Suc less_Suc_eq)
  then show ?thesis using d by (auto simp: digit_val_def digit_char_def of_char_of)
qed

lemma format_nat_digits:
  assumes "2 \<le> base" "base \<le> 16"
  shows "format_nat base n \<noteq> [] \<and> list_all (is_digit base) (format_nat base n)
    \<and> digits_val base (format_nat base n) = n"
proof (induction n rule: less_induct)
  case (less n)
  show ?case
  proof (cases "n < base")
    case True
    then show ?thesis
      using assms by (simp add: format_nat.simps [of base n] is_digit_def digits_val_def digit_val_char)
  next
    case False
    then have "n div base < n" using assms(1) by (intro div_less_dividend) auto
    note IH = less [OF this]
    have "digit_val base (digit_char (n mod base)) = Some (n mod base)"
      using assms by (intro digit_val_char) auto
    then show ?thesis
      using IH False assms by (simp add: format_nat.simps [of base n] is_digit_def digits_val_def)
  qed
qed

lemmas dec_digits = format_nat_digits [of 10, folded to_dec_def, simplified]

lemma list_all_takeWhile: "list_all P s \<Longrightarrow> (t = [] \<or> \<not> P (hd t)) \<Longrightarrow> takeWhile P (s @ t) = s"
  by (induction s) (auto simp: takeWhile_eq_Nil_iff)

text \<open>Parsing what was formatted, followed by something that is not a digit.\<close>

lemma from_chars_format:
  assumes "2 \<le> base" "base \<le> 16" "n < bound" "t = [] \<or> \<not> is_digit base (hd t)"
  shows "from_chars_unsigned base bound (format_nat base n @ t) = FC_ok n (length (format_nat base n))"
  using format_nat_digits [OF assms(1,2), of n] assms(3,4)
  by (simp add: from_chars_unsigned_def list_all_takeWhile Let_def)

lemma from_chars_ok:
  "from_chars_unsigned base bound s = FC_ok v n \<Longrightarrow> v < bound \<and> 0 < n \<and> n \<le> length s"
  by (auto simp: from_chars_unsigned_def Let_def length_takeWhile_le split: if_splits)

lemma dec_no_char: "\<not> is_digit 10 c \<Longrightarrow> c \<notin> set (to_dec n)"
  using dec_digits [of n] by (auto simp: list_all_iff)

section \<open>Lines\<close>

text \<open>
  \<open>while (std::getline(in, line))\<close> over a stream with the content \<open>s\<close>: a final line
  without a newline counts, an empty rest after the last newline does not.
\<close>

function getlines :: "string \<Rightarrow> string list" where
  "getlines s =
     (if s = [] then []
      else takeWhile (\<lambda>c. c \<noteq> CHR 0x0A) s # getlines (drop 1 (dropWhile (\<lambda>c. c \<noteq> CHR 0x0A) s)))"
  by auto
termination
proof (relation "measure length", simp)
  fix s :: string
  assume "s \<noteq> []"
  then have "length (dropWhile (\<lambda>c. c \<noteq> CHR 0x0A) s) - 1 < length s"
    using length_dropWhile_le [of "\<lambda>c. c \<noteq> CHR 0x0A" s] by (cases s) (auto simp: less_Suc_eq_le)
  then show "(drop 1 (dropWhile (\<lambda>c. c \<noteq> CHR 0x0A) s), s) \<in> measure length" by simp
qed

declare getlines.simps [simp del]

lemma getlines_Nil [simp]: "getlines [] = []"
  by (simp add: getlines.simps)

lemma getlines_Cons:
  "CHR 0x0A \<notin> set l \<Longrightarrow> getlines (l @ CHR 0x0A # s) = l # getlines s"
proof -
  assume l: "CHR 0x0A \<notin> set l"
  then have "takeWhile (\<lambda>c. c \<noteq> CHR 0x0A) (l @ CHR 0x0A # s) = l"
    "dropWhile (\<lambda>c. c \<noteq> CHR 0x0A) (l @ CHR 0x0A # s) = CHR 0x0A # s"
    by (induction l) auto
  then show ?thesis by (subst getlines.simps) simp
qed

end
