(* ===== verification/Http.thy ===== *)
theory Http
  imports Cpp_String
begin

text \<open>
  \<^verbatim>\<open>engine/src/http.cpp\<close>: the HTTP client that posts a run envelope. The kernel and the
  peer are arguments: what each call of \<open>poll\<close>, \<open>send\<close>, \<open>recv\<close> and \<open>connect\<close> returns, as
  finite lists of outcomes in call order; a client that is still waiting when the list ends
  is \<open>None\<close>. Error texts of the C library (\<open>strerror\<close>) come with the outcomes.
\<close>

section \<open>URLs\<close>

record Url =
  u_host :: string
  u_port :: u16
  u_path :: string

definition default_url :: Url where
  "default_url = \<lparr>u_host = [], u_port = 80, u_path = ''/''\<rparr>"

text \<open>The optional port of the authority: the rest of the authority and the port.\<close>

definition parse_port :: "string \<Rightarrow> string \<Rightarrow> (string \<times> u16) result" where
  "parse_port url authority =
     (case rfind_char (CHR '':'') authority of
        Some colon \<Rightarrow>
          if find_char (CHR '']'') (drop colon authority) = None then
            let port_str = drop (colon + 1) authority in
            (case from_chars_unsigned 10 (2 ^ 32) port_str of
               FC_ok port n \<Rightarrow>
                 if n \<noteq> length port_str \<or> port = 0 \<or> 65535 < port
                 then Inl (Runtime_error (''bad port in URL: '' @ url))
                 else Inr (take colon authority, of_nat port)
             | _ \<Rightarrow> Inl (Runtime_error (''bad port in URL: '' @ url)))
          else Inr (authority, 80)
      | None \<Rightarrow> Inr (authority, 80))"

text \<open>The brackets of an IPv6 literal.\<close>

definition strip_brackets :: "string \<Rightarrow> string" where
  "strip_brackets a =
     (if 2 \<le> length a \<and> hd a = CHR ''['' \<and> last a = CHR '']'' then take (length a - 2) (drop 1 a) else a)"

text \<open>Authority and path of what follows the scheme.\<close>

definition split_path :: "string \<Rightarrow> string \<times> string" where
  "split_path rest =
     (case find_char (CHR ''/'') rest of
        None \<Rightarrow> (rest, u_path default_url)
      | Some slash \<Rightarrow> (take slash rest, drop slash rest))"

definition parse_url :: "string \<Rightarrow> Url result" where
  "parse_url url =
     (if starts_with url ''https://'' then
        Inl (Runtime_error (''https is not supported by the engine's HTTP client: '' @ url))
      else if \<not> starts_with url ''http://'' then Inl (Runtime_error (''not an http:// URL: '' @ url))
      else
        let (authority, path) = split_path (drop 7 url)
        in if authority = [] then Inl (Runtime_error (''URL has no host: '' @ url))
           else rbind (parse_port url authority) (\<lambda>(authority, port).
             let host = strip_brackets authority in
             if host = [] then Inl (Runtime_error (''URL has no host: '' @ url))
             else Inr \<lparr>u_host = host, u_port = port, u_path = path\<rparr>))"

section \<open>Chunked bodies\<close>

definition crlf :: string where
  "crlf = [CHR 0x0D, CHR 0x0A]"

text \<open>\<open>pos\<close> and \<open>len\<close> are \<open>std::size_t\<close>: \<open>pos += len + 2\<close> wraps.\<close>

partial_function (option) decode_loop :: "string \<Rightarrow> string \<Rightarrow> u64 \<Rightarrow> string option" where
  "decode_loop body out pos =
     (if unat pos < length body then
        (case find_str crlf body (unat pos) of
           None \<Rightarrow> Some out
         | Some eol \<Rightarrow>
             (case from_chars_unsigned 16 (2 ^ 64) (take (eol - unat pos) (drop (unat pos) body)) of
                FC_ok len n \<Rightarrow>
                  if len = 0 then Some out
                  else decode_loop body
                    (out @ take (min len (length body - (eol + 2))) (drop (eol + 2) body))
                    (of_nat (eol + 2) + (of_nat len + 2))
              | FC_invalid \<Rightarrow> Some out
              | FC_range \<Rightarrow> Some out))
      else Some out)"

definition decode_chunked :: "string \<Rightarrow> string option" where
  "decode_chunked body = decode_loop body [] 0"

section \<open>Sockets\<close>

text \<open>The descriptor owner: a value is a descriptor or -1; the operations list what they close.\<close>

definition fd_destroy :: "int \<Rightarrow> int list" where
  "fd_destroy fd = (if 0 \<le> fd then [fd] else [])"

definition fd_release :: "int \<Rightarrow> int \<times> int" where
  "fd_release fd = (fd, -1)"

text \<open>Move construction and move assignment: the new owner, the emptied source, what is closed.\<close>

definition fd_move :: "int \<Rightarrow> int \<times> int" where
  "fd_move other = fd_release other"

definition fd_move_assign :: "bool \<Rightarrow> int \<Rightarrow> int \<Rightarrow> int \<times> int \<times> int list" where
  "fd_move_assign same self other =
     (if \<not> same then let (fd, other') = fd_release other in (fd, other', fd_destroy self)
      else (self, other, []))"

datatype poll_result = Poll_ready | Poll_timeout | Poll_failed bool string

datatype send_result = Sent nat | Send_retry | Send_failed string

datatype recv_result = Received string | Closed | Recv_retry | Recv_failed string

datatype connect_result = Connected | Connect_failed string | In_progress poll_result "string + string option"

text \<open>
  \<open>In_progress p e\<close>: the pending connection's \<open>poll\<close> returned \<open>p\<close>, and then \<open>getsockopt\<close>
  failed (\<open>Inl\<close>) or reported the pending error, if any (\<open>Inr\<close>).
\<close>

fun connect_with_timeout :: "int \<Rightarrow> connect_result \<Rightarrow> string" where
  "connect_with_timeout timeout_ms Connected = []"
| "connect_with_timeout timeout_ms (Connect_failed e) = ''connect: '' @ e"
| "connect_with_timeout timeout_ms (In_progress Poll_timeout x) =
     ''connect: timed out after '' @ int_to_dec timeout_ms @ '' ms''"
| "connect_with_timeout timeout_ms (In_progress (Poll_failed eintr e) x) = ''poll: '' @ e"
| "connect_with_timeout timeout_ms (In_progress Poll_ready (Inl e)) = ''getsockopt: '' @ e"
| "connect_with_timeout timeout_ms (In_progress Poll_ready (Inr (Some e))) = ''connect: '' @ e"
| "connect_with_timeout timeout_ms (In_progress Poll_ready (Inr None)) = []"

text \<open>
  One element of the list is one iteration: the outcome of \<open>poll\<close>, and that of \<open>send\<close> if
  \<open>poll\<close> let it get there. The result is the error text (empty on success) and the bytes
  the kernel accepted.
\<close>

fun send_all :: "int \<Rightarrow> string \<Rightarrow> nat \<Rightarrow> string \<Rightarrow> (poll_result \<times> send_result) list \<Rightarrow> (string \<times> string) option"
where
  "send_all timeout_ms data sent wire [] = (if sent < length data then None else Some ([], wire))"
| "send_all timeout_ms data sent wire ((p, s) # io) =
     (if \<not> sent < length data then Some ([], wire)
      else case p of
        Poll_timeout \<Rightarrow> Some (''send: timed out after '' @ int_to_dec timeout_ms @ '' ms'', wire)
      | Poll_failed eintr e \<Rightarrow>
          if eintr then send_all timeout_ms data sent wire io else Some (''poll: '' @ e, wire)
      | Poll_ready \<Rightarrow>
          (case s of
             Send_retry \<Rightarrow> send_all timeout_ms data sent wire io
           | Send_failed e \<Rightarrow> Some (''send: '' @ e, wire)
           | Sent n \<Rightarrow> send_all timeout_ms data (sent + n) (wire @ take n (drop sent data)) io))"

fun recv_all :: "int \<Rightarrow> string \<Rightarrow> (poll_result \<times> recv_result) list \<Rightarrow> (string \<times> string) option" where
  "recv_all timeout_ms out [] = None"
| "recv_all timeout_ms out ((p, r) # io) =
     (case p of
        Poll_timeout \<Rightarrow> Some (''read: timed out after '' @ int_to_dec timeout_ms @ '' ms'', out)
      | Poll_failed eintr e \<Rightarrow>
          if eintr then recv_all timeout_ms out io else Some (''poll: '' @ e, out)
      | Poll_ready \<Rightarrow>
          (case r of
             Closed \<Rightarrow> Some ([], out)
           | Recv_retry \<Rightarrow> recv_all timeout_ms out io
           | Recv_failed e \<Rightarrow> Some (''read: '' @ e, out)
           | Received buf \<Rightarrow> recv_all timeout_ms (out @ buf) io))"

section \<open>Request and response\<close>

definition host_header :: "Url \<Rightarrow> string" where
  "host_header url =
     (if find_char (CHR '':'') (u_host url) \<noteq> None
      then ''['' @ u_host url @ '']:'' @ to_dec (unat (u_port url))
      else u_host url @ '':'' @ to_dec (unat (u_port url)))"

definition make_request :: "string \<Rightarrow> Url \<Rightarrow> string \<Rightarrow> string" where
  "make_request version url body =
     ''POST '' @ u_path url @ '' HTTP/1.1'' @ crlf @
     ''Host: '' @ host_header url @ crlf @
     ''User-Agent: bench/'' @ version @ crlf @
     ''Content-Type: application/json'' @ crlf @
     ''Content-Length: '' @ to_dec (length body) @ crlf @
     ''Connection: close'' @ crlf @ crlf @ body"

text \<open>
  The response parser. The status code is read from the character range between the first
  space of the response and the end of the status line; when the space comes later the
  range is reversed and the call of \<open>from_chars\<close> has no defined behaviour (\<open>Undefined\<close>).
  \<open>Hangs\<close> is a chunked body whose decoding does not end.
\<close>

datatype reply = Malformed string | Reply int string | Undefined | Hangs

definition parse_status :: "string \<Rightarrow> nat \<Rightarrow> int option" where
  "parse_status raw line_end =
     (case find_char (CHR '' '') raw of
        None \<Rightarrow> Some 0
      | Some sp \<Rightarrow>
          if line_end < sp + 1 then None
          else (case from_chars_signed 31 (take (line_end - (sp + 1)) (drop (sp + 1) raw)) of
                  Some v \<Rightarrow> Some v
                | None \<Rightarrow> Some 0))"

text \<open>\<open>headers_end - line_end - 2\<close> is a \<open>std::size_t\<close> and wraps when there is no header.\<close>

definition response_headers :: "string \<Rightarrow> nat \<Rightarrow> nat option \<Rightarrow> string" where
  "response_headers raw line_end headers_end =
     lower (case headers_end of
       None \<Rightarrow> drop (line_end + 2) raw
     | Some h \<Rightarrow> substr raw (line_end + 2) (unat (of_nat h - of_nat line_end - 2 :: u64)))"

definition parse_response :: "string \<Rightarrow> reply" where
  "parse_response raw =
     (if raw = [] then Malformed ''empty response''
      else case find_str crlf raw 0 of
        None \<Rightarrow> Malformed ''malformed response: no status line''
      | Some line_end \<Rightarrow>
          if \<not> starts_with raw ''HTTP/1.'' then Malformed ''malformed response: no status line''
          else (case parse_status raw line_end of
            None \<Rightarrow> Undefined
          | Some status \<Rightarrow>
              if status = 0 then Malformed ''malformed response: no status code''
              else
                let headers_end = find_str (crlf @ crlf) raw 0;
                    headers = response_headers raw line_end headers_end;
                    payload = (case headers_end of None \<Rightarrow> [] | Some h \<Rightarrow> drop (h + 4) raw)
                in if find_str ''transfer-encoding: chunked'' headers 0 \<noteq> None
                   then (case decode_chunked payload of Some b \<Rightarrow> Reply status b | None \<Rightarrow> Hangs)
                   else Reply status payload))"

section \<open>Posting\<close>

record HttpResponse =
  hr_status :: int
  hr_body :: string
  hr_error :: string

definition response_ok :: "HttpResponse \<Rightarrow> bool" where
  "response_ok r \<longleftrightarrow> hr_error r = [] \<and> 200 \<le> hr_status r \<and> hr_status r < 300"

text \<open>What happens on one resolved address.\<close>

record address =
  ad_socket :: "string option"   \<comment> \<open>the error of \<open>socket\<close>\<close>
  ad_connect :: connect_result
  ad_send :: "(poll_result \<times> send_result) list"
  ad_recv :: "(poll_result \<times> recv_result) list"

datatype post_outcome = Done HttpResponse | Waiting_for_peer | Undefined_behaviour

fun post_addresses :: "int \<Rightarrow> string \<Rightarrow> string \<Rightarrow> address list \<Rightarrow> post_outcome" where
  "post_addresses timeout_ms request last_error [] = Done \<lparr>hr_status = 0, hr_body = [], hr_error = last_error\<rparr>"
| "post_addresses timeout_ms request last_error (ai # rest) =
     (case ad_socket ai of
        Some e \<Rightarrow> post_addresses timeout_ms request (''socket: '' @ e) rest
      | None \<Rightarrow>
          let e = connect_with_timeout timeout_ms (ad_connect ai) in
          if e \<noteq> [] then post_addresses timeout_ms request e rest
          else (case send_all timeout_ms request 0 [] (ad_send ai) of
            None \<Rightarrow> Waiting_for_peer
          | Some (e, wire) \<Rightarrow>
              if e \<noteq> [] then post_addresses timeout_ms request e rest
              else (case recv_all timeout_ms [] (ad_recv ai) of
                None \<Rightarrow> Waiting_for_peer
              | Some (e, raw) \<Rightarrow>
                  if e \<noteq> [] then post_addresses timeout_ms request e rest
                  else (case parse_response raw of
                    Malformed e \<Rightarrow> post_addresses timeout_ms request e rest
                  | Reply status payload \<Rightarrow> Done \<lparr>hr_status = status, hr_body = payload, hr_error = []\<rparr>
                  | Undefined \<Rightarrow> Undefined_behaviour
                  | Hangs \<Rightarrow> Waiting_for_peer))))"

text \<open>\<open>gai\<close> is the outcome of \<open>getaddrinfo\<close>: an error text or the addresses.\<close>

definition post_json :: "string \<Rightarrow> Url \<Rightarrow> string \<Rightarrow> int \<Rightarrow> string + address list \<Rightarrow> post_outcome" where
  "post_json version url body timeout_ms gai =
     (case gai of
        Inl e \<Rightarrow> Done \<lparr>hr_status = 0, hr_body = [], hr_error = ''resolve '' @ u_host url @ '': '' @ e\<rparr>
      | Inr addrs \<Rightarrow>
          post_addresses timeout_ms (make_request version url body) ''no address to connect to'' addrs)"

section \<open>URLs: round trip\<close>

lemma colon_not_digit [simp]: "\<not> is_digit 10 (CHR '':'')" "\<not> is_digit 10 (CHR ''/'')" "\<not> is_digit 10 (CHR '']'')"
  by (simp_all add: is_digit_def digit_val_def)

lemma parse_port_ok:
  assumes "0 < p" "p \<le> 65535"
  shows "parse_port url (a @ '':'' @ to_dec p) = Inr (a, of_nat p)"
proof -
  have "rfind_char (CHR '':'') (a @ '':'' @ to_dec p) = Some (length a)"
    by (simp add: rfind_char_last dec_no_char)
  moreover have "find_char (CHR '']'') ('':'' @ to_dec p) = None"
    by (simp add: find_char_None dec_no_char)
  moreover have "from_chars_unsigned 10 (2 ^ 32) (to_dec p) = FC_ok p (length (to_dec p))"
    using from_chars_format [of 10 p "2 ^ 32" "[]"] assms by (simp add: to_dec_def)
  ultimately show ?thesis using assms by (simp add: parse_port_def)
qed

lemma parse_port_port: "parse_port url a = Inr (a', p) \<Longrightarrow> 0 < unat p \<and> unat p \<le> 65535"
  by (auto simp: parse_port_def Let_def unat_of_nat take_bit_nat_eq_self split: option.splits if_splits from_chars.splits)

lemma parse_port_sub: "parse_port url a = Inr (a', p) \<Longrightarrow> set a' \<subseteq> set a"
  by (auto simp: parse_port_def Let_def split: option.splits if_splits from_chars.splits dest: in_set_takeD)

lemma strip_brackets_sub: "set (strip_brackets a) \<subseteq> set a"
  by (auto simp: strip_brackets_def dest!: in_set_takeD in_set_dropD)

lemma strip_brackets_brackets [simp]: "strip_brackets (CHR ''['' # h @ '']'') = h"
  by (simp add: strip_brackets_def)

lemma split_path:
  "split_path r = (a, p) \<Longrightarrow> CHR ''/'' \<notin> set a \<and> p \<noteq> [] \<and> hd p = CHR ''/''"
  by (auto simp: split_path_def default_url_def find_char_None split: option.splits elim!: find_char_SomeE)

lemma parse_url_Inr:
  assumes "parse_url url = Inr u"
  shows "u_host u \<noteq> []" and "CHR ''/'' \<notin> set (u_host u)" and "0 < unat (u_port u)"
    and "unat (u_port u) \<le> 65535" and "hd (u_path u) = CHR ''/''" and "u_path u \<noteq> []"
proof -
  obtain a path a' p where a: "parse_port url a = Inr (a', p)" "CHR ''/'' \<notin> set a"
      "u = \<lparr>u_host = strip_brackets a', u_port = p, u_path = path\<rparr>" "strip_brackets a' \<noteq> []"
      "path \<noteq> []" "hd path = CHR ''/''"
    using assms split_path [of "drop 7 url"]
    by (auto simp: parse_url_def rbind_eq_Inr Let_def split: if_splits prod.splits)
  then show "u_host u \<noteq> []" "hd (u_path u) = CHR ''/''" "u_path u \<noteq> []" by auto
  show "CHR ''/'' \<notin> set (u_host u)" using a(2,3) parse_port_sub [OF a(1)] strip_brackets_sub by fastforce
  show "0 < unat (u_port u)" "unat (u_port u) \<le> 65535" using a(3) parse_port_port [OF a(1)] by auto
qed

lemma parse_url_authority:
  assumes "CHR ''/'' \<notin> set a" "a \<noteq> []" "hd path = CHR ''/''" "path \<noteq> []"
    "parse_port (''http://'' @ a @ path) a = Inr (a', p)" "strip_brackets a' \<noteq> []"
  shows "parse_url (''http://'' @ a @ path) = Inr \<lparr>u_host = strip_brackets a', u_port = p, u_path = path\<rparr>"
proof -
  obtain t where t: "path = CHR ''/'' # t" using assms(3,4) by (cases path) auto
  then have "find_char (CHR ''/'') (a @ path) = Some (length a)" using assms(1) by simp
  then show ?thesis using assms t by (simp add: parse_url_def split_path_def starts_with_def)
qed

text \<open>
  (C34) A URL that is accepted is usable and survives a round trip: the host is not empty and
  holds no slash, the port is between 1 and 65535, the path starts with a slash, and the URL
  built from the \<open>Host\<close> header the client sends (with the brackets of an IPv6 literal put
  back) and the path parses to the same host, port and path, unless the host itself is a
  bracketed text without a colon.
\<close>

theorem parse_url_roundtrip:
  assumes "parse_url url = Inr u"
  shows "u_host u \<noteq> [] \<and> CHR ''/'' \<notin> set (u_host u) \<and> 0 < unat (u_port u) \<and> unat (u_port u) \<le> 65535
    \<and> hd (u_path u) = CHR ''/''
    \<and> (CHR '':'' \<in> set (u_host u) \<or> strip_brackets (u_host u) = u_host u \<longrightarrow>
        parse_url (''http://'' @ host_header u @ u_path u) = Inr u)"
proof -
  note ok = parse_url_Inr [OF assms]
  let ?port = "to_dec (unat (u_port u))"
  have "parse_url (''http://'' @ host_header u @ u_path u) = Inr u"
    if h: "CHR '':'' \<in> set (u_host u) \<or> strip_brackets (u_host u) = u_host u"
  proof (cases "CHR '':'' \<in> set (u_host u)")
    case True
    then have hh: "host_header u = (''['' @ u_host u @ '']'') @ '':'' @ ?port"
      by (auto simp: host_header_def find_char_None)
    have "parse_url (''http://'' @ host_header u @ u_path u) =
        Inr \<lparr>u_host = strip_brackets (''['' @ u_host u @ '']''), u_port = of_nat (unat (u_port u)), u_path = u_path u\<rparr>"
    proof (rule parse_url_authority)
      show "parse_port (''http://'' @ host_header u @ u_path u) (host_header u) =
          Inr (''['' @ u_host u @ '']'', of_nat (unat (u_port u)))"
        unfolding hh by (rule parse_port_ok) (rule ok)+
    qed (use ok in \<open>auto simp: hh dec_no_char\<close>)
    then show ?thesis by simp
  next
    case False
    then have hh: "host_header u = u_host u @ '':'' @ ?port" and s: "strip_brackets (u_host u) = u_host u"
      using h by (auto simp: host_header_def find_char_None)
    have "parse_url (''http://'' @ host_header u @ u_path u) =
        Inr \<lparr>u_host = strip_brackets (u_host u), u_port = of_nat (unat (u_port u)), u_path = u_path u\<rparr>"
    proof (rule parse_url_authority)
      show "parse_port (''http://'' @ host_header u @ u_path u) (host_header u) =
          Inr (u_host u, of_nat (unat (u_port u)))"
        unfolding hh by (rule parse_port_ok) (rule ok)+
    qed (use ok s in \<open>auto simp: hh dec_no_char\<close>)
    then show ?thesis by (simp add: s)
  qed
  then show ?thesis using ok by blast
qed

theorem parse_url_roundtrip_witness:
  "parse_url ''http://[::1]:8080/api'' = Inr \<lparr>u_host = ''::1'', u_port = 8080, u_path = ''/api''\<rparr>
   \<and> parse_url (''http://'' @ host_header \<lparr>u_host = ''::1'', u_port = 8080, u_path = ''/api''\<rparr> @ ''/api'') =
     Inr \<lparr>u_host = ''::1'', u_port = 8080, u_path = ''/api''\<rparr>"
proof
  show p: "parse_url ''http://[::1]:8080/api'' = Inr \<lparr>u_host = ''::1'', u_port = 8080, u_path = ''/api''\<rparr>"
    by (simp add: parse_url_def parse_port_def split_path_def strip_brackets_def starts_with_def rfind_char_def
        from_chars_unsigned_def is_digit_def digit_val_def digits_val_def)
  show "parse_url (''http://'' @ host_header \<lparr>u_host = ''::1'', u_port = 8080, u_path = ''/api''\<rparr> @ ''/api'') =
     Inr \<lparr>u_host = ''::1'', u_port = 8080, u_path = ''/api''\<rparr>"
    using parse_url_roundtrip [OF p] by simp
qed

section \<open>Chunked bodies: round trip, termination, divergence\<close>

definition encode_chunk :: "string \<Rightarrow> string" where
  "encode_chunk c = format_nat 16 (length c) @ crlf @ c @ crlf"

definition encode_chunked :: "string list \<Rightarrow> string" where
  "encode_chunked cs = concat (map encode_chunk cs) @ ''0'' @ crlf @ crlf"

lemma cr_not_hex: "CHR 0x0D \<notin> set (format_nat 16 n)"
proof -
  have "\<not> is_digit 16 (CHR 0x0D)" by (simp add: is_digit_def digit_val_def)
  then show ?thesis using format_nat_digits [of 16 n] by (auto simp: list_all_iff)
qed

lemma find_crlf: "CHR 0x0D \<notin> set h \<Longrightarrow> find_str crlf (pre @ h @ crlf @ t) (length pre) = Some (length pre + length h)"
  using find_pat_append [of "CHR 0x0D" h "[CHR 0x0A]" t] by (simp add: find_str_def crlf_def)

lemma decode_header:
  assumes "length B < 2 ^ 64" "B = pre @ h @ crlf @ t" "h = format_nat 16 n" "n < 2 ^ 64"
  shows "decode_loop B out (of_nat (length pre)) =
    (if n = 0 then Some out else decode_loop B (out @ take n t) (of_nat (length (pre @ h @ crlf) + n + 2)))"
proof -
  have lt: "length pre < length B" by (simp add: assms(2) crlf_def)
  then have pos: "unat (of_nat (length pre) :: u64) = length pre" using assms(1) by (simp add: u64_of_nat)
  have f: "find_str crlf B (length pre) = Some (length pre + length h)"
    using cr_not_hex assms(2,3) by (simp add: find_crlf)
  have k: "take (length pre + length h - length pre) (drop (length pre) B) = h" by (simp add: assms(2))
  have c: "from_chars_unsigned 16 (2 ^ 64) h = FC_ok n (length h)"
    using from_chars_format [of 16 n "2 ^ 64" "[]"] assms(3,4) by simp
  have d: "drop (length pre + length h + 2) B = t" "length B - (length pre + length h + 2) = length t"
    by (simp_all add: assms(2) crlf_def)
  have w: "of_nat (length pre + length h + 2) + (of_nat n + 2) = (of_nat (length (pre @ h @ crlf) + n + 2) :: u64)"
    by (simp add: crlf_def)
  have "take (min n (length t)) t = take n t" by (simp add: min_def)
  then show ?thesis
    by (subst decode_loop.simps)
      (simp only: pos f c d w k lt if_True option.case from_chars.case)
qed

lemma decode_chunks:
  assumes "\<forall>c\<in>set cs. c \<noteq> []" "length (pre @ encode_chunked cs) < 2 ^ 64"
  shows "decode_loop (pre @ encode_chunked cs) out (of_nat (length pre)) = Some (out @ concat cs)"
  using assms
proof (induction cs arbitrary: pre out)
  case Nil
  have "''0'' = format_nat 16 0" by code_simp
  then show ?case
    using decode_header [of _ pre "''0''" crlf 0 out] Nil by (simp add: encode_chunked_def)
next
  case (Cons c cs)
  define t where "t = c @ crlf @ encode_chunked cs"
  let ?h = "format_nat 16 (length c)" and ?pre = "pre @ encode_chunk c"
  have body: "pre @ encode_chunked (c # cs) = pre @ ?h @ crlf @ t"
    "pre @ encode_chunked (c # cs) = ?pre @ encode_chunked cs"
    by (simp_all add: encode_chunked_def encode_chunk_def t_def)
  have len: "length c < 2 ^ 64" using Cons.prems(2) unfolding body(1) t_def by simp
  have "decode_loop (pre @ encode_chunked (c # cs)) out (of_nat (length pre)) =
      decode_loop (?pre @ encode_chunked cs) (out @ take (length c) t)
        (of_nat (length (pre @ ?h @ crlf) + length c + 2))"
    using decode_header [OF Cons.prems(2) body(1) refl len] Cons.prems(1) unfolding body(2) by simp
  also have "length (pre @ ?h @ crlf) + length c + 2 = length ?pre"
    by (simp add: encode_chunk_def crlf_def)
  also have "decode_loop (?pre @ encode_chunked cs) (out @ take (length c) t) (of_nat (length ?pre)) =
      Some ((out @ take (length c) t) @ concat cs)"
    using Cons.prems unfolding body(2) by (intro Cons.IH) simp_all
  finally show ?case by (simp add: t_def)
qed

text \<open>
  (C30) Decoding a chunked body gives back the chunks, whatever their content and however the
  body is split: decoding the chunked encoding of a list of non-empty chunks returns their
  concatenation.
\<close>

theorem decode_chunked_roundtrip:
  assumes "\<forall>c\<in>set cs. c \<noteq> []" "length (encode_chunked cs) < 2 ^ 64"
  shows "decode_chunked (encode_chunked cs) = Some (concat cs)"
  using decode_chunks [of cs "[]" "[]"] assms by (simp add: decode_chunked_def)

theorem decode_chunked_roundtrip_witness:
  "decode_chunked (encode_chunked [''Wiki'', ''pedia in chunks'']) = Some ''Wikipedia in chunks''"
proof -
  have "length (encode_chunked [''Wiki'', ''pedia in chunks'']) < 2 ^ 64"
    by (simp add: encode_chunked_def encode_chunk_def crlf_def format_nat.simps)
  then show ?thesis using decode_chunked_roundtrip [of "[''Wiki'', ''pedia in chunks'']"] by simp
qed

text \<open>
  The size of a chunk is read at full width and added to the position without a check. A
  peer that sends a size just below \<open>2 ^ 64\<close> makes the position wrap.
\<close>

definition wrapping_body :: string where
  "wrapping_body = ''ffffffffffffffec'' @ crlf"

text \<open>
  A chunked body of eighteen bytes on which the decoder never returns: its size field
  brings the position back to zero, so the loop reads the same header for ever.
\<close>

theorem decode_chunked_diverges: "decode_chunked wrapping_body = None"
proof -
  have len: "length wrapping_body = 18" by (simp add: wrapping_body_def crlf_def)
  have f: "find_str crlf wrapping_body 0 = Some 16"
    by (simp add: find_str_def wrapping_body_def crlf_def starts_with_def)
  have c: "from_chars_unsigned 16 (2 ^ 64) (take 16 wrapping_body) = FC_ok 18446744073709551596 16"
    by (simp add: wrapping_body_def from_chars_unsigned_def is_digit_def digit_val_def digits_val_def)
  have "\<not> (b = wrapping_body \<and> pos = 0)" if "decode_loop b out pos = Some y" for b out pos y
  proof (rule decode_loop.raw_induct [where P = "\<lambda>b out pos y. \<not> (b = wrapping_body \<and> pos = 0)", OF _ that])
    fix decode b out pos y
    assume IH: "\<And>b out (pos :: u64) y. decode b out pos = Some y \<Longrightarrow> \<not> (b = wrapping_body \<and> pos = 0)"
      and unfolded: "(if unat pos < length b then
        (case find_str crlf b (unat pos) of
           None \<Rightarrow> Some out
         | Some eol \<Rightarrow>
             (case from_chars_unsigned 16 (2 ^ 64) (take (eol - unat pos) (drop (unat pos) b)) of
                FC_ok len n \<Rightarrow>
                  if len = 0 then Some out
                  else decode b (out @ take (min len (length b - (eol + 2))) (drop (eol + 2) b))
                    (of_nat (eol + 2) + (of_nat len + 2))
              | FC_invalid \<Rightarrow> Some out
              | FC_range \<Rightarrow> Some out))
      else Some out) = Some y"
    have z: "(18446744073709551616 :: u64) = 0" by code_simp
    show "\<not> (b = wrapping_body \<and> pos = 0)"
    proof
      assume b: "b = wrapping_body \<and> pos = 0"
      have "decode wrapping_body out 18446744073709551616 = Some y"
        using unfolded len f c b by auto
      then show False using IH unfolding z by blast
    qed
  qed
  then show ?thesis unfolding decode_chunked_def by (metis option.exhaust)
qed

text \<open>Without such a size the position grows, so the decoder returns.\<close>

lemma decode_loop_returns:
  assumes small: "\<And>p e len n. find_str crlf body p = Some e \<Longrightarrow>
      from_chars_unsigned 16 (2 ^ 64) (take (e - p) (drop p body)) = FC_ok len n \<Longrightarrow> len < 2 ^ 63"
    and len: "length body < 2 ^ 62"
  shows "\<exists>y. decode_loop body out pos = Some y"
proof (induction "length body - unat pos" arbitrary: out pos rule: less_induct)
  case less
  show ?case
  proof (cases "unat pos < length body")
    case True
    show ?thesis
    proof (cases "find_str crlf body (unat pos)")
      case (Some e)
      have e: "unat pos \<le> e" "e \<le> length body"
        using Some find_pat_first [of crlf "drop (unat pos) body"]
        by (auto simp: find_str_def split: if_splits)
      have "\<exists>y. decode_loop body out' (of_nat (e + 2) + (of_nat l + 2)) = Some y"
        if "from_chars_unsigned 16 (2 ^ 64) (take (e - unat pos) (drop (unat pos) body)) = FC_ok l n" for l n out'
      proof -
        have "l < 2 ^ 63" using small [OF Some that] .
        then have "unat (of_nat (e + 2 + l + 2) :: u64) = e + 2 + l + 2"
          using e(2) len by (intro u64_of_nat) simp
        moreover have "of_nat (e + 2) + (of_nat l + 2) = (of_nat (e + 2 + l + 2) :: u64)" by simp
        ultimately have "unat pos < unat (of_nat (e + 2) + (of_nat l + 2) :: u64)" using e(1) by simp
        then show ?thesis using True by (intro less) simp
      qed
      then show ?thesis
        using True Some by (subst decode_loop.simps) (auto split: from_chars.splits)
    qed (use True in \<open>simp add: decode_loop.simps [of body out pos]\<close>)
  qed (simp add: decode_loop.simps [of body out pos])
qed



section \<open>Sending and receiving\<close>

lemma send_all_wire:
  assumes "send_all tmo data sent (take sent data) io = Some (e, wire)"
  shows "wire = take (length wire) data \<and> (e = [] \<longrightarrow> wire = data)"
  using assms
proof (induction io arbitrary: sent)
  case (Cons ps io)
  show ?case
  proof (cases ps)
    case (Pair p s)
    have step: "take sent data @ take n (drop sent data) = take (sent + n) data" for n
      by (simp add: take_add)
    show ?thesis
      using Cons Pair by (auto simp: step split: poll_result.splits send_result.splits if_splits)
  qed
qed (auto split: if_splits)

lemma connect_ok: "connect_with_timeout tmo c = [] \<longleftrightarrow> c = Connected \<or> c = In_progress Poll_ready (Inr None)"
  by (cases "(tmo, c)" rule: connect_with_timeout.cases) auto

lemma send_all_progress:
  assumes "\<forall>ps\<in>set io. \<exists>n>0. ps = (Poll_ready, Sent n)" "length data \<le> sent + length io"
  shows "\<exists>wire. send_all tmo data sent w io = Some ([], wire)"
  using assms
proof (induction io arbitrary: sent w)
  case (Cons ps io)
  then obtain n where n: "0 < n" "ps = (Poll_ready, Sent n)" by auto
  have "length data \<le> sent + n + length io" using Cons.prems(2) n(1) by simp
  then show ?case using Cons n by auto
qed simp

text \<open>The bytes a peer sent before it closed the connection.\<close>

fun received :: "(poll_result \<times> recv_result) list \<Rightarrow> string" where
  "received [] = []"
| "received ((Poll_ready, Received b) # io) = b @ received io"
| "received ((Poll_ready, Closed) # io) = []"
| "received (x # io) = received io"

lemma recv_all_received:
  assumes "recv_all tmo out io = Some ([], raw)"
  shows "raw = out @ received io \<and> (Poll_ready, Closed) \<in> set io"
  using assms
proof (induction io arbitrary: out)
  case (Cons pr io)
  show ?case
    using Cons.prems by (cases pr; cases "fst pr"; cases "snd pr") (auto split: if_splits dest!: Cons.IH)
qed simp

text \<open>
  (C32) The transport: whatever the kernel does, the bytes it accepted are a prefix of the
  request; \<open>send_all\<close> reports success only when it accepted all of them, and it does succeed
  once the kernel takes at least one byte per ready call for as many calls as there are
  bytes. \<open>recv_all\<close> reports success only when the peer closed the connection, and then it
  returns everything that was received before, in order.
\<close>

theorem transport_complete:
  "(send_all tmo data 0 [] out_io = Some (e, wire) \<longrightarrow> wire = take (length wire) data \<and> (e = [] \<longrightarrow> wire = data))
   \<and> ((\<forall>ps\<in>set out_io. \<exists>n>0. ps = (Poll_ready, Sent n)) \<and> length data \<le> length out_io \<longrightarrow>
       send_all tmo data 0 [] out_io = Some ([], data))
   \<and> (recv_all tmo [] in_io = Some ([], raw) \<longrightarrow> (Poll_ready, Closed) \<in> set in_io \<and> raw = received in_io)"
proof (intro conjI impI; (elim conjE)?)
  assume "send_all tmo data 0 [] out_io = Some (e, wire)"
  then show "wire = take (length wire) data" "e = [] \<Longrightarrow> wire = data"
    using send_all_wire [of tmo data 0 out_io e wire] by auto
next
  assume "\<forall>ps\<in>set out_io. \<exists>n>0. ps = (Poll_ready, Sent n)" "length data \<le> length out_io"
  then obtain w where "send_all tmo data 0 [] out_io = Some ([], w)"
    using send_all_progress [of out_io data 0 tmo "[]"] by auto
  then show "send_all tmo data 0 [] out_io = Some ([], data)"
    using send_all_wire [of tmo data 0 out_io "[]" w] by auto
next
  assume "recv_all tmo [] in_io = Some ([], raw)"
  then show "(Poll_ready, Closed) \<in> set in_io" "raw = received in_io"
    using recv_all_received [of tmo "[]"] by auto
qed

theorem transport_complete_witness:
  "send_all 5 ''abc'' 0 [] [(Poll_ready, Sent 2), (Poll_failed True ''EINTR'', Send_retry), (Poll_ready, Sent 1)] =
     Some ([], ''abc'')
   \<and> recv_all 5 [] [(Poll_ready, Received ''x''), (Poll_ready, Recv_retry), (Poll_ready, Received ''y''), (Poll_ready, Closed)] =
     Some ([], ''xy'')"
  using transport_complete [of 5 "''abc''"
      "[(Poll_ready, Sent 2), (Poll_failed True ''EINTR'', Send_retry), (Poll_ready, Sent 1)]" "[]" "''abc''"
      "[(Poll_ready, Received ''x''), (Poll_ready, Recv_retry), (Poll_ready, Received ''y''), (Poll_ready, Closed)]" "''xy''"]
  by simp

text \<open>
  Receiving has no deadline of its own: the timeout bounds each \<open>poll\<close>, so a peer that
  keeps sending one byte before every timeout keeps the client reading, for any number of
  calls.
\<close>

theorem recv_all_no_deadline: "recv_all tmo out (replicate n (Poll_ready, Received ''x'')) = None"
  by (induction n arbitrary: out) auto

section \<open>The response\<close>

lemma find_pat_skip:
  assumes "c \<notin> set l"
  shows "find_pat (c # p) (l @ t) = map_option ((+) (length l)) (find_pat (c # p) t)"
  using assms
proof (induction l)
  case Nil
  then show ?case by (cases "find_pat (c # p) t") simp_all
next
  case (Cons x l)
  then have "\<not> starts_with (x # l @ t) (c # p)" by (auto simp: starts_with_def)
  then show ?case using Cons by (cases "find_pat (c # p) t") simp_all
qed

lemma find_blank_line:
  assumes "\<forall>h\<in>set hs. h \<noteq> [] \<and> CHR 0x0D \<notin> set h" "CHR 0x0D \<notin> set l"
  shows "find_pat (crlf @ crlf) (l @ crlf @ concat (map (\<lambda>h. h @ crlf) hs) @ crlf @ body) =
    Some (length l + length (concat (map (\<lambda>h. h @ crlf) hs)))"
  using assms
proof (induction hs arbitrary: l)
  case Nil
  then show ?case by (simp add: crlf_def find_pat_skip starts_with_def)
next
  case (Cons h hs)
  then obtain x h' where h: "h = x # h'" "x \<noteq> CHR 0x0D" by (cases h) auto
  let ?t = "concat (map (\<lambda>h. h @ crlf) hs) @ crlf @ body"
  have IH: "find_pat (crlf @ crlf) (h @ crlf @ ?t) = Some (length h + length (concat (map (\<lambda>h. h @ crlf) hs)))"
    using Cons by auto
  have "find_pat (crlf @ crlf) (crlf @ h @ crlf @ ?t) = map_option (\<lambda>i. Suc (Suc i)) (find_pat (crlf @ crlf) (h @ crlf @ ?t))"
    using h by (auto simp: crlf_def starts_with_def option.map_comp comp_def)
  then show ?case
    using IH Cons.prems find_pat_skip [of "CHR 0x0D" l "CHR 0x0A # crlf" "crlf @ h @ crlf @ ?t"]
    by (simp add: crlf_def)
qed

lemma parse_status_line:
  assumes "0 < st" "st < 2 ^ 31" "CHR 0x0D \<notin> set reason"
  shows "find_str crlf (''HTTP/1.1 '' @ to_dec st @ '' '' @ reason @ crlf @ t) 0 =
      Some (length (''HTTP/1.1 '' @ to_dec st @ '' '' @ reason))"
    and "parse_status (''HTTP/1.1 '' @ to_dec st @ '' '' @ reason @ crlf @ t)
      (length (''HTTP/1.1 '' @ to_dec st @ '' '' @ reason)) = Some (int st)"
proof -
  let ?line = "''HTTP/1.1 '' @ to_dec st @ '' '' @ reason"
  have nd: "\<not> is_digit 10 (CHR 0x0D)" "\<not> is_digit 10 (CHR '' '')" "\<not> is_digit 10 (CHR ''-'')"
    by (simp_all add: is_digit_def digit_val_def)
  have cr: "CHR 0x0D \<notin> set ?line" using assms(3) dec_no_char [OF nd(1)] by simp
  show "find_str crlf (''HTTP/1.1 '' @ to_dec st @ '' '' @ reason @ crlf @ t) 0 = Some (length ?line)"
    using find_crlf [OF cr, of "[]" t] by simp
  obtain d ds where d: "to_dec st = d # ds" using dec_digits [of st] by (cases "to_dec st") auto
  then have "is_digit 10 d" using dec_digits [of st] by simp
  then have "d \<noteq> CHR ''-''" using nd(3) by auto
  moreover have "from_chars_unsigned 10 (2 ^ 31) (to_dec st @ '' '' @ reason) = FC_ok st (length (to_dec st))"
    unfolding to_dec_def using assms(2) nd(2) by (intro from_chars_format) auto
  ultimately have "from_chars_signed 31 (to_dec st @ '' '' @ reason) = Some (int st)"
    unfolding from_chars_signed_def d by simp
  then show "parse_status (''HTTP/1.1 '' @ to_dec st @ '' '' @ reason @ crlf @ t) (length ?line) = Some (int st)"
    by (simp add: parse_status_def)
qed

definition make_response :: "nat \<Rightarrow> string \<Rightarrow> string list \<Rightarrow> string \<Rightarrow> string" where
  "make_response st reason hs body =
     ''HTTP/1.1 '' @ to_dec st @ '' '' @ reason @ crlf @ concat (map (\<lambda>h. h @ crlf) hs) @ crlf @ body"

lemma butlast_headers:
  assumes "hs \<noteq> []"
  shows "concat (map (\<lambda>h. h @ crlf) hs) = take (length (concat (map (\<lambda>h. h @ crlf) hs)) - 2) (concat (map (\<lambda>h. h @ crlf) hs)) @ crlf"
    and "2 \<le> length (concat (map (\<lambda>h. h @ crlf) hs))"
proof -
  obtain gs g where "hs = gs @ [g]" using assms by (metis rev_exhaust)
  then have c: "concat (map (\<lambda>h. h @ crlf) hs) = (concat (map (\<lambda>h. h @ crlf) gs) @ g) @ crlf" by simp
  have l: "length crlf = 2" by (simp add: crlf_def)
  show "concat (map (\<lambda>h. h @ crlf) hs) = take (length (concat (map (\<lambda>h. h @ crlf) hs)) - 2) (concat (map (\<lambda>h. h @ crlf) hs)) @ crlf"
    "2 \<le> length (concat (map (\<lambda>h. h @ crlf) hs))"
    unfolding c by (simp_all add: l)
qed

lemma parse_made:
  assumes "0 < st" "st < 2 ^ 31" "CHR 0x0D \<notin> set reason" "hs \<noteq> []"
    "\<forall>h\<in>set hs. h \<noteq> [] \<and> CHR 0x0D \<notin> set h" "length (make_response st reason hs body) < 2 ^ 64"
  shows "parse_response (make_response st reason hs body) =
    (if find_str ''transfer-encoding: chunked'' (lower (take (length (concat (map (\<lambda>h. h @ crlf) hs)) - 2) (concat (map (\<lambda>h. h @ crlf) hs)))) 0 = None
     then Reply (int st) body
     else case decode_chunked body of Some b \<Rightarrow> Reply (int st) b | None \<Rightarrow> Hangs)"
proof -
  define line where "line = ''HTTP/1.1 '' @ to_dec st @ '' '' @ reason"
  define block where "block = concat (map (\<lambda>h. h @ crlf) hs)"
  define raw where "raw = make_response st reason hs body"
  have raw: "raw = line @ crlf @ block @ crlf @ body"
    by (simp add: raw_def line_def block_def make_response_def)
  have st: "find_str crlf raw 0 = Some (length line)" "parse_status raw (length line) = Some (int st)"
    using parse_status_line [OF assms(1-3), of "block @ crlf @ body"] by (simp_all add: raw line_def)
  have "\<not> is_digit 10 (CHR 0x0D)" by (simp add: is_digit_def digit_val_def)
  then have "CHR 0x0D \<notin> set line" using assms(3) by (simp add: line_def dec_no_char)
  then have he: "find_str (crlf @ crlf) raw 0 = Some (length line + length block)"
    unfolding raw block_def by (simp add: find_str_def find_blank_line [OF assms(5)])
  have b2: "2 \<le> length block" using butlast_headers(2) [OF assms(4)] by (simp add: block_def)
  have lens: "length line + length block < 2 ^ 64" using assms(6) unfolding raw_def [symmetric] raw by simp
  have "of_nat (length line + length block) - of_nat (length line) - 2 = (of_nat (length block - 2) :: u64)"
    using b2 by (simp add: of_nat_diff)
  then have cnt: "unat (of_nat (length line + length block) - of_nat (length line) - 2 :: u64) = length block - 2"
    using lens by (simp only: u64_of_nat)
  have dr: "drop (length line + 2) raw = block @ crlf @ body" by (simp add: raw crlf_def)
  have hd: "response_headers raw (length line) (Some (length line + length block)) =
      lower (take (length block - 2) block)"
    unfolding response_headers_def option.case cnt substr_def dr by simp
  have "raw = (line @ crlf @ block @ crlf) @ body" "length (line @ crlf @ block @ crlf) = length line + length block + 4"
    by (simp_all add: raw crlf_def)
  then have pl: "drop (length line + length block + 4) raw = body" by (metis append_eq_conv_conj)
  have pre: "starts_with raw ''HTTP/1.''" by (simp add: raw line_def starts_with_def)
  have "raw \<noteq> []" by (simp add: raw line_def)
  then show ?thesis
    using assms(1) unfolding raw_def [symmetric] parse_response_def block_def [symmetric] st(1) option.case st(2) he hd pl Let_def
    by (simp add: pre)
qed

text \<open>
  Reading a response: for every status code, reason phrase, non-empty list of header
  lines and body, the status is read back, the body is returned as it is, and it is decoded
  exactly when the lower-cased header block announces the chunked transfer encoding.
\<close>

theorem parse_response_make:
  assumes "0 < st" "st < 2 ^ 31" "CHR 0x0D \<notin> set reason" "hs \<noteq> []"
    "\<forall>h\<in>set hs. h \<noteq> [] \<and> CHR 0x0D \<notin> set h" "length (make_response st reason hs body) < 2 ^ 64"
  shows "parse_response (make_response st reason hs body) =
    (let block = concat (map (\<lambda>h. h @ crlf) hs) in
     if find_str ''transfer-encoding: chunked'' (lower (take (length block - 2) block)) 0 = None
     then Reply (int st) body
     else case decode_chunked body of Some b \<Rightarrow> Reply (int st) b | None \<Rightarrow> Hangs)"
  using parse_made [OF assms] by (simp only: Let_def)

theorem parse_response_make_witness:
  "parse_response (make_response 201 ''Created'' [''Content-Length: 2''] ''{}'') = Reply 201 ''{}''"
proof -
  let ?block = "concat (map (\<lambda>h. h @ crlf) [''Content-Length: 2''])"
  have len: "length (make_response 201 ''Created'' [''Content-Length: 2''] ''{}'') < 2 ^ 64"
    by (simp add: make_response_def to_dec_def format_nat.simps crlf_def)
  have f: "find_str ''transfer-encoding: chunked'' (lower (take (length ?block - 2) ?block)) 0 = None"
    by code_simp
  show ?thesis using parse_response_make [of 201 "''Created''" "[''Content-Length: 2'']" "''{}''"] len f
    by (simp only: Let_def if_True) simp
qed

text \<open>
  Two corners the parser does not cover. A status line without a space makes the engine read
  the status from a reversed character range; and when there is no header at all, the length
  of the header block wraps and the body is searched for the transfer encoding.
\<close>

lemma status_line_without_space: "parse_response (''HTTP/1.1'' @ crlf @ ''X: 200'' @ crlf @ crlf) = Undefined"
  by code_simp

lemma headerless_body_is_searched:
  "response_headers (''HTTP/1.1 200 OK'' @ crlf @ crlf @ ''transfer-encoding: chunked'') 15 (Some 15) =
   crlf @ ''transfer-encoding: chunked''"
  by (simp add: response_headers_def substr_def crlf_def lower_def tolower_def)

section \<open>Posting\<close>

lemma post_addresses_done:
  assumes "post_addresses tmo request last_error addrs = Done res" "last_error \<noteq> []"
  shows "(hr_error res \<noteq> [] \<and> hr_status res = 0 \<and> hr_body res = []) \<or>
    (hr_error res = [] \<and> (\<exists>ai\<in>set addrs. \<exists>raw. connect_with_timeout tmo (ad_connect ai) = [] \<and>
      send_all tmo request 0 [] (ad_send ai) = Some ([], request) \<and>
      recv_all tmo [] (ad_recv ai) = Some ([], raw) \<and> parse_response raw = Reply (hr_status res) (hr_body res)))"
  using assms
proof (induction addrs arbitrary: last_error)
  case (Cons ai addrs)
  have m: "parse_response raw = Malformed e \<Longrightarrow> e \<noteq> []" for raw e
    by (auto simp: parse_response_def Let_def split: if_splits option.splits)
  have w: "send_all tmo request 0 [] (ad_send ai) = Some ([], wire) \<Longrightarrow> wire = request" for wire
    using send_all_wire [of tmo request 0] by auto
  show ?case
    using Cons.prems
    by (auto simp: Let_def split: option.splits if_splits reply.splits dest!: Cons.IH dest: m w)
qed auto

lemma parse_response_status: "parse_response raw = Reply status body \<Longrightarrow> status \<noteq> 0"
  by (auto simp: parse_response_def Let_def split: if_splits option.splits)

text \<open>
  (C33) Posting: a response without an error means that some address was connected, accepted
  the whole request, closed the connection after its reply, and that the status (never 0) and
  the body are those of the reply; in every other case that ends, the status is 0, the body
  empty and the error says why.
\<close>

theorem post_json_outcome:
  assumes "post_json version url body tmo gai = Done res"
  shows "(hr_error res \<noteq> [] \<and> hr_status res = 0 \<and> hr_body res = [] \<and> \<not> response_ok res) \<or>
    (hr_error res = [] \<and> hr_status res \<noteq> 0 \<and> (\<exists>addrs. gai = Inr addrs \<and>
      (\<exists>ai\<in>set addrs. \<exists>raw. connect_with_timeout tmo (ad_connect ai) = [] \<and>
        send_all tmo (make_request version url body) 0 [] (ad_send ai) = Some ([], make_request version url body) \<and>
        recv_all tmo [] (ad_recv ai) = Some ([], raw) \<and>
        parse_response raw = Reply (hr_status res) (hr_body res))))"
proof (cases gai)
  case (Inl e)
  then show ?thesis using assms by (auto simp: post_json_def response_ok_def)
next
  case (Inr addrs)
  then have "post_addresses tmo (make_request version url body) ''no address to connect to'' addrs = Done res"
    using assms by (simp add: post_json_def)
  from post_addresses_done [OF this] show ?thesis
    using Inr parse_response_status by (fastforce simp: response_ok_def)
qed

theorem post_json_outcome_witness:
  "\<exists>res. post_json ''1.0'' default_url ''{}'' 5 (Inl ''no such host'') = Done res \<and> hr_error res \<noteq> [] \<and> hr_status res = 0"
proof -
  obtain res where res: "post_json ''1.0'' default_url ''{}'' 5 (Inl ''no such host'') = Done res"
    by (simp add: post_json_def)
  then have "hr_error res \<noteq> []" using post_json_outcome [OF res] by auto
  then show ?thesis using res post_json_outcome [OF res] by auto
qed

end
