(* ===== verification/Cache.thy ===== *)
theory Cache
  imports Cpp_String
begin

text \<open>
  \<^verbatim>\<open>engine/src/cache.cpp\<close>: cold-cache preparation and the buffers it works on. Flushing is
  the list of instructions issued; the contents of \<^verbatim>\<open>/sys\<close> and \<^verbatim>\<open>/proc\<close> files are
  arguments (\<open>None\<close> when a file cannot be read). The address space is the set of mapped 4 KiB
  pages; what \<open>mmap\<close> and \<open>posix_memalign\<close> return is an argument.
\<close>

abbreviation kCacheLine :: u64 where
  "kCacheLine \<equiv> 64"

abbreviation kHugePage :: u64 where
  "kHugePage \<equiv> 0x200000"

section \<open>Modes\<close>

datatype ColdMode = CM_none | CM_clflush | CM_evict

datatype ColdEffect = CE_none | CE_clflush | CE_evict | CE_not_applicable

fun coldmode_to_string :: "ColdMode \<Rightarrow> string" where
  "coldmode_to_string CM_clflush = ''clflush''"
| "coldmode_to_string CM_evict = ''evict''"
| "coldmode_to_string CM_none = ''none''"

fun coldeffect_to_string :: "ColdEffect \<Rightarrow> string" where
  "coldeffect_to_string CE_clflush = ''clflush''"
| "coldeffect_to_string CE_evict = ''evict''"
| "coldeffect_to_string CE_not_applicable = ''n/a''"
| "coldeffect_to_string CE_none = ''none''"

definition parse_cold_mode :: "string \<Rightarrow> ColdMode option" where
  "parse_cold_mode s =
     (if s = ''clflush'' then Some CM_clflush
      else if s = ''evict'' then Some CM_evict
      else if s = ''none'' then Some CM_none
      else None)"

section \<open>Flushing and evicting\<close>

datatype insn = Clflushopt u64 | Clflush u64 | Sfence | Mfence

text \<open>\<open>for (i = lines; i-- > 0;)\<close>, for either instruction.\<close>

fun flush_range :: "(u64 \<Rightarrow> insn) \<Rightarrow> u64 \<Rightarrow> nat \<Rightarrow> insn list" where
  "flush_range op first 0 = []"
| "flush_range op first (Suc i) = op (first + of_nat i * kCacheLine) # flush_range op first i"

definition flush_lines :: "bool \<Rightarrow> u64 \<Rightarrow> u64 \<Rightarrow> insn list" where
  "flush_lines has_clflushopt base sz =
     (if sz = 0 then []
      else
        let first_addr = base AND NOT (kCacheLine - 1);
            lines = (base + sz - first_addr + kCacheLine - 1) div kCacheLine
        in (if has_clflushopt then flush_range Clflushopt first_addr (unat lines)
            else flush_range Clflush first_addr (unat lines)) @ [Sfence, Mfence])"

text \<open>\<open>memcpy\<close> of eight bytes into a little-endian \<open>uint64_t\<close>.\<close>

definition load_u64 :: "u8 list \<Rightarrow> nat \<Rightarrow> u64" where
  "load_u64 buf off = of_nat (foldr (\<lambda>b v. unat b + 256 * v) (take 8 (drop off buf)) 0)"

function stream_read :: "u8 list \<Rightarrow> nat \<Rightarrow> u64 \<Rightarrow> u64" where
  "stream_read buf off acc =
     (if off + 8 \<le> length buf then stream_read buf (off + 64) (acc * 31 + load_u64 buf off) else acc)"
  by auto
termination by (relation "measure (\<lambda>(buf, off, acc). length buf + 8 - off)") auto

declare stream_read.simps [simp del]

definition evict_llc :: "u8 list \<Rightarrow> u64" where
  "evict_llc scratch = stream_read scratch 0 0"

definition evict_buffer_bytes :: "int \<Rightarrow> u64" where
  "evict_buffer_bytes l3_kb =
     (let l3 = (if 0 < l3_kb then push_bit 10 (word_of_int l3_kb) else 0) in
      if 0 < l3 then 2 * l3 else kHugePage)"

section \<open>Huge pages\<close>

definition lstrip :: "string \<Rightarrow> string" where
  "lstrip s = dropWhile (\<lambda>c. c = CHR '' '' \<or> c = CHR 0x09) s"

definition thp_policy :: "string option \<Rightarrow> string" where
  "thp_policy file =
     (case file of
        None \<Rightarrow> ''unknown''
      | Some text \<Rightarrow>
          (case getlines text of
             [] \<Rightarrow> ''unknown''
           | line # _ \<Rightarrow>
               (case find_char (CHR ''['') line of
                  None \<Rightarrow> ''unknown''
                | Some lo \<Rightarrow>
                    (case find_char (CHR '']'') (drop lo line) of
                       None \<Rightarrow> ''unknown''
                     | Some d \<Rightarrow>
                         let hi = lo + d in
                         if hi \<le> lo + 1 then ''unknown'' else substr line (lo + 1) (hi - lo - 1)))))"

text \<open>A mapping header \<open>lo-hi ...\<close> of \<open>smaps\<close>.\<close>

definition smaps_header :: "string \<Rightarrow> (nat \<times> nat) option" where
  "smaps_header line =
     (case from_chars_unsigned 16 (2 ^ 64) line of
        FC_ok lo n \<Rightarrow>
          if n < length line \<and> line ! n = CHR ''-'' then
            (case from_chars_unsigned 16 (2 ^ 64) (drop (n + 1) line) of
               FC_ok hi m \<Rightarrow> Some (lo, hi)
             | _ \<Rightarrow> None)
          else None
      | _ \<Rightarrow> None)"

fun smaps_scan :: "u64 \<Rightarrow> bool \<Rightarrow> string list \<Rightarrow> u64" where
  "smaps_scan target in_mapping [] = 0"
| "smaps_scan target in_mapping (line # lines) =
     (case smaps_header line of
        Some (lo, hi) \<Rightarrow> smaps_scan target (lo \<le> unat target \<and> unat target < hi) lines
      | None \<Rightarrow>
          if in_mapping \<and> starts_with line ''AnonHugePages:'' then
            (case from_chars_unsigned 10 (2 ^ 64) (lstrip (drop 14 line)) of
               FC_ok kb n \<Rightarrow> push_bit 10 (of_nat kb)
             | _ \<Rightarrow> 0)
          else smaps_scan target in_mapping lines)"

definition smaps_anon_huge_bytes :: "string option \<Rightarrow> u64 \<Rightarrow> u64" where
  "smaps_anon_huge_bytes smaps addr =
     (case smaps of None \<Rightarrow> 0 | Some text \<Rightarrow> smaps_scan addr False (getlines text))"

section \<open>Buffers\<close>

record Buffer =
  b_data :: u64   \<comment> \<open>0 is the null pointer\<close>
  b_size :: u64
  b_mapped :: u64
  b_huge_requested :: bool
  b_huge_granted :: u64

definition empty_buffer :: Buffer where
  "empty_buffer = \<lparr>b_data = 0, b_size = 0, b_mapped = 0, b_huge_requested = False, b_huge_granted = 0\<rparr>"

text \<open>What a buffer owns and how it is returned.\<close>

datatype resource = Mapping u64 u64 | Heap u64

definition owned :: "Buffer \<Rightarrow> resource list" where
  "owned b =
     (if b_data b = 0 then [] else if 0 < b_mapped b then [Mapping (b_data b) (b_mapped b)] else [Heap (b_data b)])"

definition buffer_release :: "Buffer \<Rightarrow> Buffer \<times> resource list" where
  "buffer_release b =
     (if b_data b = 0 then (b, [])
      else (b\<lparr>b_data := 0, b_size := 0, b_mapped := 0\<rparr>,
            if 0 < b_mapped b then [Mapping (b_data b) (b_mapped b)] else [Heap (b_data b)]))"

definition moved_from :: "Buffer \<Rightarrow> Buffer" where
  "moved_from b = b\<lparr>b_data := 0, b_size := 0, b_mapped := 0\<rparr>"

definition buffer_move :: "Buffer \<Rightarrow> Buffer \<times> Buffer" where
  "buffer_move other =
     (\<lparr>b_data = b_data other, b_size = b_size other, b_mapped = b_mapped other,
       b_huge_requested = b_huge_requested other, b_huge_granted = b_huge_granted other\<rparr>, moved_from other)"

text \<open>Move assignment: the new value of both buffers and what was released.\<close>

definition buffer_assign :: "bool \<Rightarrow> Buffer \<Rightarrow> Buffer \<Rightarrow> Buffer \<times> Buffer \<times> resource list" where
  "buffer_assign same self other =
     (if same then (self, other, [])
      else let (_, freed) = buffer_release self; (self', other') = buffer_move other in (self', other', freed))"

record AllocOptions =
  ao_huge_pages :: bool
  ao_first_touch :: bool

text \<open>
  The pages of an address range. \<open>munmap\<close> fails with \<open>EINVAL\<close>, and the code ignores it,
  unless the address is a multiple of the page size; the length is rounded up to pages.
\<close>

definition pages :: "u64 \<Rightarrow> u64 \<Rightarrow> nat set" where
  "pages addr len = {unat addr div 4096 ..< (unat addr + unat len + 4095) div 4096}"

definition munmap :: "u64 \<Rightarrow> u64 \<Rightarrow> nat set \<Rightarrow> nat set" where
  "munmap addr len vm = (if addr AND 0xFFF \<noteq> 0 then vm else vm - pages addr len)"

text \<open>
  \<open>raw\<close> is the address \<open>mmap\<close> or \<open>posix_memalign\<close> returns, \<open>None\<close> on failure; \<open>smaps\<close> the
  content of \<^verbatim>\<open>/proc/self/smaps\<close>. The result holds the touched addresses too.
\<close>

definition alloc_buffer ::
  "nat set \<Rightarrow> u64 option \<Rightarrow> string option \<Rightarrow> u64 \<Rightarrow> AllocOptions \<Rightarrow> (Buffer \<times> nat set \<times> u64 list) result" where
  "alloc_buffer vm raw smaps bytes opts =
     (if bytes = 0 then Inr (empty_buffer, vm, [])
      else
        let want_huge = (ao_huge_pages opts \<and> kHugePage \<le> bytes);
            placed =
              (if want_huge then
                 let span = bytes + kHugePage in
                 (case raw of
                    None \<Rightarrow> Inl Bad_alloc
                  | Some start \<Rightarrow>
                      let aligned = (start + kHugePage - 1) AND NOT (kHugePage - 1);
                          head = aligned - start;
                          vm1 = vm \<union> pages start span;
                          vm2 = (if 0 < head then munmap start head vm1 else vm1);
                          tail = span - head - bytes;
                          vm3 = (if 0 < tail then munmap (aligned + bytes) tail vm2 else vm2)
                      in Inr (empty_buffer\<lparr>b_data := aligned, b_size := bytes, b_mapped := bytes,
                                b_huge_requested := True\<rparr>, vm3))
               else
                 (case raw of
                    None \<Rightarrow> Inl Bad_alloc
                  | Some p \<Rightarrow> Inr (empty_buffer\<lparr>b_data := p, b_size := bytes\<rparr>, vm)))
        in rbind placed (\<lambda>(buf, vm).
             let touched = (if ao_first_touch opts \<and> 0 < b_mapped buf
                            then map (\<lambda>i. b_data buf + of_nat (4096 * i)) [0..<(unat bytes + 4095) div 4096] else []);
                 buf = (if b_huge_requested buf \<or> kHugePage \<le> bytes
                        then buf\<lparr>b_huge_granted := smaps_anon_huge_bytes smaps (b_data buf)\<rparr> else buf)
             in Inr (buf, vm, touched)))"

section \<open>Cold preparation\<close>

record ColdPrep =
  cp_requested :: ColdMode
  cp_effect :: ColdEffect
  cp_bytes :: u64
  cp_scratch :: Buffer
  cp_sink :: u64

definition default_alloc :: AllocOptions where
  "default_alloc = \<lparr>ao_huge_pages = True, ao_first_touch = True\<rparr>"

text \<open>Resetting the scratch buffer first returns the one of an earlier set-up.\<close>

definition return_resource :: "nat set \<Rightarrow> resource \<Rightarrow> nat set" where
  "return_resource vm r = (case r of Mapping addr len \<Rightarrow> munmap addr len vm | Heap addr \<Rightarrow> vm)"

definition cold_setup ::
  "nat set \<Rightarrow> u64 option \<Rightarrow> string option \<Rightarrow> ColdPrep \<Rightarrow> ColdMode \<Rightarrow> int \<Rightarrow> u64 \<Rightarrow> (ColdPrep \<times> nat set) result" where
  "cold_setup vm raw smaps cp requested l3_kb region_bytes =
     (let (_, _, freed) = buffer_assign False (cp_scratch cp) empty_buffer;
          vm = foldl return_resource vm freed;
          cp = cp\<lparr>cp_requested := requested, cp_effect := CE_none, cp_bytes := 0, cp_scratch := empty_buffer\<rparr> in
      case requested of
        CM_none \<Rightarrow> Inr (cp, vm)
      | CM_clflush \<Rightarrow>
          let l3 = (if 0 < l3_kb then push_bit 10 (word_of_int l3_kb) else 0) in
          if region_bytes = 0 \<or> (0 < l3 \<and> l3 < region_bytes)
          then Inr (cp\<lparr>cp_effect := CE_not_applicable\<rparr>, vm)
          else Inr (cp\<lparr>cp_effect := CE_clflush, cp_bytes := region_bytes\<rparr>, vm)
      | CM_evict \<Rightarrow>
          rbind (alloc_buffer vm raw smaps (evict_buffer_bytes l3_kb) default_alloc) (\<lambda>(scratch, vm, _).
            Inr (cp\<lparr>cp_scratch := scratch, cp_effect := CE_evict, cp_bytes := b_size scratch\<rparr>, vm)))"

text \<open>One trial's preparation: the instructions issued and the new sink.\<close>

definition cold_prepare :: "bool \<Rightarrow> u8 list \<Rightarrow> ColdPrep \<Rightarrow> u64 \<Rightarrow> u64 \<Rightarrow> ColdPrep \<times> insn list" where
  "cold_prepare has_clflushopt scratch_bytes cp base sz =
     (case cp_effect cp of
        CE_none \<Rightarrow> (cp, [])
      | CE_not_applicable \<Rightarrow> (cp, [])
      | CE_clflush \<Rightarrow> (cp, flush_lines has_clflushopt base sz)
      | CE_evict \<Rightarrow> (cp\<lparr>cp_sink := cp_sink cp XOR evict_llc scratch_bytes\<rparr>, []))"

section \<open>Flushing covers the region\<close>

lemma flush_range_eq: "flush_range op first n = map (\<lambda>i. op (first + of_nat i * kCacheLine)) (rev [0..<n])"
  by (induction n) auto

lemma line_mask: "NOT (kCacheLine - 1) = NOT (mask 6 :: u64)"
  by (simp add: mask_eq_exp_minus_1)

text \<open>
  Flushing a region issues one flush for every cache line that overlaps the region and
  for no other line, in descending address order, and ends with the two fences: for a region
  that does not reach the last page of the address space the flushed addresses are exactly
  the multiples of 64 whose line meets the region.
\<close>

theorem flush_lines_exact:
  assumes "0 < sz" "unat base + unat sz + 64 < 2 ^ 64"
  shows "\<exists>addrs. flush_lines opt base sz = map (if opt then Clflushopt else Clflush) addrs @ [Sfence, Mfence]
    \<and> set addrs = {l. unat l mod 64 = 0 \<and> unat base < unat l + 64 \<and> unat l < unat base + unat sz}
    \<and> sorted_wrt (\<lambda>a b. unat b < unat a) addrs"
proof -
  define first where "first = base AND NOT (kCacheLine - 1)"
  define n where "n = unat ((base + sz - first + kCacheLine - 1) div kCacheLine)"
  define b where "b = unat base"
  define f where "f = b - b mod 64"
  have first: "unat first = f"
    unfolding first_def line_mask unat_and_not_mask by (simp add: f_def b_def)
  have "unat (base + sz) = b + unat sz" using assms(2) unfolding b_def by (intro unat_add_lt) simp
  moreover have "first \<le> base + sz"
    using first calculation by (simp add: word_le_nat_alt f_def)
  ultimately have "unat (base + sz - first) = b + unat sz - f" by (simp add: unat_sub first)
  moreover have e: "base + sz - first + kCacheLine - 1 = (base + sz - first) + 63" by simp
  moreover have "unat ((base + sz - first) + 63) = unat (base + sz - first) + 63"
    using assms(2) calculation(1) by (subst unat_add_lt) (simp_all add: b_def)
  ultimately have n: "n = (b + unat sz - f + 63) div 64"
    unfolding n_def e unat_div by simp
  define addrs where "addrs = map (\<lambda>i. first + of_nat i * kCacheLine) (rev [0..<n])"
  have f_le: "f \<le> b" "b < f + 64" "f mod 64 = 0" by (auto simp: f_def minus_mod_eq_mult_div)
  have addr: "unat (first + of_nat i * kCacheLine) = f + 64 * i" if "i < n" for i
  proof -
    have "64 * i < b + unat sz - f + 63" using that unfolding n by linarith
    then have "f + 64 * i < 2 ^ 64" using assms(2) f_le by (simp add: b_def)
    moreover have "first + of_nat i * kCacheLine = of_nat (f + 64 * i)" by (simp flip: first)
    ultimately show ?thesis by (simp only: u64_of_nat)
  qed
  have "flush_lines opt base sz = map (if opt then Clflushopt else Clflush) addrs @ [Sfence, Mfence]"
    using assms(1) by (auto simp: flush_lines_def flush_range_eq addrs_def first_def n_def Let_def)
  moreover have "l \<in> set addrs \<longleftrightarrow> unat l mod 64 = 0 \<and> b < unat l + 64 \<and> unat l < b + unat sz" for l
  proof
    assume "l \<in> set addrs"
    then obtain i where "i < n" "l = first + of_nat i * kCacheLine" by (auto simp: addrs_def)
    then have l: "unat l = f + 64 * i" "i < n" using addr by auto
    then have "f + 64 * i < b + unat sz" using f_le(1) unfolding n by linarith
    then show "unat l mod 64 = 0 \<and> b < unat l + 64 \<and> unat l < b + unat sz" using l f_le by auto
  next
    assume l: "unat l mod 64 = 0 \<and> b < unat l + 64 \<and> unat l < b + unat sz"
    define i where "i = (unat l - f) div 64"
    obtain m q where mq: "unat l = 64 * m" "f = 64 * q"
      using l f_le(3) by (auto simp: mod_eq_0_iff_dvd elim!: dvdE)
    then have "64 * q < 64 * (m + 1)" using l f_le(1) by auto
    then have "q \<le> m" by simp
    then have i: "unat l = f + 64 * i" using mq by (simp add: i_def flip: diff_mult_distrib2)
    then have "i < n" using l f_le unfolding n by linarith
    moreover have "l = first + of_nat i * kCacheLine"
      using addr [OF \<open>i < n\<close>] i by (simp add: word_unat_eq_iff)
    ultimately show "l \<in> set addrs" by (auto simp: addrs_def)
  qed
  then have "set addrs = {l. unat l mod 64 = 0 \<and> unat base < unat l + 64 \<and> unat l < unat base + unat sz}"
    by (auto simp: b_def)
  moreover have "sorted_wrt (\<lambda>a b. unat b < unat a) addrs"
    unfolding addrs_def sorted_wrt_map sorted_wrt_rev using addr
    by (auto simp: sorted_wrt_iff_nth_less)
  ultimately show ?thesis by blast
qed

theorem flush_lines_exact_witness:
  "\<exists>addrs. flush_lines True 100 64 = map Clflushopt addrs @ [Sfence, Mfence] \<and>
    set addrs = {l. unat l mod 64 = 0 \<and> 100 < unat l + 64 \<and> unat l < 164}"
  using flush_lines_exact [of 64 100 True] by auto

section \<open>Buffers: alignment, nothing leaked, single ownership\<close>

lemma huge_mask: "NOT (kHugePage - 1) = NOT (mask 21 :: u64)"
  by (simp add: mask_eq_exp_minus_1)

lemma page_mask: "addr AND 0xFFF = 0 \<longleftrightarrow> unat addr mod 4096 = 0" for addr :: u64
proof -
  have "addr AND 0xFFF = take_bit 12 addr" by (simp add: take_bit_eq_mask mask_eq_exp_minus_1)
  then show ?thesis using unat_take_bit [of 12 addr] by (simp flip: unat_eq_zero)
qed

lemma align_up:
  assumes "unat start + 0x200000 < 2 ^ 64" "unat start mod 4096 = 0"
  defines "al \<equiv> (start + kHugePage - 1) AND NOT (kHugePage - 1)"
  shows "unat al mod 0x200000 = 0" and "unat start \<le> unat al" and "unat al < unat start + 0x200000"
    and "unat (al - start) = unat al - unat start" and "unat al mod 4096 = 0"
proof -
  have e: "start + kHugePage - 1 = start + 0x1FFFFF" by simp
  have u: "unat (start + 0x1FFFFF) = unat start + 0x1FFFFF"
    using assms(1) by (subst unat_add_lt) simp_all
  have al: "unat al = (unat start + 0x1FFFFF) - (unat start + 0x1FFFFF) mod 0x200000"
    unfolding al_def huge_mask unat_and_not_mask e u by simp
  then show m: "unat al mod 0x200000 = 0" "unat start \<le> unat al" "unat al < unat start + 0x200000"
    by (simp_all add: minus_mod_eq_mult_div)
  then show "unat (al - start) = unat al - unat start" by (simp add: unat_sub word_le_nat_alt)
  have "(4096 :: nat) dvd 0x200000" by simp
  then show "unat al mod 4096 = 0" using m(1) by (meson dvd_trans mod_0_imp_dvd dvd_imp_mod_0)
qed

lemma page_up: "x mod 4096 = 0 \<Longrightarrow> (x + 4095) div 4096 = x div (4096 :: nat)"
  by (auto simp: mod_eq_0_iff_dvd elim!: dvdE)

lemma pages_split:
  assumes "s \<le> a" "a + l \<le> s + n" "s mod 4096 = 0" "a mod 4096 = 0" "l mod 4096 = 0"
  shows "{s div 4096 ..< (s + n + 4095) div 4096} - {s div 4096 ..< (s + (a - s) + 4095) div 4096}
      - {(a + l) div 4096 ..< (a + l + (n - (a - s) - l) + 4095) div 4096} =
    {a div 4096 ..< (a + l + 4095) div 4096 :: nat}"
proof -
  have 1: "s + (a - s) = a" "a + l + (n - (a - s) - l) = s + n" using assms by auto
  have "(a + 4095) div 4096 = a div 4096" "(a + l + 4095) div 4096 = (a + l) div 4096"
    using page_up [of a] page_up [of "a + l"] assms(4,5) by (simp_all add: mod_eq_0_iff_dvd)
  moreover have "s div 4096 \<le> a div 4096" "(a + l) div 4096 \<le> (s + n + 4095) div 4096"
    using assms(1,2) by (auto intro: div_le_mono)
  ultimately show ?thesis unfolding 1 by auto
qed

text \<open>
  Large buffers: when the size is a whole number of pages, a huge-page buffer is aligned
  to 2 MiB, lies inside the range the kernel returned, and after the two trims exactly its own
  pages stay mapped in addition to what was mapped before: the slack is given back.
\<close>

theorem alloc_buffer_huge:
  assumes "kHugePage \<le> bytes" "unat bytes mod 4096 = 0" "unat start mod 4096 = 0"
    "unat start + unat bytes + 0x200000 < 2 ^ 64" "vm \<inter> pages start (bytes + kHugePage) = {}"
  shows "\<exists>buf touched. alloc_buffer vm (Some start) smaps bytes \<lparr>ao_huge_pages = True, ao_first_touch = ft\<rparr> =
      Inr (buf, vm \<union> pages (b_data buf) bytes, touched)
    \<and> unat (b_data buf) mod 0x200000 = 0 \<and> unat start \<le> unat (b_data buf)
    \<and> unat (b_data buf) + unat bytes \<le> unat start + unat bytes + 0x200000
    \<and> b_size buf = bytes \<and> b_mapped buf = bytes \<and> b_huge_requested buf"
proof -
  define al where "al = (start + kHugePage - 1) AND NOT (kHugePage - 1)"
  define span where "span = bytes + kHugePage"
  define s n l a where "s = unat start" and "n = unat span" and "l = unat bytes" and "a = unat al"
  have b: "bytes \<noteq> 0" "0x200000 \<le> l" using assms(1) by (auto simp: word_le_nat_alt l_def)
  have n: "n = l + 0x200000"
    using assms(4) unfolding n_def span_def l_def by (subst unat_add_lt) simp_all
  note au = align_up [of start, folded al_def s_def a_def]
  have al: "a mod 0x200000 = 0" "s \<le> a" "a < s + 0x200000" "unat (al - start) = a - s" "a mod 4096 = 0"
    using au assms(3,4) by (auto simp: s_def)
  have tl1: "unat (span - (al - start)) = n - (a - s)"
    using al n by (simp add: unat_sub word_le_nat_alt n_def)
  then have tl: "unat (span - (al - start) - bytes) = n - (a - s) - l"
    using al n by (subst unat_sub) (auto simp: word_le_nat_alt l_def)
  have ab: "unat (al + bytes) = a + l"
    using assms(4) al(3) unfolding a_def l_def s_def by (intro unat_add_lt) simp
  have pos: "0 < span - (al - start) - bytes" using tl al n by (simp add: word_less_nat_alt)
  let ?vm1 = "vm \<union> pages start span"
  let ?vm2 = "if 0 < al - start then munmap start (al - start) ?vm1 else ?vm1"
  have hd: "?vm2 = ?vm1 - pages start (al - start)"
  proof (cases "0 < al - start")
    case True
    then show ?thesis using assms(3) by (simp add: munmap_def page_mask)
  next
    case False
    then have "al = start" by (simp add: word_neq_0_conv [symmetric])
    moreover have "(s + 4095) div 4096 = s div 4096" using assms(3) by (simp only: s_def page_up)
    ultimately show ?thesis by (simp add: pages_def s_def)
  qed
  have "munmap (al + bytes) (span - (al - start) - bytes) ?vm2 =
      vm \<union> pages start span - pages start (al - start) - pages (al + bytes) (span - (al - start) - bytes)"
    unfolding hd using al(5) assms(2) by (simp add: munmap_def page_mask ab l_def mod_eq_0_iff_dvd)
  also have "\<dots> = vm \<union> pages al bytes"
  proof -
    have split: "pages start span - pages start (al - start) - pages (al + bytes) (span - (al - start) - bytes) = pages al bytes"
      using pages_split [of s a l n] al n assms(2,3)
      by (simp add: pages_def ab tl al(4) flip: s_def n_def a_def l_def)
    have sub: "pages start (al - start) \<subseteq> pages start span" "pages (al + bytes) (span - (al - start) - bytes) \<subseteq> pages start span"
      using al n by (auto simp: pages_def ab tl al(4) simp flip: s_def n_def a_def l_def intro: order.trans div_le_mono)
    show ?thesis using split sub assms(5) by (fold span_def) blast
  qed
  finally have vm3: "munmap (al + bytes) (span - (al - start) - bytes) ?vm2 = vm \<union> pages al bytes" .
  define buf where "buf = empty_buffer\<lparr>b_data := al, b_size := bytes, b_mapped := bytes,
    b_huge_requested := True, b_huge_granted := smaps_anon_huge_bytes smaps al\<rparr>"
  have "\<exists>touched. alloc_buffer vm (Some start) smaps bytes \<lparr>ao_huge_pages = True, ao_first_touch = ft\<rparr> =
      Inr (buf, vm \<union> pages al bytes, touched)"
    unfolding alloc_buffer_def Let_def option.case al_def [symmetric] span_def [symmetric] vm3 if_P [OF pos]
    using b(1) assms(1) by (simp add: buf_def)
  moreover have "b_data buf = al" "b_size buf = bytes" "b_mapped buf = bytes" "b_huge_requested buf"
    by (simp_all add: buf_def)
  ultimately show ?thesis using al by (intro exI [of _ buf]) (auto simp: s_def a_def)
qed

theorem alloc_buffer_huge_witness:
  "\<exists>buf touched. alloc_buffer {} (Some 0x7f0000001000) None kHugePage \<lparr>ao_huge_pages = True, ao_first_touch = True\<rparr> =
      Inr (buf, pages (b_data buf) kHugePage, touched) \<and> unat (b_data buf) mod 0x200000 = 0"
  using alloc_buffer_huge [of kHugePage "0x7f0000001000" "{}" None True] by auto

text \<open>
  A size that is not a whole number of pages makes the second trim fail: its address is not
  page aligned, so \<open>munmap\<close> refuses and the slack behind the buffer stays mapped.
\<close>

lemma unaligned_tail_leaks:
  "munmap (0x7f0000200000 + 0x200040) (kHugePage - 0x1ff000 - 0x40) vm = vm"
  by (simp add: munmap_def)

text \<open>
  Single ownership: moving, assigning and releasing buffers neither loses nor duplicates
  memory. What both buffers own afterwards together with what was returned is what they
  owned before, a moved-from or released buffer owns nothing, and a released resource is the
  one the buffer owned.
\<close>

theorem buffer_ownership:
  "(let (new, old) = buffer_move b in owned new = owned b \<and> owned old = [])
   \<and> (let (b', freed) = buffer_release b in owned b' = [] \<and> freed = owned b)
   \<and> (let (b', c', freed) = buffer_assign False b c in
        owned b' = owned c \<and> owned c' = [] \<and> freed = owned b
        \<and> mset (owned b' @ owned c' @ freed) = mset (owned b @ owned c))
   \<and> buffer_assign True b b = (b, b, [])"
  by (simp add: buffer_move_def buffer_release_def buffer_assign_def owned_def moved_from_def Let_def)

section \<open>Cold preparation does what it reports\<close>

text \<open>
  The recorded cold effect is what happens before each trial: \<open>clflush\<close> is only reported
  for a non-empty region that fits in a known last-level cache, and then preparation flushes
  the region; \<open>evict\<close> is only reported with a scratch buffer of the eviction size; a region
  too large to have been cached, or an empty one, is reported as not applicable, and then (as
  for mode \<open>none\<close>) preparation does nothing.
\<close>

theorem cold_effect_honest:
  assumes "cold_setup vm raw smaps cp mode l3_kb region = Inr (cp', vm')"
  shows "(cp_effect cp' = CE_clflush \<longleftrightarrow> mode = CM_clflush \<and> region \<noteq> 0 \<and>
          (l3_kb \<le> 0 \<or> push_bit 10 (word_of_int l3_kb :: u64) = 0 \<or> region \<le> push_bit 10 (word_of_int l3_kb)))
    \<and> (cp_effect cp' = CE_evict \<longleftrightarrow> mode = CM_evict)
    \<and> (cp_effect cp' = CE_none \<longleftrightarrow> mode = CM_none)
    \<and> (cp_effect cp' = CE_evict \<longrightarrow> b_size (cp_scratch cp') = evict_buffer_bytes l3_kb \<and> cp_bytes cp' = evict_buffer_bytes l3_kb)
    \<and> (cp_effect cp' = CE_clflush \<longrightarrow> cold_prepare opt scr cp' base region = (cp', flush_lines opt base region))
    \<and> (cp_effect cp' \<in> {CE_none, CE_not_applicable} \<longrightarrow> cold_prepare opt scr cp' base region = (cp', []))"
proof -
  have alloc: "alloc_buffer vm raw smaps n default_alloc = Inr (buf, vm', t) \<Longrightarrow> b_size buf = n" for vm n buf vm' t
    by (auto simp: alloc_buffer_def Let_def rbind_eq_Inr empty_buffer_def split: if_splits option.splits)
  show ?thesis
    using assms
    by (auto simp: cold_setup_def cold_prepare_def Let_def rbind_eq_Inr not_less word_neq_0_conv
        split: ColdMode.splits prod.splits if_splits dest!: alloc)
qed

theorem cold_effect_honest_witness:
  "\<exists>cp'. cold_setup {} None None \<lparr>cp_requested = CM_none, cp_effect = CE_none, cp_bytes = 0,
       cp_scratch = empty_buffer, cp_sink = 0\<rparr> CM_clflush 8 4096 = Inr (cp', {})
     \<and> cp_effect cp' = CE_clflush \<and> cold_prepare True [] cp' 0 4096 = (cp', flush_lines True 0 4096)"
proof -
  obtain cp' where r: "cold_setup {} None None \<lparr>cp_requested = CM_none, cp_effect = CE_none, cp_bytes = 0,
       cp_scratch = empty_buffer, cp_sink = 0\<rparr> CM_clflush 8 4096 = Inr (cp', {})"
    by (simp add: cold_setup_def buffer_assign_def buffer_release_def buffer_move_def empty_buffer_def)
  have "cp_effect cp' = CE_clflush" using cold_effect_honest [OF r] by simp
  then show ?thesis using r cold_effect_honest [OF r, of True "[]" 0] by auto
qed

end
