(* ===== verification/Ownership.thy ===== *)
theory Ownership
  imports Http Cache "HOL-Library.Multiset"
begin

text \<open>
  The classes of the engine that own a resource and return it in their destructor: the socket
  \<open>Fd\<close> of \<^verbatim>\<open>engine/src/http.cpp\<close>, the file \<open>Fd\<close> of \<^verbatim>\<open>engine/src/workloads/disk_io.cpp\<close> and
  \<^verbatim>\<open>disk_io.hpp\<close>, and \<open>Buffer\<close> of \<^verbatim>\<open>engine/src/cache.cpp\<close>. They cannot be copied, only moved. What such a
  class promises is the locale \<open>move_only\<close>; that the promise is enough is proved once, for any
  program over objects of the class, and each of the three classes interprets it.
\<close>

section \<open>Programs over move-only objects\<close>

text \<open>
  The members of a class: what a value owns (for the statements only), move construction,
  move assignment (told whether the two sides are the same object), the destructor, and the
  member that gives the resource back early, if the class has one.
\<close>

record ('h, 'r) move_class =
  mc_owns :: "'h \<Rightarrow> 'r list"
  mc_move :: "'h \<Rightarrow> 'h \<times> 'h"
  mc_assign :: "bool \<Rightarrow> 'h \<Rightarrow> 'h \<Rightarrow> 'h \<times> 'h \<times> 'r list"
  mc_destroy :: "'h \<Rightarrow> 'r list"
  mc_reset :: "('h \<Rightarrow> 'h \<times> 'r list) option"

datatype 'h own_op =
    Construct nat 'h          \<comment> \<open>a new object around a fresh resource, or an empty one\<close>
  | Move_construct nat nat    \<comment> \<open>\<open>T x(std::move(y))\<close>\<close>
  | Move_assign nat nat       \<comment> \<open>\<open>x = std::move(y)\<close>\<close>
  | Reset nat
  | Destroy nat

record ('h, 'r) own_state =
  os_objects :: "nat \<rightharpoonup> 'h"
  os_acquired :: "'r list"
  os_released :: "'r list"

definition own_start :: "('h, 'r) own_state" where
  "own_start = \<lparr>os_objects = Map.empty, os_acquired = [], os_released = []\<rparr>"

text \<open>One operation; \<open>None\<close> when the program uses an object that is not alive.\<close>

fun own_step :: "('h, 'r) move_class \<Rightarrow> ('h, 'r) own_state \<Rightarrow> 'h own_op \<Rightarrow> ('h, 'r) own_state option" where
  "own_step C s (Construct x h) =
     (if os_objects s x \<noteq> None then None
      else Some (s\<lparr>os_objects := (os_objects s)(x \<mapsto> h), os_acquired := mc_owns C h @ os_acquired s\<rparr>))"
| "own_step C s (Move_construct x y) =
     (case (os_objects s x, os_objects s y) of
        (None, Some b) \<Rightarrow>
          let (new, old) = mc_move C b in Some (s\<lparr>os_objects := (os_objects s)(x \<mapsto> new, y \<mapsto> old)\<rparr>)
      | _ \<Rightarrow> None)"
| "own_step C s (Move_assign x y) =
     (case (os_objects s x, os_objects s y) of
        (Some a, Some b) \<Rightarrow>
          let (a', b', freed) = mc_assign C (x = y) a b in
          Some (s\<lparr>os_objects := (if x = y then (os_objects s)(x \<mapsto> a') else (os_objects s)(x \<mapsto> a', y \<mapsto> b')),
            os_released := freed @ os_released s\<rparr>)
      | _ \<Rightarrow> None)"
| "own_step C s (Reset x) =
     (case (mc_reset C, os_objects s x) of
        (Some reset, Some a) \<Rightarrow>
          let (a', freed) = reset a in
          Some (s\<lparr>os_objects := (os_objects s)(x \<mapsto> a'), os_released := freed @ os_released s\<rparr>)
      | _ \<Rightarrow> None)"
| "own_step C s (Destroy x) =
     (case os_objects s x of
        None \<Rightarrow> None
      | Some a \<Rightarrow> Some (s\<lparr>os_objects := (os_objects s)(x := None), os_released := mc_destroy C a @ os_released s\<rparr>))"

fun own_run :: "('h, 'r) move_class \<Rightarrow> ('h, 'r) own_state \<Rightarrow> 'h own_op list \<Rightarrow> ('h, 'r) own_state option" where
  "own_run C s [] = Some s"
| "own_run C s (op # ops) = Option.bind (own_step C s op) (\<lambda>s'. own_run C s' ops)"

definition held :: "('h, 'r) move_class \<Rightarrow> (nat \<rightharpoonup> 'h) \<Rightarrow> 'r multiset" where
  "held C m = (\<Sum>x\<in>dom m. mset (mc_owns C (the (m x))))"

lemma held_split: "finite (dom m) \<Longrightarrow> m x = Some h \<Longrightarrow> held C m = mset (mc_owns C h) + held C (m(x := None))"
  unfolding held_def by (subst sum.remove [of _ x]) (auto intro!: sum.cong)

lemma held_update: "finite (dom m) \<Longrightarrow> held C (m(x \<mapsto> h)) = mset (mc_owns C h) + held C (m(x := None))"
  using held_split [of "m(x \<mapsto> h)" x h C] by simp

lemma held_absent: "m x = None \<Longrightarrow> held C (m(x := None)) = held C m"
  by (metis fun_upd_triv)

section \<open>The promise of a move-only class\<close>

locale move_only =
  fixes C :: "('h, 'r) move_class"
  assumes move_law: "mc_move C b = (new, old) \<Longrightarrow> mc_owns C new = mc_owns C b \<and> mc_owns C old = []"
    and assign_law: "mc_assign C False a b = (a', b', freed) \<Longrightarrow>
      mc_owns C a' = mc_owns C b \<and> mc_owns C b' = [] \<and> freed = mc_owns C a"
    and self_assign_law: "mc_assign C True a a = (a', b', freed) \<Longrightarrow> a' = a \<and> freed = []"
    and destroy_law: "mc_destroy C a = mc_owns C a"
    and reset_law: "mc_reset C = Some reset \<Longrightarrow> reset a = (a', freed) \<Longrightarrow> mc_owns C a' = [] \<and> freed = mc_owns C a"
begin

lemma step_conserves:
  assumes "own_step C s op = Some s'" "finite (dom (os_objects s))"
    and "mset (os_acquired s) = mset (os_released s) + held C (os_objects s)"
  shows "finite (dom (os_objects s')) \<and> mset (os_acquired s') = mset (os_released s') + held C (os_objects s')"
proof (cases op)
  case (Construct x h)
  then show ?thesis
    using assms by (auto simp: held_update held_absent split: if_splits)
next
  case (Move_construct x y)
  then obtain b new old where b: "os_objects s x = None" "os_objects s y = Some b" "mc_move C b = (new, old)"
      and s': "s' = s\<lparr>os_objects := (os_objects s)(x \<mapsto> new, y \<mapsto> old)\<rparr>"
    using assms(1) by (auto split: option.splits prod.splits)
  have xy: "x \<noteq> y" using b by auto
  have "held C ((os_objects s)(x \<mapsto> new, y \<mapsto> old)) =
      mset (mc_owns C old) + held C ((os_objects s)(x \<mapsto> new, y := None))"
    using assms(2) held_update [of "(os_objects s)(x \<mapsto> new)" C y old] by simp
  also have "held C ((os_objects s)(x \<mapsto> new, y := None)) = held C ((os_objects s)(y := None, x \<mapsto> new))"
    using xy by (simp add: fun_upd_twist)
  also have "\<dots> = mset (mc_owns C new) + held C ((os_objects s)(y := None))"
    using assms(2) b(1) xy by (simp add: held_update held_absent)
  also have "mset (mc_owns C old) + (mset (mc_owns C new) + held C ((os_objects s)(y := None)))
      = held C (os_objects s)"
    using move_law [OF b(3)] held_split [OF assms(2) b(2), of C] by simp
  finally show ?thesis using assms(2,3) unfolding s' by (simp del: fun_upd_apply)
next
  case (Move_assign x y)
  then obtain a b a' b' freed where b: "os_objects s x = Some a" "os_objects s y = Some b"
      "mc_assign C (x = y) a b = (a', b', freed)"
      and s': "s' = s\<lparr>os_objects := (if x = y then (os_objects s)(x \<mapsto> a') else (os_objects s)(x \<mapsto> a', y \<mapsto> b')),
        os_released := freed @ os_released s\<rparr>"
    using assms(1) by (auto split: option.splits prod.splits)
  show ?thesis
  proof (cases "x = y")
    case True
    then have "a' = a \<and> freed = []" using b self_assign_law [of a] by simp
    then show ?thesis using assms(2,3) True b(1) by (simp add: s' insert_absorb domI fun_upd_idem)
  next
    case False
    then have laws: "mc_owns C a' = mc_owns C b" "mc_owns C b' = []" "freed = mc_owns C a"
      using b(3) assign_law by simp_all
    let ?m = "(os_objects s)(x := None)"
    have "held C ((os_objects s)(x \<mapsto> a', y \<mapsto> b')) =
        mset (mc_owns C b') + held C ((os_objects s)(x \<mapsto> a', y := None))"
      using assms(2) held_update [of "(os_objects s)(x \<mapsto> a')" C y b'] by simp
    also have "held C ((os_objects s)(x \<mapsto> a', y := None)) = held C ((?m(y := None))(x \<mapsto> a'))"
      using False by (intro arg_cong [where f = "held C"]) (auto simp: fun_eq_iff)
    also have "held C ((?m(y := None))(x \<mapsto> a')) = mset (mc_owns C a') + held C (?m(y := None))"
      using assms(2) held_update [of "?m(y := None)" C x a'] False
      by (simp add: fun_upd_twist held_absent)
    also have "mset (mc_owns C b') + (mset (mc_owns C a') + held C (?m(y := None))) = held C ?m"
      using laws assms(2) b(2) False held_split [of ?m y b C] by simp
    finally have new: "held C ((os_objects s)(x \<mapsto> a', y \<mapsto> b')) = held C ?m" .
    have objects: "os_objects s' = (os_objects s)(x \<mapsto> a', y \<mapsto> b')" using False by (simp only: s') simp
    show ?thesis
      unfolding objects new
      using assms(2,3) held_split [OF assms(2) b(1), of C] laws by (simp add: s')
  qed
next
  case (Reset x)
  then obtain reset a a' freed where b: "mc_reset C = Some reset" "os_objects s x = Some a" "reset a = (a', freed)"
      and s': "s' = s\<lparr>os_objects := (os_objects s)(x \<mapsto> a'), os_released := freed @ os_released s\<rparr>"
    using assms(1) by (auto split: option.splits prod.splits)
  then show ?thesis
    using assms(2,3) reset_law [OF b(1,3)] held_split [OF assms(2) b(2), of C] by (simp add: s' held_update)
next
  case (Destroy x)
  then obtain a where b: "os_objects s x = Some a"
      and s': "s' = s\<lparr>os_objects := (os_objects s)(x := None), os_released := mc_destroy C a @ os_released s\<rparr>"
    using assms(1) by (auto split: option.splits)
  then show ?thesis
    using assms(2,3) destroy_law held_split [OF assms(2) b, of C] by simp
qed

lemma run_conserves:
  assumes "own_run C s ops = Some s'" "finite (dom (os_objects s))"
    and "mset (os_acquired s) = mset (os_released s) + held C (os_objects s)"
  shows "finite (dom (os_objects s')) \<and> mset (os_acquired s') = mset (os_released s') + held C (os_objects s')"
  using assms
proof (induction ops arbitrary: s)
  case (Cons op ops)
  then obtain a where a: "own_step C s op = Some a" "own_run C a ops = Some s'"
    by (auto split: bind_splits)
  show ?case using Cons.IH [OF a(2)] step_conserves [OF a(1) Cons.prems(2,3)] by blast
qed simp

end

text \<open>What follows for a whole program that starts with no object.\<close>

definition releases_once :: "('h, 'r) move_class \<Rightarrow> bool" where
  "releases_once C \<longleftrightarrow> (\<forall>ops s. own_run C own_start ops = Some s \<longrightarrow>
     mset (os_acquired s) = mset (os_released s) + held C (os_objects s)
     \<and> (os_objects s = Map.empty \<longrightarrow> mset (os_released s) = mset (os_acquired s))
     \<and> (distinct (os_acquired s) \<longrightarrow> distinct (os_released s)
         \<and> (\<forall>x a. os_objects s x = Some a \<longrightarrow> set (mc_owns C a) \<inter> set (os_released s) = {}
             \<and> (\<forall>y b. y \<noteq> x \<and> os_objects s y = Some b \<longrightarrow> set (mc_owns C a) \<inter> set (mc_owns C b) = {}))))"

lemma distinct_parts:
  assumes "mset xs = mset ys + A + B" "distinct xs"
  shows "distinct ys" "set_mset A \<inter> set ys = {}" "set_mset A \<inter> set_mset B = {}"
proof -
  have le: "count (mset ys) x + count A x + count B x \<le> 1" for x
    using assms by (metis count_union distinct_count_atmost_1 le_refl zero_le_one)
  have pos: "x \<in># M \<Longrightarrow> 1 \<le> count M x" for x and M :: "'a multiset"
    by (simp add: Suc_le_eq)
  have "count (mset ys) x = (if x \<in> set ys then 1 else 0)" for x
  proof (cases "x \<in> set ys")
    case True
    then have "1 \<le> count (mset ys) x" using pos [of x "mset ys"] by simp
    then have "count (mset ys) x = 1" using le [of x] by linarith
    then show ?thesis using True by simp
  qed (simp add: count_mset_0_iff)
  then show "distinct ys" by (simp add: distinct_count_atmost_1)
  show "set_mset A \<inter> set ys = {}"
  proof (rule ccontr)
    assume "set_mset A \<inter> set ys \<noteq> {}"
    then obtain x where "x \<in># A" "x \<in># mset ys" by auto
    then show False using le [of x] pos [of x A] pos [of x "mset ys"] by linarith
  qed
  show "set_mset A \<inter> set_mset B = {}"
  proof (rule ccontr)
    assume "set_mset A \<inter> set_mset B \<noteq> {}"
    then obtain x where "x \<in># A" "x \<in># B" by auto
    then show False using le [of x] pos [of x A] pos [of x B] by linarith
  qed
qed

context move_only
begin

lemma once: "releases_once C"
  unfolding releases_once_def
proof (intro allI impI)
  fix ops and s :: "('h, 'r) own_state"
  assume run: "own_run C own_start ops = Some s"
  have *: "finite (dom (os_objects s))" "mset (os_acquired s) = mset (os_released s) + held C (os_objects s)"
    using run_conserves [OF run] by (simp_all add: own_start_def held_def)
  have apart: "set (mc_owns C a) \<inter> set (os_released s) = {}
      \<and> (\<forall>y b. y \<noteq> x \<and> os_objects s y = Some b \<longrightarrow> set (mc_owns C a) \<inter> set (mc_owns C b) = {})"
    if "distinct (os_acquired s)" "os_objects s x = Some a" for x a
  proof -
    have e: "mset (os_acquired s) =
        mset (os_released s) + mset (mc_owns C a) + held C ((os_objects s)(x := None))"
      using *(2) held_split [OF *(1) that(2), of C] by simp
    have "set (mc_owns C b) \<subseteq> set_mset (held C ((os_objects s)(x := None)))"
      if "y \<noteq> x" "os_objects s y = Some b" for y b
      using held_split [of "(os_objects s)(x := None)" y b C] that *(1) by simp
    then show ?thesis using distinct_parts(2,3) [OF e that(1)] by (simp add: disjoint_iff) blast
  qed
  have "distinct (os_released s)" if "distinct (os_acquired s)"
    using distinct_parts(1) [of "os_acquired s" "os_released s" "held C (os_objects s)" "{#}"] *(2) that
    by simp
  with * apart show "mset (os_acquired s) = mset (os_released s) + held C (os_objects s)
     \<and> (os_objects s = Map.empty \<longrightarrow> mset (os_released s) = mset (os_acquired s))
     \<and> (distinct (os_acquired s) \<longrightarrow> distinct (os_released s)
         \<and> (\<forall>x a. os_objects s x = Some a \<longrightarrow> set (mc_owns C a) \<inter> set (os_released s) = {}
             \<and> (\<forall>y b. y \<noteq> x \<and> os_objects s y = Some b \<longrightarrow> set (mc_owns C a) \<inter> set (mc_owns C b) = {})))"
    by (simp add: held_def)
qed

end

section \<open>The three classes\<close>

text \<open>The file descriptor of the disk workloads; -1 is none.\<close>

definition file_fd_reset :: "int \<Rightarrow> int \<times> int list" where
  "file_fd_reset fd = (-1, if 0 \<le> fd then [fd] else [])"

definition file_fd_destroy :: "int \<Rightarrow> int list" where
  "file_fd_destroy fd = snd (file_fd_reset fd)"

definition file_fd_move :: "int \<Rightarrow> int \<times> int" where
  "file_fd_move other = (other, -1)"

definition file_fd_assign :: "bool \<Rightarrow> int \<Rightarrow> int \<Rightarrow> int \<times> int \<times> int list" where
  "file_fd_assign same self other =
     (if \<not> same then let (self', closed) = file_fd_reset self; self' = other; other' = -1 in (self', other', closed)
      else (self, other, []))"

text \<open>What a descriptor value owns.\<close>

definition descriptor :: "int \<Rightarrow> int list" where
  "descriptor fd = (if 0 \<le> fd then [fd] else [])"

definition file_fd :: "(int, int) move_class" where
  "file_fd = \<lparr>mc_owns = descriptor, mc_move = file_fd_move, mc_assign = file_fd_assign,
     mc_destroy = file_fd_destroy, mc_reset = Some file_fd_reset\<rparr>"

definition socket_fd :: "(int, int) move_class" where
  "socket_fd = \<lparr>mc_owns = descriptor, mc_move = fd_move, mc_assign = fd_move_assign,
     mc_destroy = fd_destroy, mc_reset = None\<rparr>"

definition buffer_class :: "(Buffer, resource) move_class" where
  "buffer_class = \<lparr>mc_owns = owned, mc_move = buffer_move, mc_assign = buffer_assign,
     mc_destroy = (\<lambda>b. snd (buffer_release b)), mc_reset = None\<rparr>"

interpretation file_fd: move_only file_fd
  by unfold_locales
    (auto simp: file_fd_def descriptor_def file_fd_move_def file_fd_assign_def file_fd_destroy_def
      file_fd_reset_def Let_def)

interpretation socket_fd: move_only socket_fd
  by unfold_locales
    (auto simp: socket_fd_def descriptor_def fd_move_def fd_move_assign_def fd_destroy_def fd_release_def)

interpretation buffer_class: move_only buffer_class
  by unfold_locales
    (auto simp: buffer_class_def buffer_move_def buffer_assign_def buffer_release_def moved_from_def owned_def
      Let_def split: if_splits)

text \<open>
  (C22) Nothing leaks and nothing is returned twice. For the two descriptor classes and for the
  buffers, and for every program that constructs, moves, assigns (also to itself), resets and
  destroys objects in any order: what was acquired is at every moment what has been returned plus
  what the living objects hold, so once all objects are destroyed each resource has been returned
  exactly once; and as long as the system hands out distinct resources, no two objects own the same
  one and no object owns one that has been returned.
\<close>

theorem resources_released_once:
  "releases_once file_fd \<and> releases_once socket_fd \<and> releases_once buffer_class"
  by (intro conjI file_fd.once socket_fd.once buffer_class.once)

text \<open>
  The life of a disk worker's descriptor: \<open>open_for\<close> assigns a fresh \<open>Fd\<close> to the member, the
  temporary dies, \<open>teardown\<close> resets the member, and the workload is destroyed.
\<close>

lemma worker_descriptor_closed_once:
  "map_option os_released (own_run file_fd own_start
     [Construct 0 (-1), Construct 1 7, Move_assign 0 1, Destroy 1, Reset 0, Destroy 0]) = Some [7]"
  by (simp add: own_start_def file_fd_def descriptor_def file_fd_assign_def file_fd_reset_def file_fd_destroy_def)

end
