(* ===== verification/Rounding.thy ===== *)
theory Rounding
  imports Prelude
begin

text \<open>
  Floating-point arithmetic of the engine. A finite IEEE-754 binary64 value is a real
  number; an operation of the code is the exact real operation followed by a rounding.
  The numeric definitions of the development take the arithmetic as their first argument,
  a record \<open>fp\<close>: its rounding, and whether the compiler contracts \<open>x * y + z\<close> into one
  fused operation (GCC does so for C++ at \<open>-O3 -march=native\<close>, and the standard allows
  both). \<open>ieee64 c\<close> is the machine (round to nearest, ties to even, 53 significant bits,
  gradual underflow), with contraction or without; \<open>exact_fp\<close> is exact arithmetic.
  Overflow to infinity is not modelled: the quantities the engine computes (rates,
  latencies, times) stay far below the largest double. Not-a-number results are values of
  a datatype where the code can return them.

  The locale \<open>fp_rounding\<close> is what the numeric components rely on of the rounding; it is
  interpreted on both.
\<close>

section \<open>Round to nearest, ties to even\<close>

definition rne :: "real \<Rightarrow> int" where
  "rne y = (let f = \<lfloor>y\<rfloor>; d = y - of_int f in
     if d < 1 / 2 then f else if 1 / 2 < d then f + 1 else if even f then f else f + 1)"

lemma rne_of_int [simp]: "rne (of_int k) = k"
  by (simp add: rne_def)

lemma rne_mono: "x \<le> y \<Longrightarrow> rne x \<le> rne y"
proof -
  assume le: "x \<le> y"
  then have fl: "\<lfloor>x\<rfloor> \<le> \<lfloor>y\<rfloor>" by (rule floor_mono)
  show ?thesis
  proof (cases "\<lfloor>x\<rfloor> = \<lfloor>y\<rfloor>")
    case True
    then show ?thesis using le by (auto simp: rne_def Let_def)
  next
    case False
    with fl have "\<lfloor>x\<rfloor> + 1 \<le> \<lfloor>y\<rfloor>" by simp
    moreover have "rne x \<le> \<lfloor>x\<rfloor> + 1" by (simp add: rne_def Let_def)
    moreover have "\<lfloor>y\<rfloor> \<le> rne y" by (simp add: rne_def Let_def)
    ultimately show ?thesis by linarith
  qed
qed

lemma rne_uminus: "rne (- x) = - rne x"
proof (cases "x \<in> \<int>")
  case True
  then obtain k where "x = of_int k" by (auto elim: Ints_cases)
  then have "- x = of_int (- k)" by simp
  then show ?thesis using \<open>x = of_int k\<close> rne_of_int by metis
next
  case False
  define f where "f = \<lfloor>x\<rfloor>"
  have nf: "\<lfloor>- x\<rfloor> = - f - 1"
    using False by (auto simp: f_def floor_minus ceiling_altdef) (metis Ints_of_int)
  have "- x - of_int (- f - 1) = 1 - (x - of_int f)" by simp
  then show ?thesis
    by (auto simp: rne_def Let_def nf f_def [symmetric])
qed

lemma rne_error: "\<bar>of_int (rne y) - y\<bar> \<le> 1 / 2"
proof -
  have "0 \<le> y - of_int \<lfloor>y\<rfloor>" and "y - of_int \<lfloor>y\<rfloor> < 1" by linarith+
  then show ?thesis unfolding rne_def Let_def by (simp split: if_splits; linarith)
qed

section \<open>Binary64\<close>

text \<open>The exponent of the binade of a non-zero \<open>x\<close>, clamped at the subnormal range.\<close>

definition expo :: "real \<Rightarrow> int" where
  "expo x = max \<lfloor>log 2 \<bar>x\<bar>\<rfloor> (- 1022)"

definition ulp :: "real \<Rightarrow> real" where
  "ulp x = 2 powi (expo x - 52)"

definition rnd64 :: "real \<Rightarrow> real" where
  "rnd64 x = (if x = 0 then 0 else of_int (rne (x / ulp x)) * ulp x)"

lemma ulp_pos [simp]: "0 < ulp x"
  by (simp add: ulp_def)

lemma ulp_neq_0 [simp]: "ulp x \<noteq> 0"
  using ulp_pos [of x] by (simp only: less_imp_neq [symmetric] not_False_eq_True)

lemma expo_uminus [simp]: "expo (- x) = expo x"
  by (simp add: expo_def)

lemma ulp_uminus [simp]: "ulp (- x) = ulp x"
  by (simp add: ulp_def)

lemma rnd64_0 [simp]: "rnd64 0 = 0"
  by (simp add: rnd64_def)

lemma rnd64_uminus: "rnd64 (- x) = - rnd64 x"
  by (simp add: rnd64_def rne_uminus)

lemma log2_floor_bounds:
  assumes "0 < x"
  shows "2 powi \<lfloor>log 2 x\<rfloor> \<le> x" and "x < 2 powi (\<lfloor>log 2 x\<rfloor> + 1)"
proof -
  have "(2::real) powi \<lfloor>log 2 x\<rfloor> = 2 powr of_int \<lfloor>log 2 x\<rfloor>"
    by (simp add: powr_real_of_int')
  also have "\<dots> \<le> 2 powr log 2 x" by (simp add: powr_mono)
  also have "\<dots> = x" using assms by simp
  finally show "2 powi \<lfloor>log 2 x\<rfloor> \<le> x" .
  have "x = 2 powr log 2 x" using assms by simp
  also have "\<dots> < 2 powr of_int (\<lfloor>log 2 x\<rfloor> + 1)"
    by (intro powr_less_mono) (linarith, simp)
  also have "\<dots> = 2 powi (\<lfloor>log 2 x\<rfloor> + 1)" using powr_real_of_int' [of 2 "\<lfloor>log 2 x\<rfloor> + 1"] by simp
  finally show "x < 2 powi (\<lfloor>log 2 x\<rfloor> + 1)" .
qed

lemma expo_upper: "0 < x \<Longrightarrow> x < 2 powi (expo x + 1)"
proof -
  assume x: "0 < x"
  have "2 powi (\<lfloor>log 2 x\<rfloor> + 1) \<le> (2::real) powi (expo x + 1)"
    using x by (intro power_int_increasing) (auto simp: expo_def)
  with log2_floor_bounds(2) [OF x] show ?thesis by linarith
qed

lemma expo_lower: "0 < x \<Longrightarrow> - 1022 < expo x \<Longrightarrow> 2 powi (expo x) \<le> x"
  using log2_floor_bounds(1) [of x] by (auto simp: expo_def max_def split: if_splits)

lemma expo_ge: "- 1022 \<le> expo x"
  by (simp add: expo_def)

lemma expo_mono: "0 < x \<Longrightarrow> x \<le> y \<Longrightarrow> expo x \<le> expo y"
proof -
  assume "0 < x" "x \<le> y"
  then have "\<lfloor>log 2 x\<rfloor> \<le> \<lfloor>log 2 y\<rfloor>" by (intro floor_mono) simp
  with \<open>0 < x\<close> \<open>x \<le> y\<close> show ?thesis by (auto simp: expo_def)
qed

lemma expo_le: "0 < x \<Longrightarrow> x < 2 powi (e + 1) \<Longrightarrow> - 1022 \<le> e \<Longrightarrow> expo x \<le> e"
proof -
  assume x: "0 < x" "x < 2 powi (e + 1)" and e: "- 1022 \<le> e"
  have "2 powi \<lfloor>log 2 x\<rfloor> < (2::real) powi (e + 1)"
    using log2_floor_bounds(1) [OF x(1)] x(2) by linarith
  then have "\<lfloor>log 2 x\<rfloor> < e + 1"
    by (meson linorder_not_less numeral_le_one_iff power_int_increasing one_le_numeral)
  with x e show ?thesis by (simp add: expo_def)
qed

text \<open>The representable numbers are the multiples \<open>k * 2\<^sup>e\<close> with a 53-bit \<open>k\<close>.\<close>

lemma two_powi_diff: "a \<le> b \<Longrightarrow> (2::real) powi b = of_int (2 ^ nat (b - a)) * 2 powi a"
proof -
  assume "a \<le> b"
  then have "(2::real) powi b = 2 powi (b - a) * 2 powi a"
    by (simp flip: power_int_add)
  also have "(2::real) powi (b - a) = 2 ^ nat (b - a)"
    using \<open>a \<le> b\<close> by (simp add: power_int_def)
  finally show ?thesis by simp
qed

lemma rnd64_exact_lt:
  assumes "0 < k" "k < 2 ^ 53" "- 1074 \<le> e"
  shows "rnd64 (of_int k * 2 powi e) = of_int k * 2 powi e"
proof -
  define x :: real where "x = of_int k * 2 powi e"
  have x: "0 < x" using assms by (simp add: x_def)
  have "x < 2 ^ 53 * 2 powi e"
    using assms by (simp add: x_def)
  also have "\<dots> = 2 powi (e + 52 + 1)"
    by (simp add: power_int_add add.commute)
  finally have "expo x \<le> e + 52" using x assms by (intro expo_le) auto
  then have "(2::real) powi e = of_int (2 ^ nat (e - (expo x - 52))) * ulp x"
    unfolding ulp_def by (intro two_powi_diff) simp
  then have "x = of_int (k * 2 ^ nat (e - (expo x - 52))) * ulp x"
    by (simp add: x_def mult.assoc)
  then have "x / ulp x = of_int (k * 2 ^ nat (e - (expo x - 52)))"
    using ulp_pos [of x] by (simp add: divide_eq_eq)
  then have "rne (x / ulp x) = k * 2 ^ nat (e - (expo x - 52))"
    by (metis rne_of_int)
  with \<open>x / ulp x = _\<close> have "rnd64 x = x / ulp x * ulp x" using x by (simp add: rnd64_def)
  also have "\<dots> = x" using ulp_pos [of x] by simp
  finally show ?thesis by (simp add: x_def)
qed

lemma rnd64_exact:
  assumes "\<bar>k\<bar> \<le> 2 ^ 53" "- 1074 \<le> e"
  shows "rnd64 (of_int k * 2 powi e) = of_int k * 2 powi e"
proof -
  have pos: "rnd64 (of_int k * 2 powi e) = of_int k * 2 powi e" if "0 < k" "k \<le> 2 ^ 53" for k
  proof (cases "k = 2 ^ 53")
    case True
    then have "(of_int k * 2 powi e :: real) = of_int (2 ^ 52) * 2 powi (e + 1)"
      by (simp add: power_int_add)
    then show ?thesis using rnd64_exact_lt [of "2 ^ 52" "e + 1"] assms by simp
  next
    case False
    then show ?thesis using rnd64_exact_lt that assms by simp
  qed
  consider "k = 0" | "0 < k" | "k < 0" by linarith
  then show ?thesis
  proof cases
    case 3
    then have "rnd64 (of_int (- k) * 2 powi e) = of_int (- k) * 2 powi e"
      using assms by (intro pos) auto
    then show ?thesis using rnd64_uminus [of "of_int k * 2 powi e"] by simp
  qed (use pos assms in auto)
qed

text \<open>The rounding of a positive number: a significand in the range of its binade.\<close>

lemma rnd64_pos:
  assumes "0 < x"
  obtains k where "rnd64 x = of_int k * ulp x" "k = rne (x / ulp x)" "0 \<le> k" "k \<le> 2 ^ 53"
    "- 1022 < expo x \<Longrightarrow> 2 ^ 52 \<le> k"
proof -
  have "x < 2 powi (expo x + 1)" by (rule expo_upper [OF assms])
  also have "\<dots> = 2 ^ 53 * ulp x"
    by (simp add: ulp_def power_int_add power_int_diff)
  finally have "x / ulp x \<le> of_int (2 ^ 53)" using ulp_pos [of x] by (simp add: field_simps)
  then have up: "rne (x / ulp x) \<le> 2 ^ 53" by (metis rne_mono rne_of_int)
  have "of_int 0 \<le> x / ulp x" using assms less_imp_le [OF ulp_pos [of x]] by simp
  then have lo: "0 \<le> rne (x / ulp x)" by (metis rne_mono rne_of_int)
  have norm: "2 ^ 52 \<le> rne (x / ulp x)" if "- 1022 < expo x"
  proof -
    have "2 ^ 52 * ulp x = 2 powi expo x" by (simp add: ulp_def power_int_diff)
    also have "\<dots> \<le> x" by (rule expo_lower [OF assms that])
    finally have "of_int (2 ^ 52) \<le> x / ulp x" using ulp_pos [of x] by (simp add: field_simps)
    then show ?thesis by (metis rne_mono rne_of_int)
  qed
  show thesis
    using that [of "rne (x / ulp x)"] assms up lo norm by (auto simp: rnd64_def)
qed

lemma rnd64_form:
  obtains k e where "rnd64 x = of_int k * 2 powi e" "\<bar>k\<bar> \<le> 2 ^ 53" "- 1074 \<le> e"
proof -
  have pos: "\<exists>k e. rnd64 x = of_int k * 2 powi e \<and> \<bar>k\<bar> \<le> 2 ^ 53 \<and> - 1074 \<le> e" if x: "0 < x" for x
  proof -
    obtain k where "rnd64 x = of_int k * ulp x" "0 \<le> k" "k \<le> 2 ^ 53"
      using rnd64_pos [OF x] by blast
    moreover have "- 1074 \<le> expo x - 52" using expo_ge [of x] by simp
    ultimately show ?thesis by (auto simp: ulp_def intro!: exI)
  qed
  have "\<exists>k e. rnd64 x = of_int k * 2 powi e \<and> \<bar>k\<bar> \<le> 2 ^ 53 \<and> - 1074 \<le> e"
  proof (cases "x < 0")
    case True
    then obtain k e where "rnd64 (- x) = of_int k * 2 powi e" "\<bar>k\<bar> \<le> 2 ^ 53" "- 1074 \<le> e"
      using pos [of "- x"] by auto
    then have "rnd64 x = of_int (- k) * 2 powi e" "\<bar>- k\<bar> \<le> 2 ^ 53" "- 1074 \<le> e"
      by (simp_all add: rnd64_uminus)
    then show ?thesis by blast
  next
    case False
    show ?thesis
    proof (cases "x = 0")
      case True
      then show ?thesis by (intro exI [of _ 0]) simp
    qed (use False pos in simp)
  qed
  then show thesis using that by blast
qed

lemma rnd64_idem: "rnd64 (rnd64 x) = rnd64 x"
  by (metis rnd64_form rnd64_exact)

lemma rnd64_nonneg: "0 \<le> x \<Longrightarrow> 0 \<le> rnd64 x"
proof (cases "x = 0")
  case False
  assume "0 \<le> x"
  with False obtain k where "rnd64 x = of_int k * ulp x" "0 \<le> k"
    using rnd64_pos [of x] by (metis less_le)
  then show ?thesis using less_imp_le [OF ulp_pos [of x]] by simp
qed simp

lemma rnd64_mono_pos:
  assumes "0 < x" "x \<le> y"
  shows "rnd64 x \<le> rnd64 y"
proof (cases "expo x = expo y")
  case True
  have "x / ulp x \<le> y / ulp x" using assms less_imp_le [OF ulp_pos [of x]] by (simp add: divide_right_mono)
  then have "rne (x / ulp x) \<le> rne (y / ulp x)" by (rule rne_mono)
  then show ?thesis using assms True by (simp add: rnd64_def ulp_def)
next
  case False
  with expo_mono [OF assms] have lt: "expo x + 1 \<le> expo y" by simp
  with expo_ge [of x] have ny: "- 1022 < expo y" by simp
  obtain k where k: "rnd64 x = of_int k * ulp x" "k \<le> 2 ^ 53" using rnd64_pos [OF assms(1)] by blast
  obtain m where m: "rnd64 y = of_int m * ulp y" "2 ^ 52 \<le> m"
    using rnd64_pos [of y] assms ny by (metis order_less_le_trans)
  have "of_int k * ulp x \<le> of_int (2 ^ 53) * ulp x"
    using k(2) ulp_pos [of x] by (simp only: mult_le_cancel_right_pos of_int_le_iff)
  also have "\<dots> = 2 powi (expo x + 1)" by (simp add: ulp_def power_int_add power_int_diff)
  also have "\<dots> \<le> 2 powi expo y" using lt by (intro power_int_increasing) auto
  also have "\<dots> = of_int (2 ^ 52) * ulp y" by (simp add: ulp_def power_int_diff)
  also have "\<dots> \<le> of_int m * ulp y"
    using m(2) ulp_pos [of y] by (simp only: mult_le_cancel_right_pos of_int_le_iff)
  finally show ?thesis using k m by simp
qed

lemma rnd64_mono: "x \<le> y \<Longrightarrow> rnd64 x \<le> rnd64 y"
proof -
  assume le: "x \<le> y"
  consider "0 < x" | "x \<le> 0" "0 \<le> y" | "y < 0" using le by linarith
  then show ?thesis
  proof cases
    case 2
    then have "rnd64 x \<le> 0" using rnd64_nonneg [of "- x"] by (simp add: rnd64_uminus)
    with rnd64_nonneg [OF 2(2)] show ?thesis by simp
  next
    case 3
    then show ?thesis using rnd64_mono_pos [of "- y" "- x"] le by (simp add: rnd64_uminus)
  qed (use rnd64_mono_pos le in blast)
qed

lemma rnd64_nat: "n \<le> 2 ^ 53 \<Longrightarrow> rnd64 (real n) = real n"
  using rnd64_exact [of "int n" 0] by simp

text \<open>The fractional part of a non-negative double is a double.\<close>

lemma rnd64_frac:
  assumes "rnd64 x = x" "0 \<le> x"
  shows "rnd64 (x - of_int \<lfloor>x\<rfloor>) = x - of_int \<lfloor>x\<rfloor>"
proof -
  obtain k e where x: "x = of_int k * 2 powi e" "\<bar>k\<bar> \<le> 2 ^ 53" "- 1074 \<le> e"
    using rnd64_form [of x] assms by metis
  then have k0: "0 \<le> k" using assms(2) by (simp add: zero_le_mult_iff) (metis not_le zero_less_numeral zero_less_power_int)
  show ?thesis
  proof (cases "0 \<le> e")
    case True
    then have "x = of_int (k * 2 ^ nat e)" by (simp add: x power_int_def)
    then show ?thesis by (metis diff_self floor_of_int rnd64_0)
  next
    case False
    define m where "m = (2::int) ^ nat (- e)"
    have e: "(2::real) powi e = 1 / of_int m"
      using False by (simp add: m_def power_int_def power_inverse field_simps)
    have "x = of_int k / of_int m" by (simp add: x e)
    then have "\<lfloor>x\<rfloor> = k div m" by (simp add: floor_divide_of_int_eq)
    moreover have "of_int k / of_int m - of_int (k div m) = (of_int (k mod m) / of_int m :: real)"
    proof -
      have "(of_int k :: real) = of_int (k div m) * of_int m + of_int (k mod m)"
        by (metis div_mult_mod_eq of_int_add of_int_mult)
      then show ?thesis by (simp add: m_def field_simps)
    qed
    ultimately have "x - of_int \<lfloor>x\<rfloor> = of_int (k mod m) * 2 powi e"
      using \<open>x = of_int k / of_int m\<close> by (simp add: e)
    moreover have "0 \<le> k mod m" "k mod m \<le> k"
      using k0 by (auto simp: m_def intro: pos_mod_sign zmod_le_nonneg_dividend)
    then have "\<bar>k mod m\<bar> \<le> 2 ^ 53" using x by linarith
    ultimately show ?thesis using rnd64_exact x(3) by simp
  qed
qed

text \<open>
  Linear interpolation never overshoots: for doubles \<open>a \<le> b\<close> and a double fraction
  \<open>f < 1\<close>, the rounded product of the rounded difference and \<open>f\<close> is at most the exact
  difference. A difference of doubles in the subnormal range is exact; elsewhere a
  difference that was rounded up to \<open>k * ulp\<close> is above \<open>(k - 1) * ulp\<close>, and
  \<open>k * ulp * f\<close> rounds to that at most.
\<close>

lemma rnd64_lt_1:
  assumes "rnd64 f = f" "f < 1"
  shows "f \<le> 1 - 1 / 2 ^ 53"
proof (cases "1 / 2 \<le> f")
  case True
  have "\<lfloor>log 2 f\<rfloor> = - 1"
  proof (rule floor_unique)
    have "log 2 (1 / 2) \<le> log 2 f" using True by simp
    then show "of_int (- 1) \<le> log 2 f" by (simp add: log_divide)
    have "log 2 f < log 2 1" using True assms by (subst log_less_cancel_iff) auto
    then show "log 2 f < of_int (- 1) + 1" by simp
  qed
  then have ex: "expo f = - 1" using True by (simp add: expo_def)
  have u: "ulp f = 1 / 2 ^ 53" by (simp add: ulp_def ex power_int_def power_one_over)
  have "0 < f" using True by simp
  then obtain k where k: "f = of_int k * ulp f" using rnd64_pos [of f] assms by metis
  have "of_int k < (2 ^ 53 :: real)" using k assms(2) by (simp add: u field_simps)
  then have "k < 2 ^ 53" by (metis of_int_less_iff of_int_numeral of_int_power)
  then have "of_int k \<le> (2 ^ 53 - 1 :: real)"
    by (metis (no_types, opaque_lifting) of_int_1 of_int_diff of_int_le_iff of_int_numeral of_int_power zle_diff1_eq)
  then show ?thesis using k by (simp add: u field_simps)
next
  case False
  then show ?thesis by simp
qed

lemma subnormal_diff_exact:
  assumes "rnd64 a = a" "rnd64 b = b" "a \<le> b" "b - a < 2 powi (- 1021)"
  shows "rnd64 (b - a) = b - a"
proof -
  have mult: "\<exists>m. x = of_int m * 2 powi (- 1074)" if rx: "rnd64 x = x" for x
  proof -
    obtain k e where "x = of_int k * 2 powi e" "- 1074 \<le> e" using rnd64_form [of x] rx by metis
    then have "x = of_int (k * 2 ^ nat (e - (- 1074))) * 2 powi (- 1074)"
      using two_powi_diff [of "- 1074" e] by (simp add: mult.assoc)
    then show ?thesis by blast
  qed
  obtain m n where "a = of_int m * 2 powi (- 1074)" "b = of_int n * 2 powi (- 1074)"
    using mult assms by blast
  then have d: "b - a = of_int (n - m) * 2 powi (- 1074)" by (simp add: left_diff_distrib)
  have "(2::real) powi (- 1021) = 2 ^ 53 * 2 powi (- 1074)"
    using power_int_add [of "2::real" 53 "- 1074"] by simp
  with assms(4) have "of_int (n - m) * 2 powi (- 1074) < 2 ^ 53 * (2::real) powi (- 1074)"
    by (simp only: d)
  then have "of_int (n - m) < (2 ^ 53 :: real)"
    by (simp only: mult_less_cancel_right_pos zero_less_power_int zero_less_numeral)
  then have "n - m < 2 ^ 53" by (metis of_int_less_iff of_int_numeral of_int_power)
  moreover have "0 \<le> of_int (n - m) * (2::real) powi (- 1074)" using assms(3) d by linarith
  then have "0 \<le> n - m" by (simp add: zero_le_mult_iff)
  ultimately show ?thesis unfolding d by (intro rnd64_exact) auto
qed

lemma rnd64_below_grid:
  assumes ex: "- 1022 < expo d" and k: "2 ^ 52 < k" "k \<le> 2 ^ 53"
    and kf: "of_int k * f < of_int k - 1 / 2"
  shows "rnd64 (of_int k * f * ulp d) \<le> of_int (k - 1) * ulp d"
proof (cases "of_int k * f * ulp d \<le> of_int (k - 1) * ulp d")
  case True
  have "rnd64 (of_int (k - 1) * ulp d) = of_int (k - 1) * ulp d"
    unfolding ulp_def using k ex by (intro rnd64_exact) auto
  with rnd64_mono [OF True] show ?thesis by simp
next
  case False
  define y where "y = of_int k * f * ulp d"
  have u0: "0 < ulp d" by simp
  have "2 powi expo d = of_int (2 ^ 52) * ulp d" by (simp add: ulp_def power_int_diff)
  also have "\<dots> \<le> of_int (k - 1) * ulp d"
    using k u0 by (simp only: mult_le_cancel_right_pos of_int_le_iff)
  finally have lo: "2 powi expo d < y" using False unfolding y_def by linarith
  then have y0: "0 < y" by (meson order_less_trans zero_less_numeral zero_less_power_int)
  have "of_int k * f < of_int k" using kf by linarith
  then have "y < of_int k * ulp d" unfolding y_def using u0 by (rule mult_strict_right_mono)
  also have "\<dots> \<le> of_int (2 ^ 53) * ulp d"
    using k(2) u0 by (simp only: mult_le_cancel_right_pos of_int_le_iff)
  also have "\<dots> = 2 powi (expo d + 1)" by (simp add: ulp_def power_int_add power_int_diff)
  finally have "expo y \<le> expo d" using y0 ex by (intro expo_le) auto
  moreover have "expo d \<le> expo y"
  proof (rule ccontr)
    assume "\<not> expo d \<le> expo y"
    then have "2 powi (expo y + 1) \<le> (2::real) powi expo d" by (intro power_int_increasing) auto
    with expo_upper [OF y0] lo show False by linarith
  qed
  ultimately have uy: "ulp y = ulp d" by (simp add: ulp_def)
  have q: "y / ulp y = of_int k * f" unfolding uy by (simp add: y_def)
  have "of_int (k - 1) \<le> of_int k * f"
    using False u0 by (simp add: not_le mult_less_cancel_right_pos)
  then have "\<lfloor>of_int k * f\<rfloor> = k - 1" using kf by (intro floor_unique) auto
  then have "rne (y / ulp y) = k - 1" using kf by (simp add: q rne_def)
  then show ?thesis using y0 by (simp add: rnd64_def uy flip: y_def)
qed

lemma rnd64_rounded_up:
  assumes "0 < d" "d < rnd64 d" "- 1022 < expo d"
  obtains k where "rnd64 d = of_int k * ulp d" "2 ^ 52 < k" "k \<le> 2 ^ 53"
    "(of_int k - 1 / 2) * ulp d \<le> d"
proof -
  obtain k where k: "rnd64 d = of_int k * ulp d" "k = rne (d / ulp d)" "2 ^ 52 \<le> k" "k \<le> 2 ^ 53"
    using rnd64_pos [OF assms(1)] assms(3) by metis
  have "k \<noteq> 2 ^ 52"
  proof
    assume "k = 2 ^ 52"
    then have "rnd64 d = 2 powi expo d" by (simp add: k(1) ulp_def power_int_diff)
    with expo_lower [OF assms(1,3)] assms(2) show False by simp
  qed
  moreover have "of_int k - 1 / 2 \<le> d / ulp d"
    using rne_error [of "d / ulp d"] unfolding k(2) by linarith
  then have "(of_int k - 1 / 2) * ulp d \<le> d" by (simp only: pos_le_divide_eq ulp_pos)
  ultimately show thesis using that [of k] k by simp
qed

lemma lerp_rounded_up:
  assumes "rnd64 a = a" "rnd64 b = b" "a \<le> b" "rnd64 f = f" "f < 1" "b - a < rnd64 (b - a)"
  obtains k where "rnd64 (b - a) = of_int k * ulp (b - a)" "2 ^ 52 < k" "k \<le> 2 ^ 53"
    "- 1022 < expo (b - a)" "(of_int k - 1 / 2) * ulp (b - a) \<le> b - a"
    "of_int k * f < of_int k - 1 / 2"
proof -
  define d where "d = b - a"
  have d0: "0 < d" using assms by (cases "d = 0") (auto simp: d_def)
  have "2 powi (- 1021) \<le> d"
    using subnormal_diff_exact [OF assms(1-3)] assms by (fastforce simp: d_def)
  then have ex: "- 1022 < expo d"
    using expo_upper [OF d0] expo_ge [of d] by (cases "expo d = - 1022") auto
  obtain k where k: "rnd64 d = of_int k * ulp d" "2 ^ 52 < k" "k \<le> 2 ^ 53"
      "(of_int k - 1 / 2) * ulp d \<le> d"
    using rnd64_rounded_up [OF d0 _ ex] assms unfolding d_def by metis
  have "f \<le> 1 - 1 / 2 ^ 53" using rnd64_lt_1 assms by blast
  then have "of_int k * f \<le> of_int k * (1 - 1 / 2 ^ 53)" using k by (intro mult_left_mono) auto
  also have "\<dots> < of_int k - 1 / 2" using k(2) by (simp add: field_simps)
  finally show thesis using that [of k] k ex unfolding d_def by blast
qed

lemma rnd64_lerp_fused:
  assumes "rnd64 a = a" "rnd64 b = b" "a \<le> b" "rnd64 f = f" "0 \<le> f" "f < 1"
  shows "rnd64 (b - a) * f \<le> b - a"
proof (cases "rnd64 (b - a) \<le> b - a")
  case True
  have "rnd64 (b - a) * f \<le> rnd64 (b - a)"
    using assms rnd64_nonneg [of "b - a"] by (simp add: mult_left_le)
  with True show ?thesis by linarith
next
  case False
  then obtain k where k: "rnd64 (b - a) = of_int k * ulp (b - a)"
      "(of_int k - 1 / 2) * ulp (b - a) \<le> b - a" "of_int k * f < of_int k - 1 / 2"
    using lerp_rounded_up [OF assms(1-4,6)] by (metis not_le)
  have "of_int k * f * ulp (b - a) \<le> (of_int k - 1 / 2) * ulp (b - a)"
    using k(3) by (intro mult_right_mono) (auto intro: less_imp_le)
  also have "\<dots> \<le> b - a" by (rule k(2))
  finally show ?thesis unfolding k(1) by (simp add: mult_ac)
qed

lemma rnd64_lerp:
  assumes "rnd64 a = a" "rnd64 b = b" "a \<le> b" "rnd64 f = f" "0 \<le> f" "f < 1"
  shows "rnd64 (rnd64 (b - a) * f) \<le> b - a"
proof (cases "rnd64 (b - a) \<le> b - a")
  case True
  have "rnd64 (b - a) * f \<le> rnd64 (b - a)"
    using assms rnd64_nonneg [of "b - a"] by (simp add: mult_left_le)
  then have "rnd64 (rnd64 (b - a) * f) \<le> rnd64 (b - a)"
    using rnd64_mono rnd64_idem by metis
  with True show ?thesis by linarith
next
  case False
  then obtain k where k: "rnd64 (b - a) = of_int k * ulp (b - a)" "2 ^ 52 < k" "k \<le> 2 ^ 53"
      "- 1022 < expo (b - a)" "(of_int k - 1 / 2) * ulp (b - a) \<le> b - a"
      "of_int k * f < of_int k - 1 / 2"
    using lerp_rounded_up [OF assms(1-4,6)] by (metis not_le)
  have "rnd64 (of_int k * f * ulp (b - a)) \<le> of_int (k - 1) * ulp (b - a)"
    by (rule rnd64_below_grid [OF k(4,2,3,6)])
  also have "\<dots> \<le> (of_int k - 1 / 2) * ulp (b - a)"
    by (intro mult_right_mono) (auto intro: less_imp_le)
  also have "\<dots> \<le> b - a" by (rule k(5))
  finally show ?thesis unfolding k(1) by (simp add: mult_ac)
qed

section \<open>What the numeric code relies on\<close>

locale fp_rounding =
  fixes rnd :: "real \<Rightarrow> real"
  assumes rnd_mono: "x \<le> y \<Longrightarrow> rnd x \<le> rnd y"
    and rnd_idem: "rnd (rnd x) = rnd x"
    and rnd_nat: "n \<le> 2 ^ 53 \<Longrightarrow> rnd (real n) = real n"
    and rnd_minus: "rnd (- x) = - rnd x"
    and rnd_frac: "rnd x = x \<Longrightarrow> 0 \<le> x \<Longrightarrow> rnd (x - of_int \<lfloor>x\<rfloor>) = x - of_int \<lfloor>x\<rfloor>"
    and rnd_lerp: "rnd a = a \<Longrightarrow> rnd b = b \<Longrightarrow> a \<le> b \<Longrightarrow> rnd f = f \<Longrightarrow> 0 \<le> f \<Longrightarrow> f < 1 \<Longrightarrow>
      rnd (rnd (b - a) * f) \<le> b - a"
    and rnd_lerp_fused: "rnd a = a \<Longrightarrow> rnd b = b \<Longrightarrow> a \<le> b \<Longrightarrow> rnd f = f \<Longrightarrow> 0 \<le> f \<Longrightarrow> f < 1 \<Longrightarrow>
      rnd (b - a) * f \<le> b - a"
begin

lemma rnd_0: "rnd 0 = 0"
  using rnd_nat [of 0] by simp

lemma rnd_1: "rnd 1 = 1"
  using rnd_nat [of 1] by simp

lemma rnd_ge_0: "0 \<le> x \<Longrightarrow> 0 \<le> rnd x"
  using rnd_mono [of 0 x] rnd_0 by simp

lemma rnd_le_1: "x \<le> 1 \<Longrightarrow> rnd x \<le> 1"
  using rnd_mono [of x 1] rnd_1 by simp

lemma rnd_le_nat: "x \<le> real n \<Longrightarrow> n \<le> 2 ^ 53 \<Longrightarrow> rnd x \<le> real n"
  using rnd_mono [of x "real n"] rnd_nat by simp

end

interpretation ieee: fp_rounding rnd64
  by unfold_locales
    (blast intro: rnd64_mono rnd64_idem rnd64_nat rnd64_uminus rnd64_frac rnd64_lerp rnd64_lerp_fused)+

interpretation exact: fp_rounding "\<lambda>x. x"
  by unfold_locales (auto simp: mult_left_le)

section \<open>The arithmetic of the compiled program\<close>

record fp =
  rnd :: "real \<Rightarrow> real"
  contract :: bool

definition ieee64 :: "bool \<Rightarrow> fp" where
  "ieee64 c = \<lparr>rnd = rnd64, contract = c\<rparr>"

definition exact_fp :: fp where
  "exact_fp = \<lparr>rnd = (\<lambda>x. x), contract = False\<rparr>"

text \<open>\<open>x * y + z\<close>: one rounding when contracted, two otherwise.\<close>

definition madd :: "fp \<Rightarrow> real \<Rightarrow> real \<Rightarrow> real \<Rightarrow> real" where
  "madd A x y z = (if contract A then rnd A (x * y + z) else rnd A (rnd A (x * y) + z))"

lemma rnd_ieee64 [simp]: "rnd (ieee64 c) = rnd64"
  by (simp add: ieee64_def)

lemma rnd_exact_fp [simp]: "rnd exact_fp x = x"
  by (simp add: exact_fp_def)

lemma madd_exact_fp [simp]: "madd exact_fp x y z = x * y + z"
  by (simp add: madd_def exact_fp_def)

locale fp_arith = fp_rounding "rnd A" for A :: fp
begin

lemma madd_nonneg: "0 \<le> x * y \<Longrightarrow> 0 \<le> z \<Longrightarrow> 0 \<le> madd A x y z"
  by (simp add: madd_def rnd_ge_0)

lemma madd_mono: "x * y \<le> x' * y' \<Longrightarrow> z \<le> z' \<Longrightarrow> madd A x y z \<le> madd A x' y' z'"
  by (auto simp: madd_def intro!: rnd_mono add_mono)

text \<open>Interpolating between two doubles stays between them.\<close>

lemma lerp_bounds:
  assumes "rnd A a = a" "rnd A b = b" "a \<le> b" "rnd A f = f" "0 \<le> f" "f < 1"
  shows "a \<le> madd A (rnd A (b - a)) f a" and "madd A (rnd A (b - a)) f a \<le> b"
proof -
  have p: "0 \<le> rnd A (b - a) * f" using assms by (simp add: rnd_ge_0)
  then have q: "0 \<le> rnd A (rnd A (b - a) * f)" by (rule rnd_ge_0)
  have "rnd A a \<le> madd A (rnd A (b - a)) f a"
    using p q unfolding madd_def by (auto intro!: rnd_mono)
  with assms show "a \<le> madd A (rnd A (b - a)) f a" by simp
  have "madd A (rnd A (b - a)) f a \<le> rnd A b"
    using rnd_lerp [OF assms] rnd_lerp_fused [OF assms] unfolding madd_def by (auto intro!: rnd_mono)
  with assms show "madd A (rnd A (b - a)) f a \<le> b" by simp
qed

end

interpretation machine: fp_arith "ieee64 c" for c
  using ieee.fp_rounding_axioms by (simp add: fp_arith_def)

interpretation exact_arith: fp_arith exact_fp
  using exact.fp_rounding_axioms by (simp add: fp_arith_def exact_fp_def)

end
