(* ===== verification/Metric.thy ===== *)
theory Metric
  imports Rounding
begin

text \<open>
  \<^verbatim>\<open>engine/include/bench/metric.hpp\<close> and \<^verbatim>\<open>engine/src/metric.cpp\<close>: the normative enums of
  workloads, metrics and units, their printed names and parsers, and the rule that turns
  a trial's work units and wall time into the metric's value. The \<open>return "?"\<close> after each
  \<open>switch\<close> of the source is unreachable for a value of the enum.
\<close>

section \<open>Enums\<close>

datatype Workload =
    W_cpu_int | W_cpu_fp | W_cpu_hash | W_mem_bw | W_mem_latency | W_disk_seq | W_disk_rand

datatype Metric =
    M_cpu_int_ops | M_cpu_fp_ops | M_cpu_hash_ops
  | M_mem_read_bw | M_mem_write_bw | M_mem_copy_bw | M_mem_latency
  | M_disk_seq_read_bw | M_disk_seq_write_bw
  | M_disk_rand_read_iops | M_disk_rand_write_iops | M_disk_rand_read_p99_us

datatype Unit = U_ops_per_s | U_gb_per_s | U_ns | U_mb_per_s | U_iops | U_us

datatype WorkUnit = WU_ops | WU_bytes | WU_loads | WU_ios

datatype ValueRule =
    units_per_s | giga_units_per_s | mega_units_per_s | ns_per_unit | latency_p99_us

definition kAllWorkloads :: "Workload list" where
  "kAllWorkloads =
     [W_cpu_int, W_cpu_fp, W_cpu_hash, W_mem_bw, W_mem_latency, W_disk_seq, W_disk_rand]"

definition kAllMetrics :: "Metric list" where
  "kAllMetrics =
     [M_cpu_int_ops, M_cpu_fp_ops, M_cpu_hash_ops, M_mem_read_bw, M_mem_write_bw,
      M_mem_copy_bw, M_mem_latency, M_disk_seq_read_bw, M_disk_seq_write_bw,
      M_disk_rand_read_iops, M_disk_rand_write_iops, M_disk_rand_read_p99_us]"

definition kAllUnits :: "Unit list" where
  "kAllUnits = [U_ops_per_s, U_gb_per_s, U_ns, U_mb_per_s, U_iops, U_us]"

fun workload_to_string :: "Workload \<Rightarrow> string" where
  "workload_to_string W_cpu_int = ''cpu_int''"
| "workload_to_string W_cpu_fp = ''cpu_fp''"
| "workload_to_string W_cpu_hash = ''cpu_hash''"
| "workload_to_string W_mem_bw = ''mem_bw''"
| "workload_to_string W_mem_latency = ''mem_latency''"
| "workload_to_string W_disk_seq = ''disk_seq''"
| "workload_to_string W_disk_rand = ''disk_rand''"

fun metric_to_string :: "Metric \<Rightarrow> string" where
  "metric_to_string M_cpu_int_ops = ''cpu_int_ops''"
| "metric_to_string M_cpu_fp_ops = ''cpu_fp_ops''"
| "metric_to_string M_cpu_hash_ops = ''cpu_hash_ops''"
| "metric_to_string M_mem_read_bw = ''mem_read_bw''"
| "metric_to_string M_mem_write_bw = ''mem_write_bw''"
| "metric_to_string M_mem_copy_bw = ''mem_copy_bw''"
| "metric_to_string M_mem_latency = ''mem_latency''"
| "metric_to_string M_disk_seq_read_bw = ''disk_seq_read_bw''"
| "metric_to_string M_disk_seq_write_bw = ''disk_seq_write_bw''"
| "metric_to_string M_disk_rand_read_iops = ''disk_rand_read_iops''"
| "metric_to_string M_disk_rand_write_iops = ''disk_rand_write_iops''"
| "metric_to_string M_disk_rand_read_p99_us = ''disk_rand_read_p99_us''"

fun unit_to_string :: "Unit \<Rightarrow> string" where
  "unit_to_string U_ops_per_s = ''ops/s''"
| "unit_to_string U_gb_per_s = ''GB/s''"
| "unit_to_string U_ns = ''ns''"
| "unit_to_string U_mb_per_s = ''MB/s''"
| "unit_to_string U_iops = ''IOPS''"
| "unit_to_string U_us = ''us''"

fun workunit_to_string :: "WorkUnit \<Rightarrow> string" where
  "workunit_to_string WU_ops = ''ops''"
| "workunit_to_string WU_bytes = ''bytes''"
| "workunit_to_string WU_loads = ''loads''"
| "workunit_to_string WU_ios = ''ios''"

section \<open>Parsing\<close>

fun parse_enum :: "('e \<Rightarrow> string) \<Rightarrow> 'e list \<Rightarrow> string \<Rightarrow> 'e option" where
  "parse_enum to_str [] s = None"
| "parse_enum to_str (e # es) s = (if to_str e = s then Some e else parse_enum to_str es s)"

definition parse_workload :: "string \<Rightarrow> Workload option" where
  "parse_workload s = parse_enum workload_to_string kAllWorkloads s"

definition parse_metric :: "string \<Rightarrow> Metric option" where
  "parse_metric s = parse_enum metric_to_string kAllMetrics s"

definition parse_unit :: "string \<Rightarrow> Unit option" where
  "parse_unit s = parse_enum unit_to_string kAllUnits s"

section \<open>Tables\<close>

fun unit_of :: "Metric \<Rightarrow> Unit" where
  "unit_of M_cpu_int_ops = U_ops_per_s"
| "unit_of M_cpu_fp_ops = U_ops_per_s"
| "unit_of M_cpu_hash_ops = U_ops_per_s"
| "unit_of M_mem_read_bw = U_gb_per_s"
| "unit_of M_mem_write_bw = U_gb_per_s"
| "unit_of M_mem_copy_bw = U_gb_per_s"
| "unit_of M_mem_latency = U_ns"
| "unit_of M_disk_seq_read_bw = U_mb_per_s"
| "unit_of M_disk_seq_write_bw = U_mb_per_s"
| "unit_of M_disk_rand_read_iops = U_iops"
| "unit_of M_disk_rand_write_iops = U_iops"
| "unit_of M_disk_rand_read_p99_us = U_us"

fun workload_of :: "Metric \<Rightarrow> Workload" where
  "workload_of M_cpu_int_ops = W_cpu_int"
| "workload_of M_cpu_fp_ops = W_cpu_fp"
| "workload_of M_cpu_hash_ops = W_cpu_hash"
| "workload_of M_mem_read_bw = W_mem_bw"
| "workload_of M_mem_write_bw = W_mem_bw"
| "workload_of M_mem_copy_bw = W_mem_bw"
| "workload_of M_mem_latency = W_mem_latency"
| "workload_of M_disk_seq_read_bw = W_disk_seq"
| "workload_of M_disk_seq_write_bw = W_disk_seq"
| "workload_of M_disk_rand_read_iops = W_disk_rand"
| "workload_of M_disk_rand_write_iops = W_disk_rand"
| "workload_of M_disk_rand_read_p99_us = W_disk_rand"

definition lower_is_better :: "Metric \<Rightarrow> bool" where
  "lower_is_better m \<longleftrightarrow> m = M_mem_latency \<or> m = M_disk_rand_read_p99_us"

fun work_unit_of :: "Metric \<Rightarrow> WorkUnit" where
  "work_unit_of M_cpu_int_ops = WU_ops"
| "work_unit_of M_cpu_fp_ops = WU_ops"
| "work_unit_of M_cpu_hash_ops = WU_ops"
| "work_unit_of M_mem_read_bw = WU_bytes"
| "work_unit_of M_mem_write_bw = WU_bytes"
| "work_unit_of M_mem_copy_bw = WU_bytes"
| "work_unit_of M_disk_seq_read_bw = WU_bytes"
| "work_unit_of M_disk_seq_write_bw = WU_bytes"
| "work_unit_of M_mem_latency = WU_loads"
| "work_unit_of M_disk_rand_read_iops = WU_ios"
| "work_unit_of M_disk_rand_write_iops = WU_ios"
| "work_unit_of M_disk_rand_read_p99_us = WU_ios"

fun value_rule_of :: "Metric \<Rightarrow> ValueRule" where
  "value_rule_of M_cpu_int_ops = units_per_s"
| "value_rule_of M_cpu_fp_ops = units_per_s"
| "value_rule_of M_cpu_hash_ops = units_per_s"
| "value_rule_of M_disk_rand_read_iops = units_per_s"
| "value_rule_of M_disk_rand_write_iops = units_per_s"
| "value_rule_of M_mem_read_bw = giga_units_per_s"
| "value_rule_of M_mem_write_bw = giga_units_per_s"
| "value_rule_of M_mem_copy_bw = giga_units_per_s"
| "value_rule_of M_disk_seq_read_bw = mega_units_per_s"
| "value_rule_of M_disk_seq_write_bw = mega_units_per_s"
| "value_rule_of M_mem_latency = ns_per_unit"
| "value_rule_of M_disk_rand_read_p99_us = latency_p99_us"

section \<open>The value of a trial\<close>

text \<open>\<open>static_cast<double>\<close> of a 64-bit count rounds; the constants are exact doubles.\<close>

definition value_from_units :: "fp \<Rightarrow> Metric \<Rightarrow> u64 \<Rightarrow> u64 \<Rightarrow> int \<Rightarrow> real" where
  "value_from_units A m units elapsed_ns threads =
     (if units = 0 \<or> elapsed_ns = 0 \<or> threads < 1 then 0
      else
        let u = rnd A (real (unat units)); ns = rnd A (real (unat elapsed_ns)) in
        (case value_rule_of m of
           units_per_s \<Rightarrow> rnd A (u / rnd A (ns / 10 ^ 9))
         | giga_units_per_s \<Rightarrow> rnd A (u / ns)
         | mega_units_per_s \<Rightarrow> rnd A (rnd A (u / ns) * 10 ^ 3)
         | ns_per_unit \<Rightarrow> rnd A (ns / rnd A (u / rnd A (of_int threads)))
         | latency_p99_us \<Rightarrow> 0))"

section \<open>Lemmas\<close>

lemma parse_enum_Some: "parse_enum f es s = Some e \<Longrightarrow> e \<in> set es \<and> f e = s"
  by (induction es) (auto split: if_splits)

lemma parse_enum_inj: "e \<in> set es \<Longrightarrow> inj_on f (set es) \<Longrightarrow> parse_enum f es (f e) = Some e"
  by (induction es) (auto simp: inj_on_def)

lemma set_kAllWorkloads: "set kAllWorkloads = UNIV"
  unfolding kAllWorkloads_def using Workload.exhaust by auto

lemma set_kAllMetrics: "set kAllMetrics = UNIV"
  unfolding kAllMetrics_def using Metric.exhaust by auto

lemma set_kAllUnits: "set kAllUnits = UNIV"
  unfolding kAllUnits_def using Unit.exhaust by auto

lemma inj_workload_to_string: "inj workload_to_string"
proof (rule injI)
  fix x y assume "workload_to_string x = workload_to_string y"
  then show "x = y" by (cases x; cases y) simp_all
qed

lemma inj_metric_to_string: "inj metric_to_string"
proof (rule injI)
  fix x y assume "metric_to_string x = metric_to_string y"
  then show "x = y" by (cases x; cases y) simp_all
qed

lemma inj_unit_to_string: "inj unit_to_string"
proof (rule injI)
  fix x y assume "unit_to_string x = unit_to_string y"
  then show "x = y" by (cases x; cases y) simp_all
qed

lemma parse_workload_to_string [simp]: "parse_workload (workload_to_string w) = Some w"
  by (simp add: parse_workload_def parse_enum_inj set_kAllWorkloads inj_workload_to_string)

lemma parse_metric_to_string [simp]: "parse_metric (metric_to_string m) = Some m"
  by (simp add: parse_metric_def parse_enum_inj set_kAllMetrics inj_metric_to_string)

lemma parse_unit_to_string [simp]: "parse_unit (unit_to_string u) = Some u"
  by (simp add: parse_unit_def parse_enum_inj set_kAllUnits inj_unit_to_string)

text \<open>
  The parsers accept exactly the printed names: a name parses to an enumerator if and
  only if it is that enumerator's printed form, for workloads, metrics and units.
\<close>

theorem parse_iff_to_string:
  "(parse_workload s = Some w \<longleftrightarrow> s = workload_to_string w)
   \<and> (parse_metric s = Some m \<longleftrightarrow> s = metric_to_string m)
   \<and> (parse_unit s = Some u \<longleftrightarrow> s = unit_to_string u)"
  using parse_enum_Some [of workload_to_string kAllWorkloads s w]
    parse_enum_Some [of metric_to_string kAllMetrics s m]
    parse_enum_Some [of unit_to_string kAllUnits s u]
  by (metis parse_metric_def parse_metric_to_string parse_unit_def parse_unit_to_string
      parse_workload_def parse_workload_to_string)

context fp_arith begin

lemma value_from_units_nonneg: "0 \<le> value_from_units A m units ns threads"
  by (cases "value_rule_of m") (auto simp: value_from_units_def Let_def rnd_ge_0)

end

text \<open>
  The reported value means what the metric says, in exact arithmetic: a rate is units
  per second (in the metric's scale), so it is additive in the units counted by the
  threads; a latency is the wall time of one thread's loads, so \<open>k\<close> threads that each
  perform \<open>u\<close> loads in \<open>ns\<close> nanoseconds report the latency one thread would.
\<close>

theorem value_from_units_meaning:
  assumes "0 < u" "0 < v" "0 < ns" "0 < k" "unat u + unat v < 2 ^ 64" "k * unat u < 2 ^ 64"
  shows "(value_rule_of m = ns_per_unit \<longrightarrow>
      value_from_units exact_fp m (of_nat k * u) ns (int k) = real (unat ns) / real (unat u))
    \<and> (value_rule_of m \<noteq> ns_per_unit \<longrightarrow>
      value_from_units exact_fp m (u + v) ns t =
      value_from_units exact_fp m u ns t + value_from_units exact_fp m v ns t)
    \<and> (value_rule_of m = units_per_s \<and> 1 \<le> t \<longrightarrow>
      value_from_units exact_fp m u ns t = real (unat u) * 10 ^ 9 / real (unat ns))"
proof (intro conjI impI)
  have pos: "0 < unat u" "0 < unat v" "0 < unat ns" using assms by (auto simp: word_less_nat_alt)
  have un: "unat (u + v) = unat u + unat v" using assms by (simp add: unat_add_lt)
  have nz: "u + v \<noteq> 0" using pos un by (metis add_is_0 less_numeral_extra(3) unat_0)
  show "value_from_units exact_fp m (u + v) ns t =
      value_from_units exact_fp m u ns t + value_from_units exact_fp m v ns t"
    if "value_rule_of m \<noteq> ns_per_unit"
    using that nz assms by (cases "value_rule_of m")
      (simp_all add: value_from_units_def un add_divide_distrib distrib_right del: of_nat_unat)
  show "value_from_units exact_fp m u ns t = real (unat u) * 10 ^ 9 / real (unat ns)"
    if "value_rule_of m = units_per_s \<and> 1 \<le> t"
    using that assms by (simp add: value_from_units_def)
  have "k \<le> k * unat u" using pos by simp
  then have "k < 2 ^ 64" using assms by linarith
  then have ku: "unat (of_nat k * u) = k * unat u"
    using assms by (subst unat_mult_lt) (simp_all add: unat_of_nat_lt)
  have "of_nat k * u \<noteq> 0" using ku pos assms by (metis mult_is_0 less_numeral_extra(3) unat_0)
  then show "value_from_units exact_fp m (of_nat k * u) ns (int k) = real (unat ns) / real (unat u)"
    if "value_rule_of m = ns_per_unit"
    using that ku assms by (simp add: value_from_units_def del: of_nat_unat)
qed

theorem value_from_units_meaning_witness:
  "value_from_units exact_fp M_mem_latency (of_nat 4 * 10) 1000 (int 4) = real (unat (1000 :: u64)) / real (unat (10 :: u64))"
  using value_from_units_meaning [of 10 5 1000 4 M_mem_latency 1] by simp

end
