(* ===== verification/Timing.thy ===== *)
theory Timing
  imports Rounding
begin

text \<open>
  \<^verbatim>\<open>engine/src/timing.cpp\<close>, \<^verbatim>\<open>timing.hpp\<close>: the stopwatch, the self-test of the clock source
  and the busy spin. The steady clock is an argument: \<open>clk k\<close> is what the \<open>k\<close>-th call of
  \<open>Clock::now()\<close> returns, in nanoseconds. Operations that call the clock take the index of
  their first call. \<open>getres\<close> is what \<open>clock_getres\<close> fills in, \<open>None\<close> when it fails.
\<close>

type_synonym clock = "nat \<Rightarrow> int"

section \<open>Operations\<close>

definition ns_between :: "int \<Rightarrow> int \<Rightarrow> u64" where
  "ns_between a b = word_of_int (b - a)"

text \<open>The stopwatch is its start time.\<close>

definition timer_elapsed_ns :: "clock \<Rightarrow> nat \<Rightarrow> int \<Rightarrow> u64" where
  "timer_elapsed_ns clk k start = ns_between start (clk k)"

definition timer_elapsed_s :: "fp \<Rightarrow> clock \<Rightarrow> nat \<Rightarrow> int \<Rightarrow> real" where
  "timer_elapsed_s A clk k start = rnd A (rnd A (real (unat (timer_elapsed_ns clk k start))) / 10 ^ 9)"

definition clock_resolution_ns :: "(u64 \<times> u64) option \<Rightarrow> u64" where
  "clock_resolution_ns getres =
     (case getres of None \<Rightarrow> 0 | Some (tv_sec, tv_nsec) \<Rightarrow> tv_sec * 1000000000 + tv_nsec)"

record ClockCheck =
  cc_resolution_ns :: u64
  cc_mean_call_ns :: real
  cc_max_call_ns :: u64
  cc_min_call_ns :: u64
  cc_samples :: u64
  cc_elapsed_ns :: u64
  cc_monotonic :: bool
  cc_ok :: bool

definition kMaxMeanCallNs :: real where
  "kMaxMeanCallNs = 100"

definition contention_ratio :: "fp \<Rightarrow> ClockCheck \<Rightarrow> real" where
  "contention_ratio A c =
     (if cc_min_call_ns c = 0 then 1
      else rnd A (cc_mean_call_ns c / rnd A (real (unat (cc_min_call_ns c)))))"

text \<open>The variables of the sampling loop.\<close>

record selftest =
  st_monotonic :: bool
  st_max :: u64
  st_min :: u64
  st_prev :: int
  st_total :: u64
  st_taken :: nat

definition selftest_start :: "clock \<Rightarrow> selftest" where
  "selftest_start clk =
     \<lparr>st_monotonic = True, st_max = 0, st_min = 0, st_prev = clk 1, st_total = 0, st_taken = 0\<rparr>"

definition selftest_sample :: "clock \<Rightarrow> selftest \<Rightarrow> nat \<Rightarrow> selftest" where
  "selftest_sample clk s k =
     (let now = clk k; d = ns_between (st_prev s) now in
      \<lparr>st_monotonic = (if now < st_prev s then False else st_monotonic s),
       st_max = max (st_max s) d,
       st_min = (if st_taken s = 0 then d else min (st_min s) d),
       st_prev = now, st_total = st_total s + d, st_taken = st_taken s + 1\<rparr>)"

text \<open>\<open>rest\<close> iterations are left, \<open>i\<close> is the loop index, \<open>k\<close> the index of the next clock call.\<close>

fun selftest_loop :: "clock \<Rightarrow> bool \<Rightarrow> int \<Rightarrow> nat \<Rightarrow> nat \<Rightarrow> nat \<Rightarrow> selftest \<Rightarrow> selftest" where
  "selftest_loop clk capped deadline 0 i k s = s"
| "selftest_loop clk capped deadline (Suc rest) i k s =
     (let s' = selftest_sample clk s k in
      if capped \<and> i AND 1023 = 1023 \<and> deadline \<le> clk k then s'
      else selftest_loop clk capped deadline rest (Suc i) (Suc k) s')"

definition clock_selftest ::
  "fp \<Rightarrow> clock \<Rightarrow> (u64 \<times> u64) option \<Rightarrow> int \<Rightarrow> int \<Rightarrow> ClockCheck" where
  "clock_selftest A clk getres samples max_window =
     (let samples = (if samples < 2 then 2 else samples);
          begin = clk 1;
          capped = 0 < max_window;
          deadline = begin + 1000 * max_window;
          s = selftest_loop clk capped deadline (nat samples) 0 2 (selftest_start clk);
          mean_call = rnd A (rnd A (real (unat (st_total s))) / rnd A (real (st_taken s)))
      in \<lparr>cc_resolution_ns = clock_resolution_ns getres, cc_mean_call_ns = mean_call,
          cc_max_call_ns = st_max s, cc_min_call_ns = st_min s,
          cc_samples = of_nat (st_taken s), cc_elapsed_ns = ns_between begin (st_prev s),
          cc_monotonic = st_monotonic s, cc_ok = (st_monotonic s \<and> mean_call \<le> kMaxMeanCallNs)\<rparr>)"

text \<open>
  The busy spin: the result is the number of clock calls made and the final value of the
  scrambled \<open>x\<close>; a spin that never ends is \<open>None\<close>.
\<close>

definition lcg :: "u64 \<Rightarrow> u64" where
  "lcg x = x * 6364136223846793005 + 1442695040888963407"

partial_function (option) spin_until :: "clock \<Rightarrow> int \<Rightarrow> nat \<Rightarrow> u64 \<Rightarrow> (nat \<times> u64) option" where
  "spin_until clk stop k x =
     (if clk k < stop then spin_until clk stop (Suc k) ((lcg ^^ 1000) x) else Some (Suc k, x))"

definition busy_spin :: "clock \<Rightarrow> int \<Rightarrow> (nat \<times> u64) option" where
  "busy_spin clk ms =
     (if ms \<le> 0 then Some (0, 1) else spin_until clk (clk 0 + 1000000 * ms) 1 1)"

section \<open>The self-test reports what the clock did\<close>

lemma selftest_loop_fold:
  "\<exists>n\<le>rest. (0 < rest \<longrightarrow> 0 < n) \<and> (\<not> capped \<longrightarrow> n = rest)
     \<and> selftest_loop clk capped deadline rest i k s = foldl (selftest_sample clk) s [k..<k + n]"
proof (induction rest arbitrary: i k s)
  case (Suc rest)
  show ?case
  proof (cases "capped \<and> i AND 1023 = 1023 \<and> deadline \<le> clk k")
    case True
    then show ?thesis by (intro exI [of _ 1]) (simp add: Let_def)
  next
    case False
    obtain n where n: "n \<le> rest" "\<not> capped \<longrightarrow> n = rest"
      "selftest_loop clk capped deadline rest (Suc i) (Suc k) (selftest_sample clk s k) =
         foldl (selftest_sample clk) (selftest_sample clk s k) [Suc k..<Suc k + n]"
      using Suc.IH by blast
    moreover have "[k..<k + Suc n] = k # [Suc k..<Suc k + n]" by (simp add: upt_conv_Cons)
    ultimately show ?thesis
      using False by (intro exI [of _ "Suc n"]) (auto simp: Let_def simp del: upt_Suc)
  qed
qed simp

lemma ns_between_le: "a \<le> b \<Longrightarrow> b - a < 2 ^ 64 \<Longrightarrow> int (unat (ns_between a b)) = b - a"
  unfolding ns_between_def using uint_word_of_int_eq [of "b - a", where ?'a = 64]
  by (simp add: of_nat_unat take_bit_int_eq_self_iff del: of_int_diff)

lemma selftest_fold:
  fixes clk :: clock and n :: nat
  defines "s \<equiv> foldl (selftest_sample clk) (selftest_start clk) [2..<2 + n]"
  shows "st_taken s = n" and "st_prev s = clk (n + 1)"
    and "st_monotonic s \<longleftrightarrow> (\<forall>i<n. clk (i + 1) \<le> clk (i + 2))"
  unfolding s_def
  by (induction n) (auto simp: selftest_start_def selftest_sample_def Let_def less_Suc_eq not_less)

lemma selftest_fold_bounds:
  fixes clk :: clock and n :: nat
  defines "s \<equiv> foldl (selftest_sample clk) (selftest_start clk) [2..<2 + n]"
  assumes "\<forall>i<n. clk (i + 1) \<le> clk (i + 2)" "clk (n + 1) - clk 1 < 2 ^ 64"
  shows "int (unat (st_total s)) = clk (n + 1) - clk 1
    \<and> int (n * unat (st_min s)) \<le> clk (n + 1) - clk 1
    \<and> clk (n + 1) - clk 1 \<le> int (n * unat (st_max s)) \<and> clk 1 \<le> clk (n + 1)"
  unfolding s_def using assms(2,3)
proof (induction n)
  case 0
  then show ?case by (simp add: selftest_start_def)
next
  case (Suc n)
  define s where "s = foldl (selftest_sample clk) (selftest_start clk) [2..<2 + n]"
  define d where "d = ns_between (clk (n + 1)) (clk (n + 2))"
  have le: "clk (n + 1) \<le> clk (n + 2)" using Suc.prems(1) by simp
  have IH: "int (unat (st_total s)) = clk (n + 1) - clk 1" "int (n * unat (st_min s)) \<le> clk (n + 1) - clk 1"
      "clk (n + 1) - clk 1 \<le> int (n * unat (st_max s))" "clk 1 \<le> clk (n + 1)"
    using Suc le unfolding s_def by auto
  have d: "int (unat d) = clk (n + 2) - clk (n + 1)"
    unfolding d_def using le IH(4) Suc.prems(2) by (intro ns_between_le) auto
  have st: "foldl (selftest_sample clk) (selftest_start clk) [2..<2 + Suc n] =
      \<lparr>st_monotonic = st_monotonic s, st_max = max (st_max s) d,
       st_min = (if n = 0 then d else min (st_min s) d),
       st_prev = clk (n + 2), st_total = st_total s + d, st_taken = n + 1\<rparr>"
  proof -
    have "[2..<2 + Suc n] = [2..<2 + n] @ [n + 2]" by simp
    then show ?thesis
      using le selftest_fold(1,2) [where n = n and clk = clk, folded s_def]
      by (simp only: foldl_append foldl.simps s_def [symmetric]) (simp add: selftest_sample_def d_def Let_def)
  qed
  have tot: "int (unat (st_total s)) + int (unat d) = clk (n + 2) - clk 1" using IH(1) d by simp
  then have "int (unat (st_total s) + unat d) < int (2 ^ 64)" using Suc.prems(2) by simp
  then have "unat (st_total s + d) = unat (st_total s) + unat d"
    unfolding of_nat_less_iff by (intro unat_add_lt) simp
  moreover have "int (Suc n * unat (if n = 0 then d else min (st_min s) d)) \<le> clk (n + 2) - clk 1"
  proof (cases "n = 0")
    case False
    have "n * unat (min (st_min s) d) \<le> n * unat (st_min s)" by (simp add: unat_min)
    moreover have "unat (min (st_min s) d) \<le> unat d" by (simp add: unat_min)
    ultimately have "Suc n * unat (min (st_min s) d) \<le> n * unat (st_min s) + unat d" by (simp only: mult_Suc)
    then show ?thesis using False IH(2) d by (simp only: if_False)
  qed (use d in simp)
  moreover have "clk (n + 2) - clk 1 \<le> int (Suc n * unat (max (st_max s) d))"
  proof -
    have "n * unat (st_max s) \<le> n * unat (max (st_max s) d)" by (simp add: unat_max)
    moreover have "unat d \<le> unat (max (st_max s) d)" by (simp add: unat_max)
    ultimately have "n * unat (st_max s) + unat d \<le> Suc n * unat (max (st_max s) d)" by (simp only: mult_Suc)
    then show ?thesis using IH(3) d by linarith
  qed
  ultimately show ?case unfolding st using tot IH(4) le by (simp only: selftest.select_convs) simp
qed

text \<open>
  The self-test of the clock: it takes at least one and at most the requested number of
  samples (exactly that many without a time cap), its monotonicity flag is true exactly when
  no reading of the window went backwards, and then the window it reports is the true
  distance of its first and last reading, the mean is that window divided by the number of
  samples, and the smallest and largest call cost bound it.
\<close>

theorem clock_selftest_sound:
  fixes A clk getres samples max_window
  defines "c \<equiv> clock_selftest A clk getres samples max_window"
  assumes "samples < 2 ^ 31" "\<forall>i j. clk i - clk j < 2 ^ 64"
  shows "\<exists>n. unat (cc_samples c) = n \<and> 0 < n \<and> int n \<le> max 2 samples
    \<and> (max_window \<le> 0 \<longrightarrow> int n = max 2 samples)
    \<and> (cc_monotonic c \<longleftrightarrow> (\<forall>i<n. clk (i + 1) \<le> clk (i + 2)))
    \<and> (cc_monotonic c \<longrightarrow> int (unat (cc_elapsed_ns c)) = clk (n + 1) - clk 1
        \<and> cc_mean_call_ns c = rnd A (rnd A (of_int (clk (n + 1) - clk 1)) / rnd A (real n))
        \<and> n * unat (cc_min_call_ns c) \<le> unat (cc_elapsed_ns c)
        \<and> unat (cc_elapsed_ns c) \<le> n * unat (cc_max_call_ns c))
    \<and> (cc_ok c \<longleftrightarrow> cc_monotonic c \<and> cc_mean_call_ns c \<le> 100)"
proof -
  define N where "N = nat (if samples < 2 then 2 else samples)"
  have N: "0 < N" "int N = max 2 samples" "N < 2 ^ 31" using assms(2) by (auto simp: N_def)
  obtain n where n: "n \<le> N" "0 < n" "\<not> 0 < max_window \<longrightarrow> n = N"
    and lp: "selftest_loop clk (0 < max_window) (clk 1 + 1000 * max_window) N 0 2 (selftest_start clk) =
      foldl (selftest_sample clk) (selftest_start clk) [2..<2 + n]"
    using selftest_loop_fold [of N "0 < max_window" clk "clk 1 + 1000 * max_window" 0 2] N(1) by metis
  define s where "s = foldl (selftest_sample clk) (selftest_start clk) [2..<2 + n]"
  note sf = selftest_fold [where n = n and clk = clk, folded s_def]
  have mean: "cc_mean_call_ns c = rnd A (rnd A (real (unat (st_total s))) / rnd A (real n))"
    and flds: "cc_samples c = of_nat n" "cc_elapsed_ns c = ns_between (clk 1) (clk (n + 1))"
      "cc_monotonic c = st_monotonic s" "cc_min_call_ns c = st_min s" "cc_max_call_ns c = st_max s"
      "cc_ok c \<longleftrightarrow> cc_monotonic c \<and> cc_mean_call_ns c \<le> 100"
    unfolding c_def clock_selftest_def Let_def N_def [symmetric] lp s_def [symmetric]
    using sf(1,2) by (simp_all add: kMaxMeanCallNs_def)
  have "unat (cc_samples c) = n" using flds(1) n(1) N(3) by (simp add: u64_of_nat)
  moreover have "int (unat (cc_elapsed_ns c)) = clk (n + 1) - clk 1
        \<and> cc_mean_call_ns c = rnd A (rnd A (of_int (clk (n + 1) - clk 1)) / rnd A (real n))
        \<and> n * unat (cc_min_call_ns c) \<le> unat (cc_elapsed_ns c)
        \<and> unat (cc_elapsed_ns c) \<le> n * unat (cc_max_call_ns c)" if "cc_monotonic c"
  proof -
    have mono: "\<forall>i<n. clk (i + 1) \<le> clk (i + 2)" using that flds(3) sf(3) by simp
    note b = selftest_fold_bounds [where n = n and clk = clk, folded s_def, OF mono]
    have e: "int (unat (cc_elapsed_ns c)) = clk (n + 1) - clk 1"
      using b assms(3) by (simp only: flds(2) ns_between_le)
    moreover have "real (unat (st_total s)) = of_int (clk (n + 1) - clk 1)"
      using b assms(3) by (metis of_int_of_nat_eq)
    moreover have "n * unat (cc_min_call_ns c) \<le> unat (cc_elapsed_ns c)"
        "unat (cc_elapsed_ns c) \<le> n * unat (cc_max_call_ns c)"
      using b assms(3) flds(4,5) e by (metis of_nat_le_iff)+
    ultimately show ?thesis using mean by (intro conjI) simp_all
  qed
  ultimately show ?thesis using n N(2) flds(3,6) sf(3) by (intro exI [of _ n]) auto
qed

theorem clock_selftest_sound_witness:
  "\<exists>n. unat (cc_samples (clock_selftest exact_fp (\<lambda>k. if k < 10 then 25 * int k else 250) None 3 0)) = n
    \<and> int n = 3 \<and> (\<forall>i<n. 25 * int (i + 1) \<le> 25 * int (i + 2))"
proof -
  let ?clk = "\<lambda>k. if k < 10 then 25 * int k else 250"
  have "\<forall>i j. ?clk i - ?clk j < 2 ^ 64" by auto
  then show ?thesis using clock_selftest_sound [of 3 ?clk exact_fp None 0] by auto
qed

section \<open>The busy spin ends\<close>

lemma spin_until_first:
  assumes "stop \<le> clk (k + n)" "\<And>i. i < n \<Longrightarrow> clk (k + i) < stop"
  shows "\<exists>y. spin_until clk stop k x = Some (Suc (k + n), y)"
  using assms
proof (induction n arbitrary: k x)
  case 0
  then show ?case by (subst spin_until.simps) simp
next
  case (Suc n)
  have "clk k < stop" using Suc.prems(2) [of 0] by simp
  moreover have "\<And>i. i < n \<Longrightarrow> clk (Suc k + i) < stop" using Suc.prems(2) [of "Suc _"] by simp
  then have "\<exists>y. spin_until clk stop (Suc k) ((lcg ^^ 1000) x) = Some (Suc (Suc k + n), y)"
    using Suc.prems(1) by (intro Suc.IH) simp_all
  ultimately show ?case by (subst spin_until.simps) simp
qed

text \<open>
  The busy spin returns whenever the clock eventually reaches the requested time, and
  it returns at the first reading that does: it spins for at least the requested
  milliseconds, and never reads the clock again afterwards. A spin of zero or a negative
  time does not read the clock at all.
\<close>

theorem busy_spin_returns:
  assumes "0 < ms \<longrightarrow> (\<exists>k>0. clk 0 + 1000000 * ms \<le> clk k)"
  shows "\<exists>calls x. busy_spin clk ms = Some (calls, x) \<and>
    (if ms \<le> 0 then calls = 0
     else 1 < calls \<and> clk 0 + 1000000 * ms \<le> clk (calls - 1)
       \<and> (\<forall>i. 0 < i \<and> i < calls - 1 \<longrightarrow> clk i < clk 0 + 1000000 * ms))"
proof (cases "ms \<le> 0")
  case False
  define stop where "stop = clk 0 + 1000000 * ms"
  define n where "n = (LEAST n. stop \<le> clk (1 + n))"
  have ex: "\<exists>n. stop \<le> clk (1 + n)"
    using assms False unfolding stop_def by (metis Suc_pred not_le plus_1_eq_Suc)
  have n: "stop \<le> clk (1 + n)" unfolding n_def using ex by (rule LeastI_ex)
  have before: "clk (1 + i) < stop" if "i < n" for i
    using not_less_Least [of i "\<lambda>n. stop \<le> clk (1 + n)"] that by (simp add: n_def)
  obtain y where "spin_until clk stop 1 1 = Some (Suc (1 + n), y)"
    using spin_until_first [of stop clk 1 n 1] n before by blast
  moreover have "clk i < stop" if "0 < i" "i < 1 + n" for i
    using before [of "i - 1"] that by simp
  ultimately show ?thesis using False n by (auto simp: busy_spin_def stop_def)
qed (simp add: busy_spin_def)

theorem busy_spin_returns_witness:
  "\<exists>calls x. busy_spin (\<lambda>k. 300000 * int k) 1 = Some (calls, x) \<and> 3 < calls"
proof -
  have "\<exists>k>0. 300000 * int 0 + 1000000 * 1 \<le> 300000 * int k" by (rule exI [of _ 4]) simp
  then obtain calls x where "busy_spin (\<lambda>k. 300000 * int k) 1 = Some (calls, x)"
      "1 < calls" "1000000 \<le> 300000 * int (calls - 1)"
    using busy_spin_returns [of 1 "\<lambda>k. 300000 * int k"] by auto
  then show ?thesis by auto
qed

end
