(* ===== verification/Mersenne.thy ===== *)
theory Mersenne
  imports Prelude
begin

text \<open>
  \<open>std::mt19937_64\<close> as the C++ standard defines it (\<open>mersenne_twister_engine\<close> with 312 words
  of 64 bits): seeding, the in-place state transition and tempering. The workloads that draw
  random numbers are defined over an arbitrary sequence of draws; \<open>mt19937_64 seed k\<close> is the
  \<open>k\<close>-th draw of the seeded engine.
\<close>

fun mt_seed :: "nat \<Rightarrow> nat \<Rightarrow> u64 \<Rightarrow> u64 list" where
  "mt_seed 0 i x = []"
| "mt_seed (Suc n) i x =
     x # mt_seed n (Suc i) (6364136223846793005 * (x XOR drop_bit 62 x) + of_nat (Suc i))"

definition mt_step :: "u64 list \<Rightarrow> nat \<Rightarrow> u64 list" where
  "mt_step x i =
     (let y = (x ! i AND 0xFFFFFFFF80000000) OR (x ! ((i + 1) mod 312) AND 0x7FFFFFFF);
          a = (if y AND 1 = 1 then 0xB5026F5AA96619E9 else 0)
      in x[i := x ! ((i + 156) mod 312) XOR drop_bit 1 y XOR a])"

definition mt_twist :: "u64 list \<Rightarrow> u64 list" where
  "mt_twist x = foldl mt_step x [0..<312]"

definition mt_temper :: "u64 \<Rightarrow> u64" where
  "mt_temper x0 =
     (let x1 = x0 XOR (drop_bit 29 x0 AND 0x5555555555555555);
          x2 = x1 XOR (push_bit 17 x1 AND 0x71D67FFFEDA60000);
          x3 = x2 XOR (push_bit 37 x2 AND 0xFFF7EEE000000000)
      in x3 XOR drop_bit 43 x3)"

definition mt19937_64 :: "u64 \<Rightarrow> nat \<Rightarrow> u64" where
  "mt19937_64 seed k = mt_temper ((mt_twist ^^ (k div 312 + 1)) (mt_seed 312 0 seed) ! (k mod 312))"

lemma length_mt_seed [simp]: "length (mt_seed n i x) = n"
  by (induction n arbitrary: i x) auto

lemma length_mt_twist [simp]: "length (mt_twist x) = length x"
proof -
  have "length (foldl mt_step x is) = length x" for "is"
    by (induction "is" arbitrary: x) (auto simp: mt_step_def Let_def)
  then show ?thesis by (simp add: mt_twist_def)
qed

text \<open>Every draw reads inside the state array.\<close>

lemma mt_state_bounds: "k mod 312 < length ((mt_twist ^^ n) (mt_seed 312 0 seed))"
proof -
  have "length ((mt_twist ^^ n) s) = length s" for s
    by (induction n) auto
  then show ?thesis by simp
qed

end
