(* ===== verification/Workload.thy ===== *)
theory Workload
  imports Metric Timing Cache Mersenne
begin

text \<open>
  \<^verbatim>\<open>engine/include/bench/workload.hpp\<close>: the options and the context handed to a workload, the
  contract between a workload and the trial loop (the concept \<open>WorkloadImpl\<close>) as the locale
  \<open>workload_impl\<close>, and the timed loop of the worker that relies on it. The CPU and memory
  workloads interpret the locale in their own theories.
\<close>

record WorkloadOptions =
  wo_non_temporal :: bool
  wo_huge_pages :: bool
  wo_disk_path :: string
  wo_allow_writes :: bool
  wo_allow_9p :: bool
  wo_write_budget_bytes :: u64

record WorkloadContext =
  wc_thread_index :: int
  wc_thread_count :: int
  wc_working_set_bytes :: u64
  wc_seed :: u64
  wc_metric :: Metric
  wc_options :: "WorkloadOptions option"

text \<open>The seed of a thread: \<open>salt\<close> is the workload's own offset.\<close>

definition thread_seed :: "WorkloadContext \<Rightarrow> int \<Rightarrow> u64" where
  "thread_seed ctx salt =
     wc_seed ctx XOR (0x9E3779B97F4A7C15 * word_of_int (wc_thread_index ctx + salt))"

section \<open>The timed loop of a worker\<close>

text \<open>
  Whole batches until the trial length has passed. \<open>nows\<close> are the readings of the clock after
  each batch; the result is \<open>None\<close> when a batch fails or the readings end before the loop does.
\<close>

fun trial_loop ::
  "('w \<Rightarrow> ('w \<times> u64) option) \<Rightarrow> int \<Rightarrow> int \<Rightarrow> 'w \<Rightarrow> u64 \<Rightarrow> u64 \<Rightarrow> int list \<Rightarrow> ('w \<times> u64 \<times> u64 \<times> int) option" where
  "trial_loop run_batch trial_len t0 w ops batches [] = None"
| "trial_loop run_batch trial_len t0 w ops batches (now # nows) =
     (case run_batch w of
        None \<Rightarrow> None
      | Some (w', n) \<Rightarrow>
          if now - t0 < trial_len then trial_loop run_batch trial_len t0 w' (ops + n) (batches + 1) nows
          else Some (w', ops + n, batches + 1, now))"

section \<open>The contract\<close>

text \<open>
  A workload that is set up runs a batch of exactly \<open>batch_units\<close> units, stays set up, and its
  batches keep their size.
\<close>

locale workload_impl =
  fixes init :: "'e \<Rightarrow> 'w result"
    and run_batch :: "'w \<Rightarrow> ('w \<times> u64) option"
    and batch_units :: "'w \<Rightarrow> u64"
    and env_ok :: "'e \<Rightarrow> bool"
    and ready :: "'w \<Rightarrow> bool"
  assumes init_ready: "env_ok e \<Longrightarrow> init e = Inr w \<Longrightarrow> ready w"
    and batch_whole: "ready w \<Longrightarrow> \<exists>w'. run_batch w = Some (w', batch_units w) \<and> ready w' \<and> batch_units w' = batch_units w"
begin

lemma trial_loop_counts:
  assumes "ready w" "\<exists>now\<in>set nows. trial_len \<le> now - t0"
  shows "\<exists>w' k. trial_loop run_batch trial_len t0 w ops batches nows =
      Some (w', ops + of_nat k * batch_units w, batches + of_nat k, nows ! (k - 1))
    \<and> 0 < k \<and> k \<le> length nows \<and> trial_len \<le> nows ! (k - 1) - t0
    \<and> (\<forall>j<k - 1. nows ! j - t0 < trial_len) \<and> ready w' \<and> batch_units w' = batch_units w"
  using assms
proof (induction nows arbitrary: w ops batches)
  case (Cons now nows)
  obtain v where v: "run_batch w = Some (v, batch_units w)" "ready v" "batch_units v = batch_units w"
    using batch_whole [OF Cons.prems(1)] by blast
  show ?case
  proof (cases "now - t0 < trial_len")
    case True
    then have "\<exists>now\<in>set nows. trial_len \<le> now - t0" using Cons.prems(2) by auto
    from Cons.IH [OF v(2) this, of "ops + batch_units w" "batches + 1"] obtain w' k where
      k: "trial_loop run_batch trial_len t0 v (ops + batch_units w) (batches + 1) nows =
          Some (w', ops + batch_units w + of_nat k * batch_units v, batches + 1 + of_nat k, nows ! (k - 1))"
        "0 < k" "k \<le> length nows" "trial_len \<le> nows ! (k - 1) - t0" "\<forall>j<k - 1. nows ! j - t0 < trial_len"
        "ready w'" "batch_units w' = batch_units v"
      by blast
    have less: "(now # nows) ! j - t0 < trial_len" if "j < Suc k - 1" for j
      using that k(5) True by (cases j) auto
    have "(now # nows) ! (Suc k - 1) = nows ! (k - 1)" using k(2) by (cases k) auto
    then show ?thesis
      using True v k less by (intro exI [of _ w'] exI [of _ "Suc k"]) (simp add: algebra_simps)
  next
    case False
    then show ?thesis using v by (intro exI [of _ v] exI [of _ 1]) simp
  qed
qed simp

end

end
