(* ===== verification/Cpu.thy ===== *)
theory Cpu
  imports Workload
begin

text \<open>
  The CPU workloads, \<^verbatim>\<open>engine/src/workloads/cpu_int.cpp\<close>, \<^verbatim>\<open>cpu_fp.cpp\<close> and \<^verbatim>\<open>cpu_hash.cpp\<close> with
  their headers. A fresh object has zero members; \<open>DoNotOptimize\<close> has no value. The buffer of
  the hash workload is the list of its 64-bit words: what \<open>memcpy\<close> stores of a random number
  and \<open>bit_cast\<close> reads back is that number.
\<close>

section \<open>Integer lanes\<close>

abbreviation kLanes :: nat where
  "kLanes \<equiv> 8"

abbreviation kItersPerBatch :: nat where
  "kItersPerBatch \<equiv> 131072"

abbreviation kBatchOps :: u64 where
  "kBatchOps \<equiv> 0x100000"

record CpuIntWorkload =
  int_lanes :: "u64 list"
  int_k :: u64
  int_sink :: u64

definition cpu_int_setup :: "WorkloadContext \<Rightarrow> CpuIntWorkload result" where
  "cpu_int_setup ctx =
     (let rng = mt19937_64 (thread_seed ctx 1) in
      Inr \<lparr>int_lanes = map rng [0..<kLanes], int_k = rng kLanes OR 1, int_sink = 0\<rparr>)"

definition cpu_int_op :: "u64 \<Rightarrow> nat \<Rightarrow> u64 \<Rightarrow> u64" where
  "cpu_int_op k i a = a * k + (drop_bit 17 a XOR of_nat i)"

definition cpu_int_run_batch :: "CpuIntWorkload \<Rightarrow> CpuIntWorkload \<times> u64" where
  "cpu_int_run_batch w =
     (let acc = foldl (\<lambda>acc i. map (cpu_int_op (int_k w) i) acc) (int_lanes w) [0..<kItersPerBatch];
          fold' = foldl (XOR) 0 acc
      in (w\<lparr>int_lanes := acc, int_sink := int_sink w XOR fold'\<rparr>, of_nat kItersPerBatch * of_nat kLanes))"

section \<open>Floating-point lanes\<close>

text \<open>
  \<open>std::generate_canonical\<close> of one 64-bit draw, and \<open>std::uniform_real_distribution\<close>.
\<close>

definition canonical :: "fp \<Rightarrow> u64 \<Rightarrow> real" where
  "canonical A r =
     (let u = rnd A (rnd A (real (unat r)) / 2 ^ 64) in if 1 \<le> u then 1 - 1 / 2 ^ 53 else u)"

definition uniform_real :: "fp \<Rightarrow> real \<Rightarrow> real \<Rightarrow> u64 \<Rightarrow> real" where
  "uniform_real A lo hi r = madd A (canonical A r) (rnd A (hi - lo)) lo"

record CpuFpWorkload =
  fp_a :: "real list"
  fp_b :: "real list"
  fp_c :: "real list"
  fp_sink :: real

definition cpu_fp_setup :: "fp \<Rightarrow> WorkloadContext \<Rightarrow> CpuFpWorkload result" where
  "cpu_fp_setup A ctx =
     (let rng = mt19937_64 (thread_seed ctx 2) in
      Inr \<lparr>fp_a = map (\<lambda>l. uniform_real A 1 2 (rng (3 * l))) [0..<kLanes],
           fp_b = map (\<lambda>l. uniform_real A (1 / 2) (3 / 4) (rng (3 * l + 1))) [0..<kLanes],
           fp_c = map (\<lambda>l. uniform_real A (1 / 4) (1 / 2) (rng (3 * l + 2))) [0..<kLanes],
           fp_sink = 0\<rparr>)"

text \<open>\<open>std::fma\<close>: one rounding.\<close>

definition fma :: "fp \<Rightarrow> real \<Rightarrow> real \<Rightarrow> real \<Rightarrow> real" where
  "fma A a b c = rnd A (a * b + c)"

definition cpu_fp_iter :: "fp \<Rightarrow> real list \<Rightarrow> real list \<Rightarrow> real list \<Rightarrow> real list" where
  "cpu_fp_iter A b c a = map (\<lambda>j. fma A (a ! j) (b ! j) (c ! j)) [0..<kLanes]"

definition cpu_fp_run_batch :: "fp \<Rightarrow> CpuFpWorkload \<Rightarrow> CpuFpWorkload \<times> u64" where
  "cpu_fp_run_batch A w =
     (let a = (cpu_fp_iter A (fp_b w) (fp_c w) ^^ kItersPerBatch) (fp_a w);
          fold' = foldl (\<lambda>s v. rnd A (s + v)) 0 a
      in (w\<lparr>fp_a := a, fp_sink := rnd A (fp_sink w + fold')\<rparr>, kBatchOps))"

definition fixed_point :: "fp \<Rightarrow> real \<Rightarrow> real \<Rightarrow> real" where
  "fixed_point A b c = rnd A (c / rnd A (1 - b))"

section \<open>Block hashing\<close>

abbreviation kHashBlockBytes :: u64 where
  "kHashBlockBytes \<equiv> 64"

abbreviation kHashP1 :: u64 where
  "kHashP1 \<equiv> 0x9E3779B185EBCA87"

abbreviation kHashP2 :: u64 where
  "kHashP2 \<equiv> 0xC2B2AE3D27D4EB4F"

abbreviation kHashP3 :: u64 where
  "kHashP3 \<equiv> 0x165667B19E3779F9"

abbreviation kHashP4 :: u64 where
  "kHashP4 \<equiv> 0x85EBCA77C2B2AE63"

abbreviation kHashP5 :: u64 where
  "kHashP5 \<equiv> 0x27D4EB2F165667C5"

definition hash_round :: "u64 \<Rightarrow> u64 \<Rightarrow> u64" where
  "hash_round acc input = word_rotl 31 (acc + input * kHashP2) * kHashP1"

definition hash_merge :: "u64 \<Rightarrow> u64 \<Rightarrow> u64" where
  "hash_merge acc lane = (acc XOR hash_round 0 lane) * kHashP1 + kHashP4"

definition hash_block :: "u64 list \<Rightarrow> u64 \<Rightarrow> u64" where
  "hash_block w seed =
     (let v1 = hash_round (hash_round (seed + kHashP1 + kHashP2) (w ! 0)) (w ! 4);
          v2 = hash_round (hash_round (seed + kHashP2) (w ! 1)) (w ! 5);
          v3 = hash_round (hash_round seed (w ! 2)) (w ! 6);
          v4 = hash_round (hash_round (seed - kHashP1) (w ! 3)) (w ! 7);
          h = word_rotl 1 v1 + word_rotl 7 v2 + word_rotl 12 v3 + word_rotl 18 v4;
          h = hash_merge (hash_merge (hash_merge (hash_merge h v1) v2) v3) v4 + kHashBlockBytes;
          h = (h XOR drop_bit 33 h) * kHashP2;
          h = (h XOR drop_bit 29 h) * kHashP3;
          h = h XOR drop_bit 32 h
      in h XOR kHashP5)"

record CpuHashWorkload =
  ch_words :: "u64 list"
  ch_blocks :: u64
  ch_next_block :: u64
  ch_seed :: u64
  ch_acc :: u64

abbreviation kDefaultBufferBytes :: u64 where
  "kDefaultBufferBytes \<equiv> 4096"

abbreviation kHashBatchOps :: nat where
  "kHashBatchOps \<equiv> 65536"

definition hash_buffer_bytes_for :: "u64 \<Rightarrow> u64" where
  "hash_buffer_bytes_for bytes =
     (if bytes = 0 then kDefaultBufferBytes else max 1 (bytes div kHashBlockBytes) * kHashBlockBytes)"

text \<open>\<open>alloc\<close> is the outcome of \<open>alloc_buffer\<close> for the size: the words of the buffer.\<close>

definition cpu_hash_setup :: "(u64 \<Rightarrow> u64 list result) \<times> WorkloadContext \<Rightarrow> CpuHashWorkload result" where
  "cpu_hash_setup = (\<lambda>(alloc, ctx).
     (let bytes = hash_buffer_bytes_for (wc_working_set_bytes ctx) in
      rbind (alloc bytes) (\<lambda>words.
        let rng = mt19937_64 (thread_seed ctx 3); n = unat bytes div 8 in
        Inr \<lparr>ch_words = foldl (\<lambda>ws i. ws[i := rng i]) words [0..<n], ch_blocks = bytes div kHashBlockBytes,
             ch_next_block = 0, ch_seed = rng n, ch_acc = 0\<rparr>)))"

text \<open>The loop of \<open>run_batch\<close>: \<open>None\<close> is a read outside the buffer.\<close>

fun hash_ops :: "nat \<Rightarrow> CpuHashWorkload \<Rightarrow> CpuHashWorkload option" where
  "hash_ops 0 w = Some w"
| "hash_ops (Suc n) w =
     (let b = ch_next_block w in
      if length (ch_words w) < 8 * unat b + 8 then None
      else
        let block = take 8 (drop (8 * unat b) (ch_words w)) in
        hash_ops n (w\<lparr>ch_acc := ch_acc w * kHashP1 + hash_block block (ch_seed w),
                      ch_next_block := (if b + 1 = ch_blocks w then 0 else b + 1)\<rparr>))"

definition cpu_hash_run_batch :: "CpuHashWorkload \<Rightarrow> (CpuHashWorkload \<times> u64) option" where
  "cpu_hash_run_batch w = map_option (\<lambda>w'. (w', of_nat kHashBatchOps)) (hash_ops kHashBatchOps w)"

section \<open>The contract of the CPU workloads\<close>

interpretation cpu_int: workload_impl cpu_int_setup "\<lambda>w. Some (cpu_int_run_batch w)" "\<lambda>_. kBatchOps" "\<lambda>_. True" "\<lambda>_. True"
  by unfold_locales (simp_all add: cpu_int_run_batch_def Let_def)

subsection \<open>Lanes stay normal doubles\<close>

definition fp_ready :: "CpuFpWorkload \<Rightarrow> bool" where
  "fp_ready w \<longleftrightarrow> length (fp_a w) = kLanes \<and> length (fp_b w) = kLanes \<and> length (fp_c w) = kLanes
     \<and> list_all (\<lambda>a. 1 / 2 \<le> a \<and> a \<le> 2) (fp_a w) \<and> list_all (\<lambda>b. 1 / 2 \<le> b \<and> b \<le> 3 / 4) (fp_b w)
     \<and> list_all (\<lambda>c. 1 / 4 \<le> c \<and> c \<le> 1 / 2) (fp_c w)"

lemma rnd64_quarters: "rnd64 (1 / 4) = 1 / 4" "rnd64 (1 / 2) = 1 / 2" "rnd64 (3 / 4) = 3 / 4"
  using rnd64_exact_lt [of 1 "-2"] rnd64_exact_lt [of 1 "-1"] rnd64_exact_lt [of 3 "-2"]
  by (simp_all add: power_int_minus)

lemma canonical_unit: "0 \<le> canonical (ieee64 c) r" "canonical (ieee64 c) r \<le> 1"
  by (simp_all add: canonical_def Let_def rnd64_nonneg)

lemma uniform_real_bounds:
  assumes "rnd64 lo = lo" "rnd64 hi = hi" "rnd64 (hi - lo) = hi - lo" "lo \<le> hi"
  shows "lo \<le> uniform_real (ieee64 c) lo hi r" "uniform_real (ieee64 c) lo hi r \<le> hi"
proof -
  define u where "u = canonical (ieee64 c) r"
  have u: "0 \<le> u" "u \<le> 1" by (simp_all add: u_def canonical_unit)
  then have p: "0 \<le> u * (hi - lo)" "u * (hi - lo) \<le> hi - lo" using assms(4) by (simp_all add: mult_left_le_one_le)
  then have q: "0 \<le> rnd64 (u * (hi - lo))" "rnd64 (u * (hi - lo)) \<le> hi - lo"
    using rnd64_mono [OF p(2)] assms(3) by (simp_all add: rnd64_nonneg)
  have "rnd64 lo \<le> uniform_real (ieee64 c) lo hi r" "uniform_real (ieee64 c) lo hi r \<le> rnd64 hi"
    using p q assms(3) unfolding uniform_real_def madd_def u_def [symmetric] by (auto intro!: rnd64_mono)
  then show "lo \<le> uniform_real (ieee64 c) lo hi r" "uniform_real (ieee64 c) lo hi r \<le> hi" using assms by simp_all
qed

lemma fp_setup_ready: "cpu_fp_setup (ieee64 cn) ctx = Inr w \<Longrightarrow> fp_ready w"
proof -
  assume w: "cpu_fp_setup (ieee64 cn) ctx = Inr w"
  have one: "rnd64 1 = 1" "rnd64 2 = 2" using rnd64_nat [of 1] rnd64_nat [of 2] by simp_all
  have a: "1 \<le> uniform_real (ieee64 cn) 1 2 r \<and> uniform_real (ieee64 cn) 1 2 r \<le> 2" for r
    using uniform_real_bounds [of 1 2] one by simp
  have b: "1 / 2 \<le> uniform_real (ieee64 cn) (1 / 2) (3 / 4) r \<and> uniform_real (ieee64 cn) (1 / 2) (3 / 4) r \<le> 3 / 4" for r
    using uniform_real_bounds [of "1 / 2" "3 / 4"] rnd64_quarters by simp
  have c: "1 / 4 \<le> uniform_real (ieee64 cn) (1 / 4) (1 / 2) r \<and> uniform_real (ieee64 cn) (1 / 4) (1 / 2) r \<le> 1 / 2" for r
    using uniform_real_bounds [of "1 / 4" "1 / 2"] rnd64_quarters by simp
  have "1 / 2 \<le> uniform_real (ieee64 cn) 1 2 r" for r using a [of r] by linarith
  then show ?thesis using w a b c by (auto simp: cpu_fp_setup_def Let_def fp_ready_def list_all_iff)
qed

lemma fma_stays:
  assumes "1 / 2 \<le> a" "a \<le> 2" "1 / 2 \<le> b" "b \<le> 3 / 4" "1 / 4 \<le> c" "c \<le> (1 / 2 :: real)"
  shows "1 / 2 \<le> fma (ieee64 cn) a b c \<and> fma (ieee64 cn) a b c \<le> 2"
proof -
  have "1 / 2 * (1 / 2) \<le> a * b" "a * b \<le> 2 * (3 / 4)" using assms by (intro mult_mono; simp)+
  then have "rnd64 (1 / 2) \<le> rnd64 (a * b + c)" "rnd64 (a * b + c) \<le> rnd64 2"
    using assms by (auto intro!: rnd64_mono)
  then show ?thesis using rnd64_quarters rnd64_nat [of 2] by (simp add: fma_def)
qed

lemma fp_iter_ready:
  assumes "fp_ready w"
  shows "fp_ready (w\<lparr>fp_a := (cpu_fp_iter (ieee64 cn) (fp_b w) (fp_c w) ^^ n) (fp_a w)\<rparr>)"
proof (induction n)
  case (Suc n)
  define a where "a = (cpu_fp_iter (ieee64 cn) (fp_b w) (fp_c w) ^^ n) (fp_a w)"
  have "fp_ready (w\<lparr>fp_a := cpu_fp_iter (ieee64 cn) (fp_b w) (fp_c w) a\<rparr>)"
    using Suc [folded a_def] fma_stays by (auto simp: fp_ready_def cpu_fp_iter_def list_all_length)
  then show ?case by (simp add: a_def)
qed (use assms in simp)

lemma fp_batch_ready: "fp_ready w \<Longrightarrow> fp_ready (fst (cpu_fp_run_batch (ieee64 cn) w))"
  using fp_iter_ready [of w kItersPerBatch cn] by (simp add: cpu_fp_run_batch_def Let_def fp_ready_def)

interpretation cpu_fp: workload_impl "cpu_fp_setup (ieee64 cn)" "\<lambda>w. Some (cpu_fp_run_batch (ieee64 cn) w)"
    "\<lambda>_. kBatchOps" "\<lambda>_. True" fp_ready for cn
proof
  show "\<exists>w'. Some (cpu_fp_run_batch (ieee64 cn) w) = Some (w', kBatchOps) \<and> fp_ready w' \<and> kBatchOps = kBatchOps"
    if "fp_ready w" for w
    using fp_batch_ready [OF that, of cn] by (simp add: cpu_fp_run_batch_def Let_def)
qed (rule fp_setup_ready)

text \<open>The fixed point attracts: in exact arithmetic each operation shrinks the distance by \<open>b\<close>.\<close>

lemma fma_contracts:
  assumes "b \<noteq> 1"
  shows "((\<lambda>a. fma exact_fp a b c) ^^ n) a - fixed_point exact_fp b c = b ^ n * (a - fixed_point exact_fp b c)"
proof (induction n)
  case (Suc n)
  have "fixed_point exact_fp b c * b + c = fixed_point exact_fp b c"
    using assms by (simp add: fixed_point_def field_simps)
  then have "fma exact_fp x b c - fixed_point exact_fp b c = b * (x - fixed_point exact_fp b c)" for x
    by (simp add: fma_def algebra_simps)
  then show ?case using Suc by simp
qed simp

text \<open>
  (C39) The floating-point lanes never leave the range of normal doubles: for every seed and
  thread, after any number of batches, with IEEE rounding at every operation, every lane lies
  in \<open>[1/2, 2]\<close>. In exact arithmetic \<open>n\<close> operations bring a lane to its fixed point
  \<open>c / (1 - b)\<close> up to the factor \<open>b ^ n\<close>.
\<close>

theorem cpu_fp_stays_normal:
  "list_all (\<lambda>a. 1 / 2 \<le> a \<and> a \<le> 2)
     (fp_a (((\<lambda>w. fst (cpu_fp_run_batch (ieee64 cn) w)) ^^ k) (projr (cpu_fp_setup (ieee64 cn) ctx))))
   \<and> (b \<noteq> 1 \<longrightarrow> ((\<lambda>a. fma exact_fp a b c) ^^ n) a - fixed_point exact_fp b c = b ^ n * (a - fixed_point exact_fp b c))"
proof -
  obtain w where w: "cpu_fp_setup (ieee64 cn) ctx = Inr w" by (simp add: cpu_fp_setup_def Let_def)
  have "fp_ready (((\<lambda>w. fst (cpu_fp_run_batch (ieee64 cn) w)) ^^ k) w)"
    using fp_setup_ready [OF w] by (induction k) (simp_all add: fp_batch_ready)
  then show ?thesis using w fma_contracts by (simp add: fp_ready_def)
qed

theorem cpu_fp_stays_normal_witness:
  "((\<lambda>a. fma exact_fp a (1 / 2) (1 / 4)) ^^ 3) 1 - 1 / 2 = (1 / 2) ^ 3 * (1 - 1 / 2)"
  using cpu_fp_stays_normal [where b = "1 / 2" and c = "1 / 4" and n = 3 and a = 1] by (simp add: fixed_point_def)

subsection \<open>The walk over the blocks\<close>

definition hash_ready :: "CpuHashWorkload \<Rightarrow> bool" where
  "hash_ready w \<longleftrightarrow> length (ch_words w) = 8 * unat (ch_blocks w) \<and> ch_next_block w < ch_blocks w"

definition block_at :: "CpuHashWorkload \<Rightarrow> nat \<Rightarrow> u64 list" where
  "block_at w b = take 8 (drop (8 * b) (ch_words w))"

lemma next_block:
  assumes "b < (n :: u64)"
  shows "unat (if b + 1 = n then 0 else b + 1) = (unat b + 1) mod unat n" "(if b + 1 = n then 0 else b + 1) < n"
proof -
  have "unat b + 1 \<le> unat n" using assms by (simp add: word_less_nat_alt)
  then have b1: "unat (b + 1) = unat b + 1" using u64_lt [of n] by (subst unat_add_lt) auto
  then have "b + 1 = n \<longleftrightarrow> unat b + 1 = unat n" by (metis word_unat_eq_iff)
  then show "unat (if b + 1 = n then 0 else b + 1) = (unat b + 1) mod unat n"
    using b1 \<open>unat b + 1 \<le> unat n\<close> by auto
  then show "(if b + 1 = n then 0 else b + 1) < n"
    using assms by (simp add: word_less_nat_alt)
qed

lemma hash_ops_walk:
  assumes "hash_ready w"
  shows "\<exists>w'. hash_ops n w = Some w' \<and> hash_ready w' \<and> ch_words w' = ch_words w \<and> ch_blocks w' = ch_blocks w
    \<and> unat (ch_next_block w') = (unat (ch_next_block w) + n) mod unat (ch_blocks w)
    \<and> ch_acc w' = foldl (\<lambda>acc b. acc * kHashP1 + hash_block (block_at w b) (ch_seed w)) (ch_acc w)
        (map (\<lambda>i. (unat (ch_next_block w) + i) mod unat (ch_blocks w)) [0..<n])"
  using assms
proof (induction n arbitrary: w)
  case 0
  then show ?case by (simp add: hash_ready_def word_less_nat_alt)
next
  case (Suc n)
  define b where "b = ch_next_block w"
  define v where "v = w\<lparr>ch_acc := ch_acc w * kHashP1 + hash_block (block_at w (unat b)) (ch_seed w),
    ch_next_block := (if b + 1 = ch_blocks w then 0 else b + 1)\<rparr>"
  have lt: "b < ch_blocks w" and len: "length (ch_words w) = 8 * unat (ch_blocks w)"
    using Suc.prems by (simp_all add: hash_ready_def b_def)
  note nb = next_block [OF lt]
  have bl: "unat b < unat (ch_blocks w)" using lt by (simp add: word_less_nat_alt)
  have step: "hash_ops (Suc n) w = hash_ops n v"
    using bl len by (simp add: Let_def v_def b_def block_at_def)
  have v: "hash_ready v" "ch_words v = ch_words w" "ch_blocks v = ch_blocks w" "ch_seed v = ch_seed w"
      "unat (ch_next_block v) = (unat b + 1) mod unat (ch_blocks w)"
    using nb len by (simp_all add: hash_ready_def v_def)
  have shift: "(unat (ch_next_block v) + i) mod unat (ch_blocks w) = (unat b + Suc i) mod unat (ch_blocks w)" for i
    by (simp add: v(5) mod_simps)
  have "map (\<lambda>i. (unat b + i) mod unat (ch_blocks w)) [0..<Suc n] =
      unat b # map (\<lambda>i. (unat (ch_next_block v) + i) mod unat (ch_blocks w)) [0..<n]"
    using bl unfolding upt_conv_Cons [OF zero_less_Suc] map_Suc_upt [symmetric] by (simp add: shift)
  moreover have "block_at v = block_at w" by (rule ext) (simp add: block_at_def v(2))
  moreover obtain w' where "hash_ops n v = Some w'" "hash_ready w'" "ch_words w' = ch_words v" "ch_blocks w' = ch_blocks v"
    "unat (ch_next_block w') = (unat (ch_next_block v) + n) mod unat (ch_blocks v)"
    "ch_acc w' = foldl (\<lambda>acc b. acc * kHashP1 + hash_block (block_at v b) (ch_seed v)) (ch_acc v)
        (map (\<lambda>i. (unat (ch_next_block v) + i) mod unat (ch_blocks v)) [0..<n])"
    using Suc.IH [OF v(1)] by blast
  ultimately show ?case
    unfolding step using v shift by (simp add: b_def [symmetric] v_def [symmetric]) (simp add: v_def)
qed

lemma hash_setup_ready:
  assumes "\<forall>bytes words. alloc bytes = Inr words \<longrightarrow> length words = unat bytes div 8"
    "cpu_hash_setup (alloc, ctx) = Inr w"
  shows "hash_ready w"
proof -
  define bytes where "bytes = hash_buffer_bytes_for (wc_working_set_bytes ctx)"
  obtain q :: u64 where q: "0 < q" "bytes = q * 64" "unat q * 64 < 2 ^ 64"
  proof (cases "wc_working_set_bytes ctx = 0")
    case True
    show ?thesis by (rule that [of 64]) (simp_all add: bytes_def hash_buffer_bytes_for_def True)
  next
    case False
    define n where "n = wc_working_set_bytes ctx"
    have "unat (max 1 (n div 64)) = max 1 (unat n div 64)" by (simp add: unat_max unat_div)
    then have "unat (max 1 (n div 64)) * 64 < 2 ^ 64" using u64_lt [of n] less_mult_imp_div_less [of "unat n" "2 ^ 58" 64] by (simp add: max_def)
    then show ?thesis
      by (intro that [of "max 1 (n div 64)"]) (use False in \<open>simp_all add: bytes_def hash_buffer_bytes_for_def n_def less_max_iff_disj\<close>)
  qed
  then have b: "unat bytes = unat q * 64" by (simp add: unat_mult_lt)
  obtain words where w: "alloc bytes = Inr words" "length (ch_words w) = length words" "ch_blocks w = bytes div 64"
      "ch_next_block w = 0"
    using assms(2) by (auto simp: cpu_hash_setup_def Let_def rbind_eq_Inr bytes_def length_fold_update)
  have "unat (bytes div 64) = unat q" by (simp add: unat_div b)
  then show ?thesis
    using w assms(1) b q(1) by (simp add: hash_ready_def word_less_nat_alt)
qed

lemma hash_batch_units:
  "hash_ready w \<Longrightarrow> \<exists>w'. cpu_hash_run_batch w = Some (w', of_nat kHashBatchOps) \<and> hash_ready w'"
  using hash_ops_walk [of w kHashBatchOps] by (auto simp: cpu_hash_run_batch_def)

interpretation cpu_hash: workload_impl cpu_hash_setup cpu_hash_run_batch "\<lambda>_. of_nat kHashBatchOps"
    "\<lambda>(alloc, ctx). \<forall>bytes words. alloc bytes = Inr words \<longrightarrow> length words = unat bytes div 8" hash_ready
proof
  show "hash_ready w" if "case e of (alloc, ctx) \<Rightarrow> \<forall>bytes words. alloc bytes = Inr words \<longrightarrow> length words = unat bytes div 8"
      "cpu_hash_setup e = Inr w" for e w
    using that hash_setup_ready by (cases e) simp
qed (use hash_batch_units in blast)

text \<open>
  The hash workload hashes every block in turn: from any state reached by set-up, any
  number \<open>n\<close> of operations reads only inside the buffer, visits the blocks in order and wraps
  at the end, and the digest is the multiply-accumulate of the hashes of exactly those blocks;
  over \<open>n = m * blocks\<close> operations it returns to the block it started from.
\<close>

theorem cpu_hash_walks_blocks:
  assumes "\<forall>bytes words. alloc bytes = Inr words \<longrightarrow> length words = unat bytes div 8"
    "cpu_hash_setup (alloc, ctx) = Inr w"
  shows "\<exists>w'. hash_ops n w = Some w' \<and> unat (ch_next_block w') = n mod unat (ch_blocks w)
    \<and> 0 < unat (ch_blocks w) \<and> length (ch_words w) = 8 * unat (ch_blocks w)
    \<and> ch_acc w' = foldl (\<lambda>acc b. acc * kHashP1 + hash_block (block_at w b) (ch_seed w)) 0
        (map (\<lambda>i. i mod unat (ch_blocks w)) [0..<n])"
proof -
  have r: "hash_ready w" by (rule hash_setup_ready [OF assms])
  have "ch_next_block w = 0" "ch_acc w = 0"
    using assms(2) by (auto simp: cpu_hash_setup_def Let_def rbind_eq_Inr)
  then show ?thesis
    using hash_ops_walk [OF r, of n] r by (auto simp: hash_ready_def word_less_nat_alt)
qed

theorem cpu_hash_walks_blocks_witness:
  "\<exists>w w'. cpu_hash_setup (\<lambda>bytes. Inr (replicate (unat bytes div 8) 0), \<lparr>wc_thread_index = 0, wc_thread_count = 1,
       wc_working_set_bytes = 128, wc_seed = 1, wc_metric = M_cpu_hash_ops, wc_options = None\<rparr>) = Inr w
     \<and> hash_ops 5 w = Some w' \<and> unat (ch_next_block w') = 1"
proof -
  obtain w where w: "cpu_hash_setup (\<lambda>bytes. Inr (replicate (unat bytes div 8) 0), \<lparr>wc_thread_index = 0, wc_thread_count = 1,
       wc_working_set_bytes = 128, wc_seed = 1, wc_metric = M_cpu_hash_ops, wc_options = None\<rparr>) = Inr w"
    and b: "ch_blocks w = 2"
    by (simp add: cpu_hash_setup_def Let_def hash_buffer_bytes_for_def max_def)
  from cpu_hash_walks_blocks [OF _ w, of 5] b show ?thesis using w by fastforce
qed

end
