(* ===== verification/Disk_Io.thy ===== *)
theory Disk_Io
  imports Mersenne Cache Metric
begin

text \<open>
  \<^verbatim>\<open>engine/src/workloads/disk_io.cpp\<close>: O_DIRECT file I/O. System calls are arguments: the
  outcomes of the successive \<open>pread\<close>/\<open>pwrite\<close> calls as lists (a call still pending when the
  list ends is \<open>None\<close>), the results of \<open>open\<close>, \<open>fstat\<close> and the allocations. A transfer is
  recorded as its byte range in the file.
\<close>

abbreviation kDiskSeqBlock :: u64 where
  "kDiskSeqBlock \<equiv> 0x100000"

abbreviation kDiskRandBlock :: u64 where
  "kDiskRandBlock \<equiv> 4096"

abbreviation kDiskDefaultSize :: u64 where
  "kDiskDefaultSize \<equiv> 0x100000000"

abbreviation kLatencyBuckets :: nat where
  "kLatencyBuckets \<equiv> 1000000"

abbreviation kLatencyOverflowBucket :: nat where
  "kLatencyOverflowBucket \<equiv> kLatencyBuckets"

abbreviation kLatencyHistogramSize :: nat where
  "kLatencyHistogramSize \<equiv> kLatencyBuckets + 1"

section \<open>Whole transfers\<close>

text \<open>What one system call returned: a byte count, or an error text.\<close>

datatype io = Transferred nat | Io_error string

definition errno_message :: "string \<Rightarrow> string \<Rightarrow> string \<Rightarrow> int \<Rightarrow> string" where
  "errno_message what path err code =
     what @ '' '' @ quoted path @ '': '' @ err @ '' ('' @ int_to_dec code @ '')''"

text \<open>
  The ranges \<open>(offset, length)\<close> transferred so far are collected in \<open>segs\<close>. A \<open>pwrite\<close> that
  transfers nothing leaves no error text of its own.
\<close>

fun full_pread :: "nat \<Rightarrow> nat \<Rightarrow> nat \<Rightarrow> (nat \<times> nat) list \<Rightarrow> io list \<Rightarrow> (nat \<times> (nat \<times> nat) list) result option" where
  "full_pread len off done segs [] = (if done < len then None else Some (Inr (done, segs)))"
| "full_pread len off done segs (r # rs) =
     (if done < len then
        (case r of
           Io_error e \<Rightarrow> Some (Inl (Runtime_error (''pread at '' @ to_dec (off + done) @ '': '' @ e)))
         | Transferred n \<Rightarrow>
             if n = 0 then
               Some (Inl (Runtime_error (''pread at '' @ to_dec (off + done) @ '': unexpected end of file'')))
             else full_pread len off (done + n) (segs @ [(off + done, n)]) rs)
      else Some (Inr (done, segs)))"

fun full_pwrite :: "nat \<Rightarrow> nat \<Rightarrow> nat \<Rightarrow> (nat \<times> nat) list \<Rightarrow> io list \<Rightarrow> (nat \<times> (nat \<times> nat) list) result option" where
  "full_pwrite len off done segs [] = (if done < len then None else Some (Inr (done, segs)))"
| "full_pwrite len off done segs (r # rs) =
     (if done < len then
        (case r of
           Io_error e \<Rightarrow> Some (Inl (Runtime_error (''pwrite at '' @ to_dec (off + done) @ '': '' @ e)))
         | Transferred n \<Rightarrow>
             if n = 0 then Some (Inl (Runtime_error (''pwrite at '' @ to_dec (off + done) @ '': '')))
             else full_pwrite len off (done + n) (segs @ [(off + done, n)]) rs)
      else Some (Inr (done, segs)))"

section \<open>The test file\<close>

text \<open>\<open>a / b\<close> of \<open>std::filesystem\<close> for a relative \<open>b\<close>, and \<open>parent_path\<close>.\<close>

definition path_append :: "string \<Rightarrow> string \<Rightarrow> string" where
  "path_append a b = (if a = [] then b else if last a = CHR ''/'' then a @ b else a @ ''/'' @ b)"

definition parent_path :: "string \<Rightarrow> string" where
  "parent_path p =
     (case rfind_char (CHR ''/'') p of
        None \<Rightarrow> []
      | Some i \<Rightarrow>
          let dir = rev (dropWhile (\<lambda>c. c = CHR ''/'') (rev (take i p))) in if dir = [] then ''/'' else dir)"

definition default_disk_path :: "string option \<Rightarrow> string" where
  "default_disk_path home =
     path_append (path_append (path_append (case home of Some h \<Rightarrow> h | None \<Rightarrow> ''.'') ''.cache'') ''bench'') ''testfile''"

text \<open>\<open>canonical\<close> is the result of \<open>weakly_canonical\<close>, \<open>None\<close> when it reports an error.\<close>

definition is_9p_path :: "string option \<Rightarrow> string \<Rightarrow> bool" where
  "is_9p_path canonical path \<longleftrightarrow>
     starts_with path ''/mnt/'' \<or> (case canonical of Some nrm \<Rightarrow> starts_with nrm ''/mnt/'' | None \<Rightarrow> False)"

text \<open>\<open>mkdirs\<close> is the error text of \<open>create_directories\<close>, if any.\<close>

definition check_disk_path :: "string option \<Rightarrow> string option \<Rightarrow> string \<Rightarrow> bool \<Rightarrow> unit result" where
  "check_disk_path canonical mkdirs path allow_9p =
     (if \<not> allow_9p \<and> is_9p_path canonical path then
        Inl (Runtime_error (''--disk-path '' @ quoted path @ '' is under /mnt (9p/drvfs), where O_DIRECT is ignored or fails; use a path on the ext4 root, or pass --i-know-this-is-9p to override''))
      else
        let dir = parent_path path in
        if dir \<noteq> [] then
          (case mkdirs of
             Some e \<Rightarrow> Inl (Runtime_error (''cannot create directory '' @ quoted dir @ '': '' @ e))
           | None \<Rightarrow> Inr ())
        else Inr ())"

text \<open>One step of the xorshift generator that fills the file.\<close>

definition xorshift :: "u64 \<Rightarrow> u64" where
  "xorshift x =
     (let x1 = x XOR push_bit 13 x; x2 = x1 XOR drop_bit 7 x1 in x2 XOR push_bit 17 x2)"

fun fill_block :: "nat \<Rightarrow> u64 \<Rightarrow> u64 list \<times> u64" where
  "fill_block 0 x = ([], x)"
| "fill_block (Suc n) x = (let x' = xorshift x; (ws, y) = fill_block n x' in (x' # ws, y))"

text \<open>
  The fill loop: \<open>ios\<close> gives the outcomes of the writes of each block. The result lists the
  blocks written, each with the words it holds and the ranges transferred.
\<close>

function fill_file ::
  "nat \<Rightarrow> nat \<Rightarrow> u64 \<Rightarrow> io list list \<Rightarrow> (nat \<times> (u64 list \<times> (nat \<times> nat) list) list) result option" where
  "fill_file bytes off x ios =
     (if off < bytes then
        let (words, x') = fill_block (unat kDiskSeqBlock div 8) x;
            len = min (unat kDiskSeqBlock) (bytes - off)
        in (case ios of
              [] \<Rightarrow> None
            | io # rest \<Rightarrow>
                (case full_pwrite len off 0 [] io of
                   None \<Rightarrow> None
                 | Some (Inl e) \<Rightarrow> Some (Inl e)
                 | Some (Inr (n, segs)) \<Rightarrow>
                     (case fill_file bytes (off + unat kDiskSeqBlock) x' rest of
                        None \<Rightarrow> None
                      | Some (Inl e) \<Rightarrow> Some (Inl e)
                      | Some (Inr (w, blocks)) \<Rightarrow> Some (Inr (n + w, (words, segs) # blocks)))))
      else Some (Inr (0, [])))"
  by auto
termination by (relation "measure (\<lambda>(bytes, off, x, ios). length ios)") auto

declare fill_file.simps [simp del]

text \<open>What the file system says on the way: the arguments of \<open>ensure_test_file\<close>.\<close>

record file_env =
  fe_size :: "nat option"             \<comment> \<open>size of an existing file\<close>
  fe_create :: "(string \<times> int) option"    \<comment> \<open>error of the creating \<open>open\<close>\<close>
  fe_fallocate :: bool                \<comment> \<open>whether \<open>fallocate\<close> succeeds\<close>
  fe_truncate :: "(string \<times> int) option"
  fe_direct :: "(string \<times> int) option"    \<comment> \<open>error of the O_DIRECT \<open>open\<close>\<close>
  fe_writes :: "io list list"
  fe_sync :: "(string \<times> int) option"

definition ensure_test_file ::
  "file_env \<Rightarrow> string \<Rightarrow> nat \<Rightarrow> u64 \<Rightarrow> (nat \<times> (u64 list \<times> (nat \<times> nat) list) list) result option" where
  "ensure_test_file env path bytes seed =
     (if fe_size env = Some bytes then Some (Inr (0, []))
      else case fe_create env of
        Some (e, c) \<Rightarrow> Some (Inl (Runtime_error (errno_message ''cannot create test file'' path e c)))
      | None \<Rightarrow>
          if \<not> fe_fallocate env \<and> fe_truncate env \<noteq> None then
            (case fe_truncate env of
               Some (e, c) \<Rightarrow> Some (Inl (Runtime_error (errno_message ''cannot size test file'' path e c)))
             | None \<Rightarrow> None)
          else (case fe_direct env of
            Some (e, c) \<Rightarrow> Some (Inl (Runtime_error (errno_message ''cannot open test file O_DIRECT'' path e c)))
          | None \<Rightarrow>
              (case fill_file bytes 0 (seed OR 1) (fe_writes env) of
                 None \<Rightarrow> None
               | Some (Inl e) \<Rightarrow> Some (Inl e)
               | Some (Inr r) \<Rightarrow>
                   (case fe_sync env of
                      Some (e, c) \<Rightarrow> Some (Inl (Runtime_error (errno_message ''fdatasync on test file'' path e c)))
                    | None \<Rightarrow> Some (Inr r)))))"

section \<open>The workloads\<close>

record disk_base =
  d_path :: string
  d_file_bytes :: u64
  d_block :: u64
  d_batch_units :: u64
  d_thread_index :: int
  d_thread_count :: int
  d_writing :: bool
  d_dsync :: bool
  d_fadvise_calls :: u64

definition remove_test_file :: "string \<Rightarrow> (string \<rightharpoonup> nat) \<Rightarrow> bool \<times> (string \<rightharpoonup> nat)" where
  "remove_test_file path fs = (fs path \<noteq> None, fs(path := None))"

text \<open>
  \<open>opened\<close> and \<open>stat\<close> are the outcomes of \<open>open\<close> and \<open>fstat\<close> (an error, or the size),
  \<open>alloc\<close> that of the buffer allocation.
\<close>

definition open_for ::
  "string option \<Rightarrow> (string \<times> int) option \<Rightarrow> (string \<times> int) + u64 \<Rightarrow> unit result \<Rightarrow>
   string \<Rightarrow> int \<Rightarrow> int \<Rightarrow> u64 \<Rightarrow> bool \<Rightarrow> bool \<Rightarrow> disk_base result" where
  "open_for home opened stat alloc disk_path thread_index thread_count block writing dsync =
     (let path = (if disk_path \<noteq> [] then disk_path else default_disk_path home) in
      case opened of
        Some (e, c) \<Rightarrow> Inl (Runtime_error (errno_message ''cannot open test file'' path e c))
      | None \<Rightarrow>
          (case stat of
             Inl (e, c) \<Rightarrow> Inl (Runtime_error (errno_message ''cannot stat test file'' path e c))
           | Inr file_bytes \<Rightarrow>
               if file_bytes < block then
                 Inl (Runtime_error (''test file '' @ quoted path @ '' is '' @ to_dec (unat file_bytes)
                   @ '' bytes, smaller than one '' @ to_dec (unat block) @ '' byte block''))
               else rbind alloc (\<lambda>_. Inr
                 \<lparr>d_path = path, d_file_bytes = file_bytes, d_block = block, d_batch_units = 0,
                  d_thread_index = thread_index, d_thread_count = max 1 thread_count,
                  d_writing = writing, d_dsync = dsync, d_fadvise_calls = 0\<rparr>)))"

definition base_before_trial :: "disk_base \<Rightarrow> disk_base" where
  "base_before_trial d = d\<lparr>d_fadvise_calls := d_fadvise_calls d + 1\<rparr>"

text \<open>The run-wide budget counter, when there is one.\<close>

definition note_written :: "u64 \<Rightarrow> u64 option \<Rightarrow> u64 option" where
  "note_written bytes budget = map_option (\<lambda>b. b + bytes) budget"

subsection \<open>Sequential\<close>

abbreviation kBlocksPerBatch :: nat where
  "kBlocksPerBatch \<equiv> 16"

record disk_seq = disk_base +
  ds_region_off :: u64
  ds_region_len :: u64
  ds_pos :: u64

definition seq_region :: "u64 \<Rightarrow> u64 \<Rightarrow> int \<Rightarrow> int \<Rightarrow> u64 \<times> u64" where
  "seq_region file_bytes block thread_index thread_count =
     (let blocks = file_bytes div block;
          per = max 1 (blocks div word_of_int thread_count);
          i = word_of_int thread_index;
          off = min (i * per) (if 0 < blocks then blocks - 1 else 0) * block;
          remaining = blocks - off div block
      in (off, min per remaining * block))"

definition disk_seq_setup :: "Metric \<Rightarrow> (bool \<Rightarrow> disk_base result) \<Rightarrow> disk_seq result" where
  "disk_seq_setup metric opened =
     rbind (opened (metric = M_disk_seq_write_bw)) (\<lambda>d.
       let (off, len) = seq_region (d_file_bytes d) (d_block d) (d_thread_index d) (d_thread_count d) in
       Inr (disk_base.extend (d\<lparr>d_batch_units := of_nat kBlocksPerBatch * d_block d\<rparr>)
              \<lparr>ds_region_off = off, ds_region_len = len, ds_pos = 0\<rparr>))"

text \<open>
  The loop of \<open>run_batch\<close>: \<open>ios\<close> are the outcomes of each block's transfer; the result is the
  number of bytes moved, the new state and the file ranges touched.
\<close>

fun disk_seq_blocks ::
  "nat \<Rightarrow> disk_seq \<Rightarrow> io list list \<Rightarrow> (nat \<times> disk_seq \<times> (nat \<times> nat) list) result option" where
  "disk_seq_blocks 0 d ios = Some (Inr (0, d, []))"
| "disk_seq_blocks (Suc b) d [] = None"
| "disk_seq_blocks (Suc b) d (io # ios) =
     (let off = unat (ds_region_off d + ds_pos d); len = unat (d_block d) in
      case (if d_writing d then full_pwrite len off 0 [] io else full_pread len off 0 [] io) of
        None \<Rightarrow> None
      | Some (Inl e) \<Rightarrow> Some (Inl e)
      | Some (Inr (n, segs)) \<Rightarrow>
          let pos = ds_pos d + d_block d;
              pos = (if ds_region_len d < pos + d_block d then 0 else pos)
          in (case disk_seq_blocks b (d\<lparr>ds_pos := pos\<rparr>) ios of
                None \<Rightarrow> None
              | Some (Inl e) \<Rightarrow> Some (Inl e)
              | Some (Inr (moved, d', segs')) \<Rightarrow> Some (Inr (n + moved, d', segs @ segs'))))"

definition disk_seq_run_batch ::
  "disk_seq \<Rightarrow> u64 option \<Rightarrow> io list list \<Rightarrow> (string \<times> int) option \<Rightarrow>
   (nat \<times> disk_seq \<times> u64 option \<times> (nat \<times> nat) list) result option" where
  "disk_seq_run_batch d budget ios sync =
     (case disk_seq_blocks kBlocksPerBatch d ios of
        None \<Rightarrow> None
      | Some (Inl e) \<Rightarrow> Some (Inl e)
      | Some (Inr (moved, d', segs)) \<Rightarrow>
          if d_writing d then
            (case sync of
               Some (e, c) \<Rightarrow> Some (Inl (Runtime_error (errno_message ''fdatasync'' (d_path d) e c)))
             | None \<Rightarrow> Some (Inr (moved, d', note_written (of_nat moved) budget, segs)))
          else Some (Inr (moved, d', budget, segs)))"

subsection \<open>Random\<close>

abbreviation kIosPerBatch :: nat where
  "kIosPerBatch \<equiv> 32"

text \<open>
  \<open>dr_draws\<close> counts the numbers drawn from the generator \<open>rs\<close>. \<open>dr_hist\<close>, \<open>dr_used\<close> are the
  two-element arrays, indexed by \<open>dr_cur\<close>.
\<close>

record disk_rand = disk_base +
  dr_hist :: "bool \<Rightarrow> u32 list"
  dr_used :: "bool \<Rightarrow> nat"
  dr_cur :: bool
  dr_blocks :: u64
  dr_draws :: nat

definition disk_rand_setup :: "Metric \<Rightarrow> (bool \<Rightarrow> disk_base result) \<Rightarrow> disk_rand result" where
  "disk_rand_setup metric opened =
     (let writing = (metric = M_disk_rand_write_iops) in
      rbind (opened writing) (\<lambda>d.
        Inr (disk_base.extend (d\<lparr>d_batch_units := of_nat kIosPerBatch\<rparr>)
               \<lparr>dr_hist = (\<lambda>_. replicate kLatencyHistogramSize 0), dr_used = (\<lambda>_. 0), dr_cur = False,
                dr_blocks = d_file_bytes d div d_block d,
                dr_draws = (if writing then unat (d_block d) div 8 else 0)\<rparr>)))"

definition disk_rand_before_trial :: "disk_rand \<Rightarrow> disk_rand" where
  "disk_rand_before_trial d =
     (let d = d\<lparr>d_fadvise_calls := d_fadvise_calls d + 1, dr_cur := \<not> dr_cur d\<rparr>; c = dr_cur d in
      if 0 < dr_used d c then
        let h = replicate (dr_used d c) 0 @ drop (dr_used d c) (dr_hist d c) in
        d\<lparr>dr_hist := (dr_hist d)(c := h[kLatencyOverflowBucket := 0]), dr_used := (dr_used d)(c := 0)\<rparr>
      else d)"

definition latency_bucket :: "u64 \<Rightarrow> nat" where
  "latency_bucket ns =
     (let us = ns div 1000 in if of_nat kLatencyBuckets \<le> us then kLatencyOverflowBucket else unat us)"

definition record_latency :: "disk_rand \<Rightarrow> u64 \<Rightarrow> disk_rand" where
  "record_latency d ns =
     (let bucket = latency_bucket ns; c = dr_cur d in
      d\<lparr>dr_hist := (dr_hist d)(c := (dr_hist d c)[bucket := dr_hist d c ! bucket + 1]),
        dr_used := (dr_used d)(c := max (dr_used d c) (bucket + 1))\<rparr>)"

text \<open>Each element of \<open>ios\<close> holds the outcomes of one transfer and the nanoseconds it took.\<close>

fun disk_rand_ios ::
  "(nat \<Rightarrow> u64) \<Rightarrow> nat \<Rightarrow> disk_rand \<Rightarrow> (io list \<times> u64) list \<Rightarrow>
   (nat \<times> disk_rand \<times> (nat \<times> nat) list) result option" where
  "disk_rand_ios rs 0 d ios = Some (Inr (0, d, []))"
| "disk_rand_ios rs (Suc i) d [] = None"
| "disk_rand_ios rs (Suc i) d ((io, ns) # ios) =
     (let off = unat ((rs (dr_draws d) mod dr_blocks d) * d_block d); len = unat (d_block d);
          d = d\<lparr>dr_draws := dr_draws d + 1\<rparr>
      in case (if d_writing d then full_pwrite len off 0 [] io else full_pread len off 0 [] io) of
           None \<Rightarrow> None
         | Some (Inl e) \<Rightarrow> Some (Inl e)
         | Some (Inr (n, segs)) \<Rightarrow>
             (case disk_rand_ios rs i (record_latency d ns) ios of
                None \<Rightarrow> None
              | Some (Inl e) \<Rightarrow> Some (Inl e)
              | Some (Inr (written, d', segs')) \<Rightarrow>
                  Some (Inr ((if d_writing d then n else 0) + written, d', segs @ segs'))))"

definition disk_rand_run_batch ::
  "(nat \<Rightarrow> u64) \<Rightarrow> disk_rand \<Rightarrow> u64 option \<Rightarrow> (io list \<times> u64) list \<Rightarrow>
   (nat \<times> disk_rand \<times> u64 option \<times> (nat \<times> nat) list) result option" where
  "disk_rand_run_batch rs d budget ios =
     (case disk_rand_ios rs kIosPerBatch d ios of
        None \<Rightarrow> None
      | Some (Inl e) \<Rightarrow> Some (Inl e)
      | Some (Inr (written, d', segs)) \<Rightarrow>
          Some (Inr (kIosPerBatch, d', if d_writing d then note_written (of_nat written) budget else budget, segs)))"

section \<open>Transfers cover their range\<close>

text \<open>\<open>tiles a segs b\<close>: the ranges follow one another without a gap from \<open>a\<close> to \<open>b\<close>.\<close>

fun tiles :: "nat \<Rightarrow> (nat \<times> nat) list \<Rightarrow> nat \<Rightarrow> bool" where
  "tiles a [] b \<longleftrightarrow> a = b"
| "tiles a ((off, n) # segs) b \<longleftrightarrow> off = a \<and> 0 < n \<and> tiles (a + n) segs b"

lemma tiles_append: "tiles a (xs @ ys) c \<longleftrightarrow> (\<exists>b. tiles a xs b \<and> tiles b ys c)"
  by (induction a xs c rule: tiles.induct) auto

text \<open>A system call never transfers more than it was asked for.\<close>

fun io_fits :: "nat \<Rightarrow> io list \<Rightarrow> bool" where
  "io_fits len (Transferred n # io) \<longleftrightarrow> len = 0 \<or> (n \<le> len \<and> io_fits (len - n) io)"
| "io_fits len _ \<longleftrightarrow> True"

lemma full_io_step:
  assumes "tiles off segs (off + d)" "d \<le> len" "io_fits (len - d) io"
  shows "full_pread len off d segs io = Some (Inr (n, segs')) \<Longrightarrow> n = len \<and> tiles off segs' (off + len)"
    and "full_pwrite len off d segs io = Some (Inr (n, segs')) \<Longrightarrow> n = len \<and> tiles off segs' (off + len)"
proof -
  show "full_pread len off d segs io = Some (Inr (n, segs')) \<Longrightarrow> n = len \<and> tiles off segs' (off + len)"
    using assms
  proof (induction io arbitrary: d segs)
    case (Cons r io)
    then show ?case by (cases r) (auto simp: tiles_append add.assoc split: if_splits)
  qed (auto split: if_splits)
  show "full_pwrite len off d segs io = Some (Inr (n, segs')) \<Longrightarrow> n = len \<and> tiles off segs' (off + len)"
    using assms
  proof (induction io arbitrary: d segs)
    case (Cons r io)
    then show ?case by (cases r) (auto simp: tiles_append add.assoc split: if_splits)
  qed (auto split: if_splits)
qed

lemmas full_io = full_io_step [where d = 0 and segs = "[]", simplified]

text \<open>Every call makes progress or ends the loop, and only a failing call fails the transfer.\<close>

lemma full_io_returns:
  "len \<le> d + length io \<Longrightarrow> (\<exists>r. full_pread len off d segs io = Some r) \<and> (\<exists>r. full_pwrite len off d segs io = Some r)"
proof (induction io arbitrary: d segs)
  case (Cons r io)
  show ?case
  proof (cases r)
    case (Transferred n)
    then show ?thesis using Cons.IH [of "d + n"] Cons.prems by auto
  qed auto
qed auto

lemma full_io_fails:
  "full_pread len off d segs io = Some (Inl e) \<or> full_pwrite len off d segs io = Some (Inl e) \<Longrightarrow>
   Transferred 0 \<in> set io \<or> (\<exists>m. Io_error m \<in> set io)"
proof (induction io arbitrary: d segs)
  case (Cons r io)
  then show ?case by (cases r) (auto split: if_splits)
qed (auto split: if_splits)

text \<open>
  A short read or write never goes unnoticed: \<open>full_pread\<close> and \<open>full_pwrite\<close> return after at
  most as many system calls as there are bytes; when they return normally, it is exactly the
  requested length, and the ranges their calls transferred follow one another without gap or
  overlap from the requested offset to its end; and they throw only when a call failed or
  transferred nothing.
\<close>

theorem full_transfer:
  assumes "io_fits len io" "len \<le> length io"
  shows "(\<exists>r. full_pread len off 0 [] io = Some r) \<and> (\<exists>r. full_pwrite len off 0 [] io = Some r)
    \<and> (full_pread len off 0 [] io = Some (Inr (n, segs)) \<longrightarrow> n = len \<and> tiles off segs (off + len))
    \<and> (full_pwrite len off 0 [] io = Some (Inr (n, segs)) \<longrightarrow> n = len \<and> tiles off segs (off + len))
    \<and> (full_pread len off 0 [] io = Some (Inl e) \<or> full_pwrite len off 0 [] io = Some (Inl e) \<longrightarrow>
       Transferred 0 \<in> set io \<or> (\<exists>m. Io_error m \<in> set io))"
  using full_io [OF assms(1)] full_io_returns [of len 0 io] full_io_fails assms(2) by (simp; blast)

theorem full_transfer_witness:
  "full_pread 3 100 0 [] [Transferred 1, Transferred 2, Transferred 0] = Some (Inr (3, [(100, 1), (101, 2)])) \<and>
   tiles 100 [(100, 1), (101, 2)] 103"
  using full_transfer [of 3 "[Transferred 1, Transferred 2, Transferred 0]" 100 3 "[(100, 1), (101, 2)]"] by simp

section \<open>The test file holds no zero word\<close>

lemma xor_0_eq: "a XOR b = 0 \<Longrightarrow> a = b" for a b :: u64
proof -
  assume ab: "a XOR b = 0"
  have "a = (a XOR b) XOR b" by (simp add: xor.assoc)
  then show ?thesis by (simp only: ab xor.left_neutral)
qed

lemma xor_shift_left_0: "0 < n \<Longrightarrow> x XOR push_bit n x = 0 \<Longrightarrow> x = 0" for x :: u64
proof -
  assume n: "0 < n" and h: "x XOR push_bit n x = 0"
  have eq: "x = push_bit n x" by (rule xor_0_eq [OF h])
  have "\<not> bit x k" for k
  proof (induction k rule: less_induct)
    case (less k)
    have e: "bit x k = bit (push_bit n x) k" by (rule arg_cong [OF eq])
    show ?case using less [of "k - n"] n unfolding e by (auto simp: bit_push_bit_iff)
  qed
  then show ?thesis by (simp add: bit_eq_iff)
qed

lemma xor_shift_right_0: "0 < n \<Longrightarrow> x XOR drop_bit n x = 0 \<Longrightarrow> x = 0" for x :: u64
proof -
  assume n: "0 < n" and h: "x XOR drop_bit n x = 0"
  have eq: "x = drop_bit n x" by (rule xor_0_eq [OF h])
  have "\<not> bit x k" for k
  proof (induction "64 - k" arbitrary: k rule: less_induct)
    case less
    show ?case
    proof (cases "k < 64")
      case True
      then have "\<not> bit x (n + k)" using n by (intro less) simp
      moreover have "bit x k = bit (drop_bit n x) k" by (rule arg_cong [OF eq])
      ultimately show ?thesis by (simp add: bit_drop_bit_eq)
    qed (use bit_imp_le_length [of x k] in auto)
  qed
  then show ?thesis by (simp add: bit_eq_iff)
qed

lemma xorshift_nonzero: "x \<noteq> 0 \<Longrightarrow> xorshift x \<noteq> 0"
proof -
  assume x: "x \<noteq> 0"
  define x1 where "x1 = x XOR push_bit 13 x"
  define x2 where "x2 = x1 XOR drop_bit 7 x1"
  have "x1 \<noteq> 0" using x xor_shift_left_0 [of 13 x] by (auto simp: x1_def)
  then have "x2 \<noteq> 0" using xor_shift_right_0 [of 7 x1] by (auto simp: x2_def)
  then have "x2 XOR push_bit 17 x2 \<noteq> 0" using xor_shift_left_0 [of 17 x2] by auto
  then show ?thesis unfolding xorshift_def Let_def x1_def x2_def .
qed

lemma fill_block_nonzero:
  "x \<noteq> 0 \<Longrightarrow> fill_block n x = (ws, y) \<Longrightarrow> length ws = n \<and> (\<forall>w\<in>set ws. w \<noteq> 0) \<and> y \<noteq> 0"
proof (induction n arbitrary: x ws)
  case (Suc n)
  obtain vs z where r: "fill_block n (xorshift x) = (vs, z)" by fastforce
  then have "ws = xorshift x # vs" "z = y" using Suc.prems(2) by (auto simp: Let_def)
  then show ?case
    using Suc.IH [OF xorshift_nonzero [OF Suc.prems(1)]] r xorshift_nonzero [OF Suc.prems(1)] by auto
qed auto

lemma fill_file_covers:
  assumes "fill_file bytes off x ios = Some (Inr (w, blocks))" "x \<noteq> 0" "off \<le> bytes"
    and "\<forall>k<length ios. io_fits (min 0x100000 (bytes - (off + k * 0x100000))) (ios ! k)"
  shows "w = bytes - off \<and> tiles off (concat (map snd blocks)) bytes
    \<and> (\<forall>(words, segs)\<in>set blocks. length words = 131072 \<and> (\<forall>v\<in>set words. v \<noteq> 0))"
  using assms
proof (induction bytes off x ios arbitrary: w blocks rule: fill_file.induct)
  case (1 bytes off x ios)
  show ?case
  proof (cases "off < bytes")
    case True
    obtain words y where fb: "fill_block (unat kDiskSeqBlock div 8) x = (words, y)" by fastforce
    define len where "len = min (unat kDiskSeqBlock) (bytes - off)"
    obtain io rest n segs w' blocks' where ios: "ios = io # rest"
      and pw: "full_pwrite len off 0 [] io = Some (Inr (n, segs))"
      and rec: "fill_file bytes (off + unat kDiskSeqBlock) y rest = Some (Inr (w', blocks'))"
      and res: "w = n + w'" "blocks = (words, segs) # blocks'"
      using 1(2) True fb unfolding fill_file.simps [of bytes off x ios]
      by (auto simp: len_def split: list.splits option.splits sum.splits)
    have ws: "length words = 131072" "\<forall>v\<in>set words. v \<noteq> 0" "y \<noteq> 0"
      using fill_block_nonzero [OF 1(3) fb] by auto
    have n: "n = len" "tiles off segs (off + len)"
      using full_io(2) [OF _ pw] 1(5) [rule_format, of 0] ios by (auto simp: len_def)
    show ?thesis
    proof (cases "off + unat kDiskSeqBlock \<le> bytes")
      case True
      then have l: "len = unat kDiskSeqBlock" by (simp add: len_def)
      have "w' = bytes - (off + unat kDiskSeqBlock) \<and> tiles (off + unat kDiskSeqBlock) (concat (map snd blocks')) bytes
        \<and> (\<forall>(words, segs)\<in>set blocks'. length words = 131072 \<and> (\<forall>v\<in>set words. v \<noteq> 0))"
      proof (rule 1(1) [OF \<open>off < bytes\<close> fb [symmetric] refl len_def ios pw refl refl rec ws(3)])
        show "\<forall>k<length rest. io_fits (min 0x100000 (bytes - (off + unat kDiskSeqBlock + k * 0x100000))) (rest ! k)"
        proof (intro allI impI)
          fix k assume "k < length rest"
          then show "io_fits (min 0x100000 (bytes - (off + unat kDiskSeqBlock + k * 0x100000))) (rest ! k)"
            using 1(5) [rule_format, of "Suc k"] ios by (simp add: add.assoc)
        qed
      qed (use True in simp)
      then show ?thesis using res n ws l True by (auto simp: tiles_append)
    next
      case False
      then have l: "off + len = bytes" using True by (simp add: len_def)
      have "fill_file bytes (off + unat kDiskSeqBlock) y rest = Some (Inr (0, []))"
        using False by (subst fill_file.simps) simp
      then have "w' = 0" "blocks' = []" using rec by auto
      then show ?thesis using res n ws l by auto
    qed
  next
    case False
    then have "fill_file bytes off x ios = Some (Inr (0, []))" by (subst fill_file.simps) simp
    then show ?thesis using False 1 by auto
  qed
qed

text \<open>
  The test file is really written: when the file has to be created and creation
  succeeds, the bytes written are the requested size, the transfers cover the file from its
  first to its last byte without a gap, and no 64-bit word of the fill is zero, so no part of
  the file is sparse or a run of zeros. A file of the right size is left alone.
\<close>

theorem ensure_test_file_fills:
  assumes "ensure_test_file env path bytes seed = Some (Inr (w, blocks))"
    "\<forall>k<length (fe_writes env). io_fits (min 0x100000 (bytes - k * 0x100000)) (fe_writes env ! k)"
  shows "(fe_size env = Some bytes \<longrightarrow> w = 0 \<and> blocks = [])
    \<and> (fe_size env \<noteq> Some bytes \<longrightarrow> w = bytes \<and> tiles 0 (concat (map snd blocks)) bytes
        \<and> (\<forall>(words, segs)\<in>set blocks. length words = 131072 \<and> (\<forall>v\<in>set words. v \<noteq> 0)))"
proof -
  have "bit (seed OR 1) 0" by (simp add: bit_or_iff)
  then have "seed OR 1 \<noteq> 0" by auto
  then show ?thesis
    using assms fill_file_covers [of bytes 0 "seed OR 1" "fe_writes env" w blocks]
    by (auto simp: ensure_test_file_def split: if_splits option.splits sum.splits)
qed

theorem ensure_test_file_fills_witness:
  "\<exists>blocks. ensure_test_file \<lparr>fe_size = None, fe_create = None, fe_fallocate = True, fe_truncate = None,
       fe_direct = None, fe_writes = [[Transferred 4096]], fe_sync = None\<rparr> ''f'' 4096 7 = Some (Inr (4096, blocks))
     \<and> tiles 0 (concat (map snd blocks)) 4096"
proof -
  let ?env = "\<lparr>fe_size = None, fe_create = None, fe_fallocate = True, fe_truncate = None,
       fe_direct = None, fe_writes = [[Transferred 4096]], fe_sync = None\<rparr>"
  obtain words y where "fill_block 131072 7 = (words, y)" by fastforce
  then obtain blocks where b: "ensure_test_file ?env ''f'' 4096 7 = Some (Inr (4096, blocks))"
    by (simp add: ensure_test_file_def fill_file.simps)
  show ?thesis using ensure_test_file_fills [OF b] b by auto
qed

section \<open>Sequential regions\<close>

lemma seq_region_nat:
  assumes "0 < block" "block \<le> file" "0 \<le> i" "i < n" "n < 2 ^ 31"
  defines "B \<equiv> unat file div unat block"
  defines "P \<equiv> max 1 (B div nat n)"
  shows "unat (fst (seq_region file block i n)) = min (nat i * P) (B - 1) * unat block"
    and "unat (snd (seq_region file block i n)) = min P (B - min (nat i * P) (B - 1)) * unat block"
proof -
  define b where "b = unat block"
  have b: "0 < b" using assms(1) by (simp add: b_def word_less_nat_alt)
  have Bb: "B * b \<le> unat file" "unat file < 2 ^ 64" by (simp add: B_def b_def) (rule u64_lt)
  have B1: "1 \<le> B" using assms(1,2) by (simp add: B_def word_le_nat_alt word_less_nat_alt div_greater_zero_iff Suc_le_eq)
  have B64: "B < 2 ^ 64" using Bb b B1 by (metis le_less_trans mult.right_neutral mult_le_mono2 Suc_leI One_nat_def)
  have blocks: "unat (file div block) = B" by (simp add: unat_div B_def)
  have wn: "unat (word_of_int n :: u64) = nat n" "unat (word_of_int i :: u64) = nat i"
    using assms(3-5) by (simp_all add: unat_eq_nat_uint uint_word_of_int)
  have per: "unat (max 1 (file div block div word_of_int n)) = P"
    by (simp add: unat_max unat_div blocks wn P_def B_def)
  have "nat i * P < 2 ^ 64"
  proof (cases "B div nat n = 0")
    case True
    then show ?thesis using assms(3-5) by (simp add: P_def)
  next
    case False
    then have "nat i * P \<le> nat n * (B div nat n)" using assms(4) by (simp add: P_def mult_le_mono1)
    also have "\<dots> \<le> B" by simp
    finally show ?thesis using B64 by linarith
  qed
  then have ip: "unat (word_of_int i * max 1 (file div block div word_of_int n)) = nat i * P"
    by (subst unat_mult_lt) (simp_all add: wn per)
  have last: "unat (if 0 < file div block then file div block - 1 else 0) = B - 1"
    using B1 blocks by (auto simp: word_less_nat_alt unat_sub_if_size)
  define m where "m = min (nat i * P) (B - 1)"
  have m: "m < B" "m * b < 2 ^ 64"
  proof -
    show "m < B" using B1 by (simp add: m_def)
    then have "m * b \<le> B * b" by simp
    then show "m * b < 2 ^ 64" using Bb by linarith
  qed
  define mw where "mw = min (word_of_int i * max 1 (file div block div word_of_int n))
    (if 0 < file div block then file div block - 1 else 0)"
  have mw: "unat mw = m" unfolding mw_def unat_min ip last by (simp add: m_def)
  have off: "unat (mw * block) = m * b" using m(2) by (subst unat_mult_lt) (simp_all add: mw b_def)
  then show "unat (fst (seq_region file block i n)) = min (nat i * P) (B - 1) * unat block"
    unfolding seq_region_def Let_def mw_def [symmetric] fst_conv m_def b_def .
  have "unat (mw * block div block) = m" using b by (simp add: unat_div off flip: b_def)
  then have rem: "unat (file div block - mw * block div block) = B - m"
    using m(1) blocks by (simp add: unat_sub word_le_nat_alt)
  have "min P (B - m) * b \<le> B * b" by (rule mult_le_mono1) simp
  then have lt: "min P (B - m) * b < 2 ^ 64" using Bb by linarith
  define lw where "lw = min (max 1 (file div block div word_of_int n)) (file div block - mw * block div block)"
  have lw: "unat lw = min P (B - m)" unfolding lw_def unat_min per rem ..
  have "unat (lw * block) = unat lw * unat block"
    by (rule unat_mult_lt) (use lt in \<open>simp add: lw b_def\<close>)
  then show "unat (snd (seq_region file block i n)) = min P (B - min (nat i * P) (B - 1)) * unat block"
    unfolding seq_region_def Let_def mw_def [symmetric] lw_def [symmetric] snd_conv lw m_def .
qed

abbreviation region_off :: "u64 \<Rightarrow> u64 \<Rightarrow> int \<Rightarrow> int \<Rightarrow> nat" where
  "region_off file block i n \<equiv> unat (fst (seq_region file block i n))"

abbreviation region_len :: "u64 \<Rightarrow> u64 \<Rightarrow> int \<Rightarrow> int \<Rightarrow> nat" where
  "region_len file block i n \<equiv> unat (snd (seq_region file block i n))"

lemma seq_region_inside:
  assumes "0 < block" "block \<le> file" "0 \<le> i" "i < n" "n < 2 ^ 31"
  shows "unat block dvd region_off file block i n \<and> unat block dvd region_len file block i n
    \<and> unat block \<le> region_len file block i n \<and> region_off file block i n + region_len file block i n \<le> unat file"
proof -
  define b B P where "b = unat block" and "B = unat file div b" and "P = max 1 (B div nat n)"
  define m where "m = min (nat i * P) (B - 1)"
  note r = seq_region_nat [OF assms, folded b_def, folded B_def, folded P_def, folded m_def]
  have b: "0 < b" using assms(1) by (simp add: b_def word_less_nat_alt)
  have "1 \<le> B" using assms(1,2) b by (simp add: B_def b_def word_le_nat_alt div_greater_zero_iff Suc_le_eq)
  then have m: "m < B" by (simp add: m_def)
  have "1 \<le> min P (B - m)" using m by (simp add: P_def)
  then have "b \<le> min P (B - m) * b" by simp
  moreover have "(m + min P (B - m)) * b \<le> B * b" by (rule mult_le_mono1) (use m in simp)
  moreover have "B * b \<le> unat file" by (simp add: B_def)
  ultimately show ?thesis unfolding r b_def [symmetric] by (simp add: add_mult_distrib)
qed

text \<open>
  Sequential streams: each thread's region is block aligned, holds at least one block and
  lies inside the file; when there are at least as many blocks as threads, the region of a
  later thread starts at or after the end of an earlier thread's region.
\<close>

theorem seq_regions_disjoint:
  assumes "0 < block" "block \<le> file" "0 \<le> i" "i < j" "j < n" "n < 2 ^ 31"
    "n \<le> int (unat file div unat block)"
  shows "unat block dvd region_off file block i n \<and> unat block \<le> region_len file block i n
    \<and> region_off file block i n + region_len file block i n \<le> region_off file block j n
    \<and> region_off file block j n + region_len file block j n \<le> unat file"
proof -
  define b B where "b = unat block" and "B = unat file div b"
  define P where "P = max 1 (B div nat n)"
  have ij: "i < n" "0 \<le> j" using assms by linarith+
  note ri = seq_region_nat [OF assms(1-3) ij(1) assms(6), folded b_def, folded B_def, folded P_def]
    and rj = seq_region_nat [OF assms(1,2) ij(2) assms(5,6), folded b_def, folded B_def, folded P_def]
  have N: "nat n \<le> B" "0 < nat n" using assms by (auto simp: B_def b_def)
  then have P: "P = B div nat n" by (simp add: P_def div_greater_zero_iff Suc_le_eq max_def)
  have "nat i + 1 \<le> nat j" "nat j + 1 \<le> nat n" using assms(3-5) by linarith+
  then have le: "(nat i + 1) * P \<le> nat j * P" "(nat j + 1) * P \<le> nat n * P" by (simp_all only: mult_le_mono1)
  have nP: "nat n * P \<le> B" by (simp add: P)
  have P1: "1 \<le> P" by (simp add: P_def)
  have sm: "min (nat i * P) (B - 1) = nat i * P" "min (nat j * P) (B - 1) = nat j * P"
    using le nP P1 by (simp_all add: min_def)
  have "min P (B - nat i * P) \<le> P" by simp
  then have "(nat i * P + min P (B - nat i * P)) * b \<le> (nat j * P) * b" using le(1) by (intro mult_le_mono1) simp
  then have "region_off file block i n + region_len file block i n \<le> region_off file block j n"
    unfolding ri rj sm by (simp add: add_mult_distrib)
  then show ?thesis
    using seq_region_inside [OF assms(1-3) ij(1) assms(6)] seq_region_inside [OF assms(1,2) ij(2) assms(5,6)] by blast
qed

theorem seq_regions_disjoint_witness:
  "region_off 0x400000 0x100000 0 2 + region_len 0x400000 0x100000 0 2 \<le> region_off 0x400000 0x100000 1 2
   \<and> region_off 0x400000 0x100000 1 2 + region_len 0x400000 0x100000 1 2 \<le> 0x400000"
  using seq_regions_disjoint [of "0x100000" "0x400000" 0 1 2] by simp

section \<open>Random offsets and the latency histogram\<close>

text \<open>The offsets of random I/O are block aligned and inside the file.\<close>

lemma rand_offset:
  fixes block "file" r :: u64
  assumes "0 < block" "block \<le> file"
  shows "unat ((r mod (file div block)) * block) = (unat r mod (unat file div unat block)) * unat block"
    and "(unat r mod (unat file div unat block)) * unat block + unat block \<le> unat file"
proof -
  define b B where "b = unat block" and "B = unat file div b"
  have b: "0 < b" using assms(1) by (simp add: b_def word_less_nat_alt)
  then have B: "0 < B" using assms by (simp add: B_def b_def word_le_nat_alt div_greater_zero_iff)
  have "(unat r mod B + 1) * b \<le> B * b" by (rule mult_le_mono1) (use B in \<open>simp add: Suc_leI\<close>)
  also have "\<dots> \<le> unat file" by (simp add: B_def)
  finally have le: "(unat r mod B) * b + b \<le> unat file" by simp
  then show "(unat r mod (unat file div unat block)) * unat block + unat block \<le> unat file"
    by (simp add: b_def B_def)
  have "unat (r mod (file div block)) = unat r mod B" by (simp add: unat_mod unat_div B_def b_def)
  moreover have "(unat r mod B) * b < 2 ^ 64" using le b u64_lt [of "file"] by linarith
  ultimately show "unat ((r mod (file div block)) * block) = (unat r mod (unat file div unat block)) * unat block"
    by (subst unat_mult_lt) (simp_all add: b_def B_def)
qed

text \<open>
  The state of the two histograms: full size, and empty from the high-water mark on.
\<close>

definition hist_inv :: "disk_rand \<Rightarrow> bool" where
  "hist_inv d \<longleftrightarrow> (\<forall>c. length (dr_hist d c) = kLatencyHistogramSize \<and> dr_used d c \<le> kLatencyHistogramSize
     \<and> (\<forall>b. dr_used d c \<le> b \<and> b < kLatencyHistogramSize \<longrightarrow> dr_hist d c ! b = 0))"

lemma bucket_lt: "latency_bucket ns < kLatencyHistogramSize"
  by (auto simp: latency_bucket_def Let_def word_le_nat_alt not_le)

lemma hist_inv_setup: "disk_rand_setup m opened = Inr d \<Longrightarrow> hist_inv d"
  by (auto simp: disk_rand_setup_def rbind_eq_Inr hist_inv_def disk_base.defs Let_def)

lemma before_trial_clears:
  assumes "hist_inv d"
  defines "d' \<equiv> disk_rand_before_trial d"
  shows "hist_inv d'" and "dr_cur d' = (\<not> dr_cur d)"
    and "b < kLatencyHistogramSize \<Longrightarrow> dr_hist d' (dr_cur d') ! b = 0"
    and "dr_hist d' (dr_cur d) = dr_hist d (dr_cur d)" and "dr_used d' (dr_cur d) = dr_used d (dr_cur d)"
proof -
  define c where "c = (\<not> dr_cur d)"
  define h where "h = replicate (dr_used d c) 0 @ drop (dr_used d c) (dr_hist d c)"
  have inv: "length (dr_hist d c) = kLatencyHistogramSize" "dr_used d c \<le> kLatencyHistogramSize"
      "\<And>b. dr_used d c \<le> b \<Longrightarrow> b < kLatencyHistogramSize \<Longrightarrow> dr_hist d c ! b = 0"
    using assms(1) by (auto simp: hist_inv_def)
  have len: "length h = kLatencyHistogramSize" using inv by (simp add: h_def)
  have h0: "h ! b = 0" if "b < kLatencyHistogramSize" for b
    using that inv by (simp add: h_def nth_append)
  have d': "d' = (if 0 < dr_used d c
      then d\<lparr>d_fadvise_calls := d_fadvise_calls d + 1, dr_cur := c,
             dr_hist := (dr_hist d)(c := h[kLatencyOverflowBucket := 0]), dr_used := (dr_used d)(c := 0)\<rparr>
      else d\<lparr>d_fadvise_calls := d_fadvise_calls d + 1, dr_cur := c\<rparr>)"
    by (simp add: d'_def disk_rand_before_trial_def Let_def c_def h_def)
  have upd: "h[kLatencyOverflowBucket := 0] ! b = 0" if "b < kLatencyHistogramSize" for b
    using h0 [OF that] that len by (simp add: nth_list_update)
  show "hist_inv d'" "dr_cur d' = (\<not> dr_cur d)" "dr_hist d' (dr_cur d) = dr_hist d (dr_cur d)"
      "dr_used d' (dr_cur d) = dr_used d (dr_cur d)"
    using assms(1) upd len unfolding d' hist_inv_def by (auto simp: c_def)
  show "dr_hist d' (dr_cur d') ! b = 0" if "b < kLatencyHistogramSize"
    using upd [OF that] inv(3) [OF _ that] unfolding d' by auto
qed

lemma record_inv: "hist_inv d \<Longrightarrow> hist_inv (record_latency d ns)"
  using bucket_lt [of ns] by (auto simp: hist_inv_def record_latency_def Let_def nth_list_update)

lemma record_all:
  "hist_inv d \<Longrightarrow> hist_inv (foldl record_latency d ls) \<and> dr_cur (foldl record_latency d ls) = dr_cur d
   \<and> dr_hist (foldl record_latency d ls) (\<not> dr_cur d) = dr_hist d (\<not> dr_cur d)
   \<and> (b < kLatencyHistogramSize \<longrightarrow> dr_hist (foldl record_latency d ls) (dr_cur d) ! b =
       dr_hist d (dr_cur d) ! b + of_nat (length (filter (\<lambda>ns. latency_bucket ns = b) ls)))"
proof (induction ls arbitrary: d)
  case (Cons ns ls)
  let ?d = "record_latency d ns"
  have inv: "hist_inv ?d" and len: "length (dr_hist d (dr_cur d)) = kLatencyHistogramSize"
    using Cons.prems record_inv by (auto simp: hist_inv_def)
  have f: "dr_cur ?d = dr_cur d" "dr_hist ?d (\<not> dr_cur d) = dr_hist d (\<not> dr_cur d)"
    by (simp_all add: record_latency_def Let_def)
  have "dr_hist ?d (dr_cur d) ! b = dr_hist d (dr_cur d) ! b + (if latency_bucket ns = b then 1 else 0)"
    if "b < kLatencyHistogramSize"
    using that len by (simp add: record_latency_def Let_def nth_list_update)
  with Cons.IH [OF inv] f show ?case by simp
qed simp

text \<open>
  The latency histogram of a trial: after \<open>before_trial\<close> and any sequence of recorded
  latencies, bucket \<open>b\<close> of the current histogram holds the number of this trial's calls whose
  latency falls in it (modulo \<open>2 ^ 32\<close>), whatever earlier trials recorded; and neither clearing
  nor recording touches the other histogram, which the main thread may still be reading.
\<close>

theorem histogram_counts_trial:
  assumes "hist_inv d" "b < kLatencyHistogramSize"
  shows "let d' = foldl record_latency (disk_rand_before_trial d) ls in
    dr_hist d' (dr_cur d') ! b = of_nat (length (filter (\<lambda>ns. latency_bucket ns = b) ls))
    \<and> dr_hist d' (dr_cur d) = dr_hist d (dr_cur d) \<and> dr_cur d' = (\<not> dr_cur d) \<and> hist_inv d'"
  using record_all [OF before_trial_clears(1) [OF assms(1)], of ls b] before_trial_clears [OF assms(1)] assms(2)
  by (simp add: Let_def)

theorem histogram_counts_trial_witness:
  "\<exists>d. hist_inv d \<and> (let d' = foldl record_latency (disk_rand_before_trial d) [2500, 2700, 99000] in
     dr_hist d' (dr_cur d') ! 2 = 2)"
proof -
  obtain d where d: "disk_rand_setup M_disk_rand_read_iops (\<lambda>w. Inr \<lparr>d_path = [], d_file_bytes = 8192, d_block = 4096,
      d_batch_units = 0, d_thread_index = 0, d_thread_count = 1, d_writing = w, d_dsync = w, d_fadvise_calls = 0\<rparr>) = Inr d"
    by (simp add: disk_rand_setup_def)
  define ls :: "u64 list" where "ls = [2500, 2700, 99000]"
  have "length (filter (\<lambda>ns. latency_bucket ns = 2) ls) = 2"
    by (simp add: latency_bucket_def ls_def)
  then have "let d' = foldl record_latency (disk_rand_before_trial d) ls in dr_hist d' (dr_cur d') ! 2 = 2"
    using histogram_counts_trial [OF hist_inv_setup [OF d], of 2 ls] by (auto simp: Let_def)
  then show ?thesis using hist_inv_setup [OF d] unfolding ls_def by auto
qed

end
