(* ===== verification/Mem_Bw.thy ===== *)
theory Mem_Bw
  imports Workload Disk_Io
begin

text \<open>
  \<^verbatim>\<open>engine/src/workloads/mem_bw.cpp\<close>: streaming read, write and copy over a buffer of 64-bit words.
  A 32-byte non-temporal store is a store of four words; \<open>have_nt\<close> says whether the build has
  it. A kernel that leaves the buffer is \<open>None\<close>.
\<close>

section \<open>Kernels\<close>

text \<open>Eight accumulators over blocks of eight words, then the tail into the first.\<close>

function sum_loop8 :: "u64 list \<Rightarrow> nat \<Rightarrow> nat \<Rightarrow> u64 list \<Rightarrow> nat \<times> u64 list" where
  "sum_loop8 p words i s =
     (if i + 8 \<le> words then sum_loop8 p words (i + 8) (map (\<lambda>j. s ! j + p ! (i + j)) [0..<8]) else (i, s))"
  by auto
termination by (relation "measure (\<lambda>(p, words, i, s). words + 8 - i)") auto

declare sum_loop8.simps [simp del]

definition sum_words :: "u64 list \<Rightarrow> nat \<Rightarrow> u64" where
  "sum_words p words =
     (let (i, s) = sum_loop8 p words 0 (replicate 8 0);
          s0 = foldl (\<lambda>acc k. acc + p ! k) (s ! 0) [i..<words]
      in (s0 + s ! 1) + (s ! 2 + s ! 3) + ((s ! 4 + s ! 5) + (s ! 6 + s ! 7)))"

definition fill_words :: "u64 list \<Rightarrow> nat \<Rightarrow> u64 \<Rightarrow> u64 list" where
  "fill_words p words v = foldl (\<lambda>p i. p[i := v]) p [0..<words]"

function stream_fill :: "u64 list \<Rightarrow> nat \<Rightarrow> nat \<Rightarrow> u64 \<Rightarrow> nat \<times> u64 list" where
  "stream_fill p words i v =
     (if i + 4 \<le> words then stream_fill (p[i := v, i + 1 := v, i + 2 := v, i + 3 := v]) words (i + 4) v else (i, p))"
  by auto
termination by (relation "measure (\<lambda>(p, words, i, v). words + 4 - i)") auto

declare stream_fill.simps [simp del]

definition fill_words_nt :: "u64 list \<Rightarrow> nat \<Rightarrow> u64 \<Rightarrow> u64 list" where
  "fill_words_nt p words v =
     (let (i, p) = stream_fill p words 0 v in foldl (\<lambda>p k. p[k := v]) p [i..<words])"

text \<open>Copies within one buffer: destination \<open>dst + i\<close>, source \<open>src + i\<close>.\<close>

function stream_copy :: "u64 list \<Rightarrow> nat \<Rightarrow> nat \<Rightarrow> nat \<Rightarrow> nat \<Rightarrow> nat \<times> u64 list" where
  "stream_copy p dst src words i =
     (if i + 4 \<le> words then
        stream_copy (p[dst + i := p ! (src + i), dst + i + 1 := p ! (src + i + 1),
                       dst + i + 2 := p ! (src + i + 2), dst + i + 3 := p ! (src + i + 3)]) dst src words (i + 4)
      else (i, p))"
  by auto
termination by (relation "measure (\<lambda>(p, dst, src, words, i). words + 4 - i)") auto

declare stream_copy.simps [simp del]

definition copy_words_nt :: "u64 list \<Rightarrow> nat \<Rightarrow> nat \<Rightarrow> nat \<Rightarrow> u64 list" where
  "copy_words_nt p dst src words =
     (let (i, p) = stream_copy p dst src words 0 in foldl (\<lambda>p k. p[dst + k := p ! (src + k)]) p [i..<words])"

text \<open>\<open>std::memcpy\<close> of non-overlapping ranges.\<close>

definition mem_copy :: "u64 list \<Rightarrow> nat \<Rightarrow> nat \<Rightarrow> nat \<Rightarrow> u64 list" where
  "mem_copy p dst src words = take dst p @ take words (drop src p) @ drop (dst + words) p"

section \<open>The workload\<close>

datatype Mode = Mode_read | Mode_write | Mode_copy

abbreviation kDefaultWorkingSet :: u64 where
  "kDefaultWorkingSet \<equiv> 0x4000000"

abbreviation kMinBatchBytes :: u64 where
  "kMinBatchBytes \<equiv> 0x400000"

definition bw_buffer_bytes_for :: "u64 \<Rightarrow> u64" where
  "bw_buffer_bytes_for working_set =
     (let want = (if working_set = 0 then kDefaultWorkingSet else working_set);
          lines = max 1 (want div kCacheLine)
      in lines * kCacheLine)"

definition mode_of :: "Metric \<Rightarrow> Mode" where
  "mode_of m = (if m = M_mem_write_bw then Mode_write else if m = M_mem_copy_bw then Mode_copy else Mode_read)"

record MemBwWorkload =
  bw_words :: "u64 list"
  bw_mode :: Mode
  bw_bytes :: u64
  bw_passes :: u64
  bw_batch_bytes :: u64
  bw_nt :: bool
  bw_nt_requested :: bool
  bw_fill :: u64
  bw_acc :: u64

definition bw_total :: "Mode \<Rightarrow> u64 \<Rightarrow> u64" where
  "bw_total mode bytes = (if mode = Mode_copy then 2 * bytes else bytes)"

text \<open>The fill of the buffer is the generator of \<open>ensure_test_file\<close>.\<close>

definition bw_setup :: "bool \<Rightarrow> (u64 \<Rightarrow> u64 list result) \<times> WorkloadContext \<Rightarrow> MemBwWorkload result" where
  "bw_setup have_nt = (\<lambda>(alloc, ctx).
     (let mode = mode_of (wc_metric ctx);
          bytes = bw_buffer_bytes_for (wc_working_set_bytes ctx);
          nt_requested = (case wc_options ctx of None \<Rightarrow> False | Some o' \<Rightarrow> wo_non_temporal o');
          total = bw_total mode bytes
      in if 2 ^ 64 - 1 < unat total then Inl (Runtime_error ''mem_bw: working set does not fit in a size_t'')
      else rbind (alloc total) (\<lambda>words.
        let (ws, x) = fill_block (unat total div 8) (thread_seed ctx 1);
            passes = max 1 (kMinBatchBytes div max bytes 1)
        in Inr \<lparr>bw_words = ws @ drop (length ws) words, bw_mode = mode, bw_bytes = bytes, bw_passes = passes,
                bw_batch_bytes = passes * bytes, bw_nt = (nt_requested \<and> have_nt \<and> mode \<noteq> Mode_read),
                bw_nt_requested = nt_requested, bw_fill = x OR 1, bw_acc = 0\<rparr>)))"

text \<open>One pass of a write and of a copy batch.\<close>

definition bw_fill_pass :: "bool \<Rightarrow> nat \<Rightarrow> u64 \<Rightarrow> u64 list \<Rightarrow> u64 list" where
  "bw_fill_pass nt words v p = (if nt then fill_words_nt p words v else fill_words p words v)"

definition bw_copy_pass :: "bool \<Rightarrow> nat \<Rightarrow> u64 list \<Rightarrow> u64 list" where
  "bw_copy_pass nt words p = (if nt then copy_words_nt p words 0 words else mem_copy p words 0 words)"

definition bw_run_batch :: "MemBwWorkload \<Rightarrow> (MemBwWorkload \<times> u64) option" where
  "bw_run_batch w =
     (let words = unat (bw_bytes w) div 8; p = bw_words w; passes = unat (bw_passes w) in
      if length p < (if bw_mode w = Mode_copy then 2 * words else words) \<or> words = 0 then None
      else
        case bw_mode w of
          Mode_read \<Rightarrow>
            Some (w\<lparr>bw_acc := ((\<lambda>acc. acc + sum_words p words) ^^ passes) (bw_acc w)\<rparr>, bw_batch_bytes w)
        | Mode_write \<Rightarrow>
            let p' = foldl (\<lambda>p k. bw_fill_pass (bw_nt w) words (bw_fill w + of_nat k) p) p [0..<passes]
            in Some (w\<lparr>bw_words := p', bw_acc := bw_acc w + p' ! 0\<rparr>, bw_batch_bytes w)
        | Mode_copy \<Rightarrow>
            let p' = (bw_copy_pass (bw_nt w) words ^^ passes) p
            in Some (w\<lparr>bw_words := p', bw_acc := bw_acc w + p' ! words\<rparr>, bw_batch_bytes w))"

section \<open>The kernels do what they say\<close>

lemma list8_sum: "length s = 8 \<Longrightarrow> sum_list s = s ! 0 + s ! 1 + s ! 2 + s ! 3 + s ! 4 + s ! 5 + s ! 6 + s ! 7" for s :: "u64 list"
proof -
  assume "length s = 8"
  then have "sum_list s = sum_list (map (\<lambda>j. s ! j) [0..<8])" by (metis map_nth)
  also have "[0..<8] = [0, 1, 2, 3, 4, 5, 6, 7 :: nat]" by (simp add: upt_rec)
  finally show ?thesis by (simp add: add.assoc)
qed

lemma upt_split8: "i + 8 \<le> n \<Longrightarrow> [i..<n] = map (\<lambda>j. i + j) [0..<8] @ [i + 8..<n]"
proof -
  assume "i + 8 \<le> n"
  then have "[i..<n] = [i..<i + 8] @ [i + 8..<n]" by (metis add.commute le_add2 ordered_cancel_comm_monoid_diff_class.add_diff_inverse upt_add_eq_append)
  then show ?thesis by (simp add: map_add_upt add.commute)
qed

lemma sum_loop8_inv:
  "length s = 8 \<Longrightarrow> sum_loop8 p words i s = (i', s') \<Longrightarrow> i \<le> words \<Longrightarrow>
   length s' = 8 \<and> i' \<le> words \<and> sum_list s' + sum_list (map ((!) p) [i'..<words]) = sum_list s + sum_list (map ((!) p) [i..<words])"
proof (induction p words i s rule: sum_loop8.induct)
  case (1 p words i s)
  show ?case
  proof (cases "i + 8 \<le> words")
    case True
    let ?s = "map (\<lambda>j. s ! j + p ! (i + j)) [0..<8]"
    have "sum_list ?s = sum_list (map ((!) s) [0..<8]) + sum_list (map (\<lambda>j. p ! (i + j)) [0..<8])"
      by (simp add: sum_list_addf)
    moreover have "map ((!) s) [0..<8] = s" using 1(2) by (metis map_nth)
    moreover have "sum_list (map ((!) p) [i..<words]) =
        sum_list (map (\<lambda>j. p ! (i + j)) [0..<8]) + sum_list (map ((!) p) [i + 8..<words])"
      using upt_split8 [OF True] by (simp add: comp_def)
    ultimately show ?thesis using 1(1) [OF True] 1(3) True by (simp add: sum_loop8.simps [of p words i s] add.assoc)
  next
    case False
    then show ?thesis using 1 by (simp add: sum_loop8.simps [of p words i s])
  qed
qed

lemma foldl_sum: "foldl (\<lambda>acc k. acc + f k) a ks = a + sum_list (map f ks)" for a :: u64
  by (induction ks arbitrary: a) (simp_all add: add.assoc)

lemma sum_words_eq: "words \<le> length p \<Longrightarrow> sum_words p words = sum_list (take words p)"
proof -
  assume w: "words \<le> length p"
  obtain i s where l: "sum_loop8 p words 0 (replicate 8 0) = (i, s)" by fastforce
  have "length s = 8" "sum_list s + sum_list (map ((!) p) [i..<words]) = sum_list (map ((!) p) [0..<words])"
    using sum_loop8_inv [OF _ l] by (simp_all add: sum_list_replicate)
  moreover have "map ((!) p) [0..<words] = take words p" by (rule nth_equalityI) (use w in simp_all)
  ultimately show ?thesis unfolding sum_words_def l by (simp add: foldl_sum list8_sum add.assoc add.commute add.left_commute)
qed

lemma nth_fold_update:
  "k < length p \<Longrightarrow> foldl (\<lambda>p i. p[i := v]) p [a..<b] ! k = (if a \<le> k \<and> k < b then v else p ! k)"
proof (induction b)
  case (Suc b)
  then show ?case by (cases "a \<le> b") (auto simp: nth_list_update less_Suc_eq)
qed simp

lemma fill_words_eq: "words \<le> length p \<Longrightarrow> fill_words p words v = replicate words v @ drop words p"
  by (rule nth_equalityI) (auto simp: fill_words_def nth_fold_update nth_append)

lemma stream_fill_inv:
  "stream_fill p words i v = (i', p') \<Longrightarrow> words \<le> length p \<Longrightarrow> i \<le> words \<Longrightarrow>
   length p' = length p \<and> i \<le> i' \<and> i' \<le> words \<and> (\<forall>k<length p. p' ! k = (if i \<le> k \<and> k < i' then v else p ! k))"
proof (induction p words i v rule: stream_fill.induct)
  case (1 p words i v)
  show ?case
  proof (cases "i + 4 \<le> words")
    case True
    let ?p = "p[i := v, i + 1 := v, i + 2 := v, i + 3 := v]"
    have "stream_fill ?p words (i + 4) v = (i', p')" using 1(2) True by (simp add: stream_fill.simps [of p words i v])
    from 1(1) [OF True this] 1(3) True show ?thesis by (auto simp: nth_list_update)
  next
    case False
    then show ?thesis using 1 by (auto simp: stream_fill.simps [of p words i v])
  qed
qed

lemma fill_words_nt_eq: "words \<le> length p \<Longrightarrow> fill_words_nt p words v = fill_words p words v"
proof -
  assume w: "words \<le> length p"
  obtain i q where l: "stream_fill p words 0 v = (i, q)" by fastforce
  have q: "length q = length p" "i \<le> words" "\<And>k. k < length p \<Longrightarrow> q ! k = (if k < i then v else p ! k)"
    using stream_fill_inv [OF l w] by auto
  show ?thesis unfolding fill_words_nt_def l split_conv
    by (rule nth_equalityI) (use q w in \<open>auto simp: fill_words_def nth_fold_update\<close>)
qed

text \<open>Copying forward between ranges that do not overlap.\<close>

lemma length_copy_loop [simp]: "length (foldl (\<lambda>p k. p[d + k := p ! (s + k)]) p ks) = length p"
  by (induction ks arbitrary: p) simp_all

lemma nth_copy_loop:
  assumes "s + words \<le> d" "d + words \<le> length p"
  shows "b \<le> words \<Longrightarrow> k < length p \<Longrightarrow> foldl (\<lambda>p k. p[d + k := p ! (s + k)]) p [a..<b] ! k =
    (if d + a \<le> k \<and> k < d + b then p ! (s + (k - d)) else p ! k)"
proof (induction b arbitrary: k)
  case (Suc b)
  show ?case
  proof (cases "a \<le> b")
    case True
    have "foldl (\<lambda>p k. p[d + k := p ! (s + k)]) p [a..<b] ! (s + b) = p ! (s + b)"
      using Suc.IH [of "s + b"] Suc.prems assms by simp
    then show ?thesis using True Suc assms by (auto simp: nth_list_update)
  next
    case False
    then show ?thesis using Suc.prems by auto
  qed
qed auto

lemma stream_copy_inv:
  "stream_copy q dst src words i = (i', p') \<Longrightarrow> src + words \<le> dst \<Longrightarrow> dst + words \<le> length p \<Longrightarrow> length q = length p \<Longrightarrow> i \<le> words \<Longrightarrow>
   (\<forall>k<length p. q ! k = (if dst \<le> k \<and> k < dst + i then p ! (src + (k - dst)) else p ! k)) \<Longrightarrow>
   length p' = length p \<and> i' \<le> words \<and> (\<forall>k<length p. p' ! k = (if dst \<le> k \<and> k < dst + i' then p ! (src + (k - dst)) else p ! k))"
proof (induction q dst src words i rule: stream_copy.induct)
  case (1 q dst src words i)
  show ?case
  proof (cases "i + 4 \<le> words")
    case True
    let ?q = "q[dst + i := q ! (src + i), dst + i + 1 := q ! (src + i + 1), dst + i + 2 := q ! (src + i + 2),
      dst + i + 3 := q ! (src + i + 3)]"
    have st: "stream_copy ?q dst src words (i + 4) = (i', p')" using 1(2) True by (simp add: stream_copy.simps [of q dst src words i])
    have src: "q ! (src + i + j) = p ! (src + i + j)" if "j < 4" for j
      using 1(7) that 1(3,4) True by auto
    have "?q ! k = (if dst \<le> k \<and> k < dst + (i + 4) then p ! (src + (k - dst)) else p ! k)" if k: "k < length p" for k
    proof -
      consider "k < dst + i" | "k = dst + i" | "k = dst + i + 1" | "k = dst + i + 2" | "k = dst + i + 3" | "dst + i + 4 \<le> k"
        by linarith
      then show ?thesis
        using k 1(5,7) src [of 0] src [of 1] src [of 2] src [of 3] by cases (auto simp: nth_list_update add.assoc)
    qed
    then show ?thesis using 1(1) [OF True st] 1(3-5) True by simp
  next
    case False
    then show ?thesis using 1 by (simp add: stream_copy.simps [of q dst src words i])
  qed
qed

lemma length_mem_copy: "dst + words \<le> length p \<Longrightarrow> src + words \<le> length p \<Longrightarrow> length (mem_copy p dst src words) = length p"
  by (simp add: mem_copy_def)

lemma nth_mem_copy:
  "dst + words \<le> length p \<Longrightarrow> src + words \<le> length p \<Longrightarrow> k < length p \<Longrightarrow>
   mem_copy p dst src words ! k = (if dst \<le> k \<and> k < dst + words then p ! (src + (k - dst)) else p ! k)"
  by (auto simp: mem_copy_def nth_append)

lemma copy_words_nt_eq:
  assumes "src + words \<le> dst" "dst + words \<le> length p"
  shows "copy_words_nt p dst src words = mem_copy p dst src words"
proof -
  obtain i q where l: "stream_copy p dst src words 0 = (i, q)" by fastforce
  have "\<forall>k<length p. p ! k = (if dst \<le> k \<and> k < dst + 0 then p ! (src + (k - dst)) else p ! k)" by auto
  then have q: "length q = length p" "i \<le> words"
      "\<And>k. k < length p \<Longrightarrow> q ! k = (if dst \<le> k \<and> k < dst + i then p ! (src + (k - dst)) else p ! k)"
    using stream_copy_inv [OF l assms] by blast+
  show ?thesis unfolding copy_words_nt_def l Let_def split_conv
  proof (rule nth_equalityI)
    fix k assume k: "k < length (foldl (\<lambda>p k. p[dst + k := p ! (src + k)]) q [i..<words])"
    have src: "k < dst + words \<Longrightarrow> dst \<le> k \<Longrightarrow> src + (k - dst) < dst" using assms(1) by linarith
    show "foldl (\<lambda>p k. p[dst + k := p ! (src + k)]) q [i..<words] ! k = mem_copy p dst src words ! k"
      using k assms q src by (simp add: nth_copy_loop [of src words dst q] nth_mem_copy) (intro impI, linarith)
  qed (use assms q in \<open>simp add: length_mem_copy\<close>)
qed

section \<open>The contract\<close>

text \<open>The sizes after set-up: whole cache lines, a batch that does not wrap, and the buffer behind them.\<close>

definition bw_ready :: "MemBwWorkload \<Rightarrow> bool" where
  "bw_ready w \<longleftrightarrow> 64 \<le> unat (bw_bytes w) \<and> unat (bw_bytes w) mod 64 = 0
     \<and> (if bw_mode w = Mode_copy then 2 else 1) * (unat (bw_bytes w) div 8) \<le> length (bw_words w)"

lemma bw_buffer_lines:
  "64 \<le> unat (bw_buffer_bytes_for ws) \<and> unat (bw_buffer_bytes_for ws) mod 64 = 0"
proof -
  define want where "want = (if ws = 0 then kDefaultWorkingSet else ws)"
  have m: "unat (max 1 (want div 64)) = max 1 (unat want div 64)" by (simp add: unat_max unat_div)
  then have "unat (max 1 (want div 64)) * 64 < 2 ^ 64"
    using u64_lt [of want] less_mult_imp_div_less [of "unat want" "2 ^ 58" 64] by (simp add: max_def)
  then have "unat (max 1 (want div 64) * 64) = max 1 (unat want div 64) * 64"
    by (subst unat_mult_lt) (simp_all add: m)
  then show ?thesis by (simp add: bw_buffer_bytes_for_def want_def [symmetric])
qed

lemma bw_passes_bytes:
  assumes "64 \<le> unat bytes"
  shows "unat (max 1 (kMinBatchBytes div max bytes 1) * bytes) = max 1 (0x400000 div unat bytes) * unat bytes"
proof -
  have "max bytes 1 = bytes" using assms by (simp add: max_def word_le_nat_alt)
  then have p: "unat (max 1 (kMinBatchBytes div max bytes 1)) = max 1 (0x400000 div unat bytes)"
    by (simp add: unat_max unat_div)
  have "0x400000 div unat bytes * unat bytes \<le> 0x400000" by (rule div_times_less_eq_dividend)
  then have "0x400000 div unat bytes * unat bytes < 2 ^ 64" by (rule le_less_trans) simp
  then have "max 1 (0x400000 div unat bytes) * unat bytes < 2 ^ 64" using u64_lt [of bytes] by (simp add: max_def)
  then show ?thesis by (subst unat_mult_lt) (simp_all only: p len_of_numeral_defs len_num0 len_num1 len_bit0 len_bit1, simp)
qed

lemma length_fill_block: "length (fst (fill_block n x)) = n"
  by (induction n arbitrary: x) (simp_all add: Let_def case_prod_beta)

lemma bw_setup_ready:
  assumes "\<forall>bytes words. alloc bytes = Inr words \<longrightarrow> length words = unat bytes div 8"
    "bw_setup nt (alloc, ctx) = Inr w" "bw_mode w = Mode_copy \<longrightarrow> unat (bw_bytes w) < 2 ^ 63"
  shows "bw_ready w"
proof -
  define mode bytes where "mode = mode_of (wc_metric ctx)" and "bytes = bw_buffer_bytes_for (wc_working_set_bytes ctx)"
  obtain words where w: "alloc (bw_total mode bytes) = Inr words" "bw_mode w = mode" "bw_bytes w = bytes"
      "length (bw_words w) = unat (bw_total mode bytes) div 8"
    using assms(1,2)
    by (auto simp: bw_setup_def Let_def rbind_eq_Inr case_prod_beta length_fill_block mode_def bytes_def split: if_splits)
  have "unat (2 * bytes) = 2 * unat bytes" if "mode = Mode_copy"
    using that assms(3) w(2,3) by (subst unat_mult_lt) simp_all
  moreover have "2 * (unat bytes div 8) \<le> 2 * unat bytes div 8" by linarith
  ultimately show ?thesis
    using w bw_buffer_lines [of "wc_working_set_bytes ctx"]
    by (auto simp: bw_ready_def bw_total_def bytes_def [symmetric] split: if_splits)
qed

lemma length_fill: "words \<le> length p \<Longrightarrow> length (fill_words p words v) = length p"
  by (simp add: fill_words_def)

lemma fills_length: "words \<le> length p \<Longrightarrow> length (foldl (\<lambda>p k. bw_fill_pass nt words (f k) p) p ks) = length p"
  by (induction ks arbitrary: p) (simp_all add: bw_fill_pass_def fill_words_nt_eq length_fill)

lemma copy_pass_length: "2 * words \<le> length p \<Longrightarrow> length (bw_copy_pass nt words p) = length p"
  by (simp add: bw_copy_pass_def copy_words_nt_eq length_mem_copy)

lemma copies_length: "2 * words \<le> length p \<Longrightarrow> length ((bw_copy_pass nt words ^^ n) p) = length p"
  by (induction n) (simp_all add: copy_pass_length)

lemma bw_batch_ready:
  assumes "bw_ready w"
  shows "\<exists>w'. bw_run_batch w = Some (w', bw_batch_bytes w) \<and> bw_ready w' \<and> bw_batch_bytes w' = bw_batch_bytes w"
proof -
  define words where "words = unat (bw_bytes w) div 8"
  have "0 < words" using assms by (auto simp: bw_ready_def words_def div_greater_zero_iff)
  then show ?thesis
    using assms fills_length [of words "bw_words w" "bw_nt w" "\<lambda>k. bw_fill w + of_nat k"] copies_length [of words "bw_words w"]
    by (cases "bw_mode w") (simp_all add: bw_run_batch_def bw_ready_def Let_def words_def [symmetric])
qed

interpretation mem_bw: workload_impl "bw_setup nt" bw_run_batch bw_batch_bytes
    "\<lambda>(alloc, ctx). (\<forall>bytes words. alloc bytes = Inr words \<longrightarrow> length words = unat bytes div 8)
       \<and> unat (bw_buffer_bytes_for (wc_working_set_bytes ctx)) < 2 ^ 63" bw_ready for nt
proof
  show "bw_ready w" if "case e of (alloc, ctx) \<Rightarrow> (\<forall>bytes words. alloc bytes = Inr words \<longrightarrow> length words = unat bytes div 8)
       \<and> unat (bw_buffer_bytes_for (wc_working_set_bytes ctx)) < 2 ^ 63" "bw_setup nt e = Inr w" for e w
  proof -
    obtain alloc ctx where e: "e = (alloc, ctx)" by fastforce
    have "bw_bytes w = bw_buffer_bytes_for (wc_working_set_bytes ctx)"
      using that(2) by (auto simp: e bw_setup_def Let_def rbind_eq_Inr case_prod_beta split: if_splits)
    then show ?thesis using bw_setup_ready [of alloc nt ctx w] that unfolding e by simp
  qed
qed (rule bw_batch_ready)

text \<open>
  (C35) The bandwidth kernels compute what their names say, whatever the unrolling: the sum over
  eight accumulators is the sum of the words; the non-temporal fill and copy give the same
  buffer as the plain loop and \<open>memcpy\<close>, for every length and also when it is not a multiple of
  the vector size; and everything outside the destination is left alone.
\<close>

theorem bw_kernels_correct:
  assumes "words \<le> length p" "src + words \<le> dst" "dst + words \<le> length q"
  shows "sum_words p words = sum_list (take words p)
    \<and> fill_words_nt p words v = replicate words v @ drop words p \<and> fill_words p words v = replicate words v @ drop words p
    \<and> copy_words_nt q dst src words = take dst q @ take words (drop src q) @ drop (dst + words) q"
  using sum_words_eq [OF assms(1)] fill_words_nt_eq [OF assms(1)] fill_words_eq [OF assms(1)]
    copy_words_nt_eq [OF assms(2,3)] by (simp add: mem_copy_def)

theorem bw_kernels_correct_witness:
  "sum_words [1, 2, 3, 4, 5, 6, 7, 8, 9] 9 = 45 \<and> copy_words_nt [1, 2, 3, 4, 5, 0, 0, 0, 0, 0] 5 0 5 = [1, 2, 3, 4, 5, 1, 2, 3, 4, 5]"
  using bw_kernels_correct [of 9 "[1, 2, 3, 4, 5, 6, 7, 8, 9]" 0 9 "replicate 18 0"]
    bw_kernels_correct [of 5 "replicate 5 0" 0 5 "[1, 2, 3, 4, 5, 0, 0, 0, 0, 0]"] by simp

text \<open>
  A batch is sized before it runs: after set-up the number of units a batch reports is a whole
  number of passes over a whole number of cache lines, at least 4 MiB less one pass and without
  wrap-around, and a batch reports exactly that number.
\<close>

theorem bw_batch_size:
  assumes "bw_setup nt (alloc, ctx) = Inr w"
  shows "unat (bw_bytes w) mod 64 = 0 \<and> unat (bw_batch_bytes w) = unat (bw_passes w) * unat (bw_bytes w)
    \<and> 0 < unat (bw_passes w) \<and> 0x400000 < unat (bw_batch_bytes w) + unat (bw_bytes w)
    \<and> (bw_run_batch w = Some (w', n) \<longrightarrow> n = bw_batch_bytes w)"
proof -
  define bytes where "bytes = bw_buffer_bytes_for (wc_working_set_bytes ctx)"
  have w: "bw_bytes w = bytes" "bw_passes w = max 1 (kMinBatchBytes div max bytes 1)" "bw_batch_bytes w = bw_passes w * bytes"
    using assms by (auto simp: bw_setup_def Let_def rbind_eq_Inr bytes_def case_prod_beta split: if_splits)
  have b: "64 \<le> unat bytes" "unat bytes mod 64 = 0" using bw_buffer_lines by (simp_all add: bytes_def)
  have "max bytes 1 = bytes" using b by (simp add: max_def word_le_nat_alt)
  then have p: "unat (bw_passes w) = max 1 (0x400000 div unat bytes)" by (simp add: w unat_max unat_div)
  have bb: "unat (bw_batch_bytes w) = unat (bw_passes w) * unat bytes"
    using bw_passes_bytes [OF b(1)] p by (simp add: w)
  have "0x400000 < unat bytes + unat bytes * (0x400000 div unat bytes)"
    using b(1) by (intro dividend_less_times_div) simp
  also have "\<dots> \<le> unat bytes + unat (bw_passes w) * unat bytes" by (simp add: p mult.commute)
  finally show ?thesis
    using w b p bb by (auto simp: bw_run_batch_def Let_def split: if_splits Mode.splits)
qed

theorem bw_batch_size_witness:
  "\<exists>w. bw_setup True (\<lambda>bytes. Inr (replicate (unat bytes div 8) 0), \<lparr>wc_thread_index = 0, wc_thread_count = 1,
       wc_working_set_bytes = 4096, wc_seed = 7, wc_metric = M_mem_copy_bw, wc_options = None\<rparr>) = Inr w
     \<and> unat (bw_batch_bytes w) = unat (bw_passes w) * unat (bw_bytes w) \<and> 0x400000 < unat (bw_batch_bytes w) + unat (bw_bytes w)"
proof -
  obtain w where w: "bw_setup True (\<lambda>bytes. Inr (replicate (unat bytes div 8) 0), \<lparr>wc_thread_index = 0, wc_thread_count = 1,
       wc_working_set_bytes = 4096, wc_seed = 7, wc_metric = M_mem_copy_bw, wc_options = None\<rparr>) = Inr w"
    by (simp add: bw_setup_def Let_def mode_of_def bw_total_def bw_buffer_bytes_for_def case_prod_beta)
  then show ?thesis using bw_batch_size [OF w] by blast
qed

text \<open>
  A copy over a working set of \<open>2 ^ 63\<close> bytes or more asks for twice its size modulo \<open>2 ^ 64\<close>: the
  guard against \<open>size_t\<close> never fires, and the buffer is smaller than the source alone.
\<close>

lemma copy_total_wraps: "unat (bw_total Mode_copy (2 ^ 63)) = 0 \<and> \<not> 2 ^ 64 - 1 < unat (bw_total mode bytes)"
  using u64_lt [of "bw_total mode bytes"] by (simp add: bw_total_def)

end
