(* ===== verification/Mem_Latency.thy ===== *)
theory Mem_Latency
  imports Workload
begin

text \<open>
  \<^verbatim>\<open>engine/src/workloads/mem_latency.cpp\<close>: the random cyclic pointer chase. The shuffle is
  defined over an arbitrary sequence of draws \<open>rs\<close>; the workload uses the seeded engine
  \<open>mt19937_64\<close>. The chase buffer is its array of 64-bit words. The theorems hold for every
  sequence of draws.
\<close>

section \<open>The workload\<close>

abbreviation kWordsPerLine :: nat where
  "kWordsPerLine \<equiv> 8"

definition kDefaultWorkingSet :: u64 where
  "kDefaultWorkingSet = push_bit 20 64"

definition kBatchLoads :: nat where
  "kBatchLoads = 65536"

definition kMinLines :: u64 where
  "kMinLines = 2"

text \<open>
  \<open>for (i = a.size(); i-- > 1;)\<close>: the argument is \<open>i\<close> before the test; \<open>k\<close> counts the draws.
\<close>

fun sattolo_loop :: "(nat \<Rightarrow> u64) \<Rightarrow> nat \<Rightarrow> nat \<Rightarrow> 'a list \<Rightarrow> 'a list" where
  "sattolo_loop rs k (Suc (Suc i)) a =
     (let j = unat (rs k) mod Suc i in sattolo_loop rs (Suc k) (Suc i) (swap_at a (Suc i) j))"
| "sattolo_loop rs k _ a = a"

definition sattolo_shuffle :: "(nat \<Rightarrow> u64) \<Rightarrow> 'a list \<Rightarrow> 'a list" where
  "sattolo_shuffle rs a = sattolo_loop rs 0 (length a) a"

definition buffer_bytes_for :: "u64 \<Rightarrow> u64" where
  "buffer_bytes_for working_set =
     (let want = (if working_set = 0 then kDefaultWorkingSet else working_set);
          lines = max kMinLines (want div kCacheLine)
      in lines * kCacheLine)"

record MemLatencyWorkload =
  ml_words :: "u64 list"
  ml_lines :: u64
  ml_idx :: u64

definition chase_seed :: "u64 \<Rightarrow> int \<Rightarrow> u64" where
  "chase_seed seed thread_index = seed XOR (0x9E3779B97F4A7C15 * word_of_int (thread_index + 1))"

text \<open>\<open>words[i * kWordsPerLine] = order[i] * kWordsPerLine\<close> for every line.\<close>

definition store_chase :: "u64 list \<Rightarrow> u64 list \<Rightarrow> u64 list" where
  "store_chase words order =
     foldl (\<lambda>w i. w[i * kWordsPerLine := order ! i * of_nat kWordsPerLine]) words [0..<length order]"

text \<open>
  \<open>alloc\<close> is the outcome of \<open>alloc_buffer\<close> for the requested size: the words of the buffer.
\<close>

definition ml_setup :: "(u64 \<Rightarrow> u64 list result) \<Rightarrow> u64 \<Rightarrow> u64 \<Rightarrow> int \<Rightarrow> MemLatencyWorkload result" where
  "ml_setup alloc working_set seed thread_index =
     (let bytes = buffer_bytes_for working_set in
      rbind (alloc bytes) (\<lambda>words.
        let lines = bytes div kCacheLine;
            order = sattolo_shuffle (mt19937_64 (chase_seed seed thread_index)) (map of_nat [0..<unat lines])
        in Inr \<lparr>ml_words = store_chase words order, ml_lines = lines, ml_idx = 0\<rparr>))"

text \<open>The loop of \<open>run_batch\<close>: \<open>None\<close> is a load outside the buffer.\<close>

fun chase :: "u64 list \<Rightarrow> nat \<Rightarrow> u64 \<Rightarrow> u64 option" where
  "chase words 0 idx = Some idx"
| "chase words (Suc n) idx = (if unat idx < length words then chase words n (words ! unat idx) else None)"

definition ml_run_batch :: "MemLatencyWorkload \<Rightarrow> (MemLatencyWorkload \<times> nat) option" where
  "ml_run_batch w = map_option (\<lambda>idx. (w\<lparr>ml_idx := idx\<rparr>, kBatchLoads)) (chase (ml_words w) kBatchLoads (ml_idx w))"

definition ml_batch_units :: "MemLatencyWorkload \<Rightarrow> nat" where
  "ml_batch_units w = kBatchLoads"

definition next_line :: "MemLatencyWorkload \<Rightarrow> nat \<Rightarrow> nat" where
  "next_line w line = unat (ml_words w ! (line * kWordsPerLine)) div kWordsPerLine"

section \<open>Sattolo's algorithm gives one cycle\<close>

text \<open>\<open>cyc g c\<close>: the function \<open>g\<close> walks the distinct list \<open>c\<close> cyclically.\<close>

definition cyc :: "('a \<Rightarrow> 'a) \<Rightarrow> 'a list \<Rightarrow> bool" where
  "cyc g c \<longleftrightarrow> distinct c \<and> c \<noteq> [] \<and> (\<forall>i<length c. g (c ! i) = c ! (Suc i mod length c))"

lemma cyc_rotate: "cyc g c \<Longrightarrow> cyc g (rotate m c)"
proof -
  assume c: "cyc g c"
  have "g (rotate m c ! i) = rotate m c ! (Suc i mod length c)" if "i < length c" for i
  proof -
    have "(m + i) mod length c < length c" "Suc i mod length c < length c" using that by (auto intro: mod_less_divisor)
    then show ?thesis
      using c that by (simp add: cyc_def nth_rotate mod_Suc_eq mod_add_right_eq)
  qed
  then show ?thesis using c by (simp add: cyc_def)
qed

text \<open>Inserting a new element before \<open>j\<close> in a cycle.\<close>

lemma cyc_insert:
  assumes "cyc g c" "j \<in> set c" "m \<notin> set c"
    and h: "\<And>x. x \<in> set c \<Longrightarrow> h x = (if g x = j then m else g x)" "h m = j"
  shows "\<exists>d. cyc h d \<and> set d = insert m (set c)"
proof -
  obtain p where p: "p < length c" "c ! p = j" using assms(2) by (auto simp: in_set_conv_nth)
  define e where "e = rotate p c"
  have e: "cyc g e" "set e = set c" using cyc_rotate [OF assms(1)] by (simp_all add: e_def)
  have ne: "e \<noteq> []" and e0: "e ! 0 = j"
    using p nth_rotate [of 0 c p] by (cases c; force simp: e_def)+
  have step: "h (e ! i) = (if Suc i = length e then m else e ! Suc i)" if "i < length e" for i
  proof -
    have "g (e ! i) = e ! (Suc i mod length e)" using e(1) that by (simp add: cyc_def)
    moreover have "(e ! (Suc i mod length e) = e ! 0) \<longleftrightarrow> Suc i = length e"
      using e(1) that ne by (simp add: cyc_def nth_eq_iff_index_eq mod_Suc)
    moreover have "e ! i \<in> set c" using that e(2) nth_mem by blast
    ultimately show ?thesis using h(1) [of "e ! i"] that e0 by (auto simp: mod_Suc)
  qed
  have "cyc h (e @ [m])"
    unfolding cyc_def
  proof (intro conjI allI impI)
    show "distinct (e @ [m])" using e assms(3) by (simp add: cyc_def)
    fix i assume "i < length (e @ [m])"
    then show "h ((e @ [m]) ! i) = (e @ [m]) ! (Suc i mod length (e @ [m]))"
      using step [of i] h(2) e0 ne by (auto simp: nth_append less_Suc_eq)
  qed simp
  then show ?thesis using e(2) by (intro exI [of _ "e @ [m]"]) auto
qed

lemma length_sattolo [simp]: "length (sattolo_loop rs k n a) = length a"
  by (induction rs k n a rule: sattolo_loop.induct) (auto simp: Let_def)

lemma sattolo_loop_cycle:
  assumes "0 < m" "m \<le> length a"
  shows "\<exists>g c. cyc g c \<and> set c = {..<m} \<and> (\<forall>x<m. sattolo_loop rs k m a ! x = a ! g x)
    \<and> (\<forall>x. m \<le> x \<longrightarrow> sattolo_loop rs k m a ! x = a ! x)"
  using assms
proof (induction m arbitrary: a k)
  case (Suc m)
  show ?case
  proof (cases m)
    case 0
    then show ?thesis by (intro exI [of _ id] exI [of _ "[0]"]) (auto simp: cyc_def)
  next
    case (Suc i)
    define j where "j = unat (rs k) mod m"
    define b where "b = swap_at a m j"
    have j: "j < m" using Suc by (simp add: j_def)
    have loop: "sattolo_loop rs k (Suc m) a = sattolo_loop rs (Suc k) m b"
      using Suc by (simp add: b_def j_def Let_def)
    obtain g c where gc: "cyc g c" "set c = {..<m}" "\<forall>x<m. sattolo_loop rs (Suc k) m b ! x = b ! g x"
        "\<forall>x. m \<le> x \<longrightarrow> sattolo_loop rs (Suc k) m b ! x = b ! x"
      using Suc.IH [of b "Suc k"] Suc.prems Suc by (auto simp: b_def)
    define h where "h = (\<lambda>x. if x = m then j else if g x = j then m else g x)"
    have "\<exists>d. cyc h d \<and> set d = insert m (set c)"
      by (rule cyc_insert [OF gc(1), where j = j]) (use j gc(2) in \<open>simp_all add: h_def\<close>)
    then obtain d where d: "cyc h d" "set d = insert m (set c)" by blast
    have g: "g x < m" if "x < m" for x
    proof -
      have "x \<in> set c" using that gc(2) by simp
      then obtain q where q: "q < length c" "c ! q = x" by (auto simp: in_set_conv_nth)
      then have "g x = c ! (Suc q mod length c)" using gc(1) by (auto simp: cyc_def)
      moreover have "Suc q mod length c < length c" using q(1) by (intro mod_less_divisor) linarith
      ultimately have "g x \<in> set c" by simp
      then show ?thesis using gc(2) by simp
    qed
    have b: "b ! x = (if x = m then a ! j else if x = j then a ! m else a ! x)" for x
      using Suc.prems j unfolding b_def by (intro nth_swap_at) auto
    have "sattolo_loop rs k (Suc m) a ! x = a ! h x" if "x < Suc m" for x
    proof (cases "x = m")
      case True
      then show ?thesis using gc(4) unfolding loop by (simp add: h_def b)
    next
      case False
      then have "sattolo_loop rs (Suc k) m b ! x = b ! g x" "g x \<noteq> m" using that gc(3) g [of x] by auto
      then show ?thesis using False unfolding loop by (simp add: h_def b)
    qed
    moreover have "sattolo_loop rs k (Suc m) a ! x = a ! x" if "Suc m \<le> x" for x
      using that gc(4) j unfolding loop by (simp add: b)
    ultimately show ?thesis
      using d gc(2) by (intro exI [of _ h] exI [of _ d]) (auto simp: lessThan_Suc)
  qed
qed simp

lemma cyc_iterate: "cyc g c \<Longrightarrow> (g ^^ k) (c ! 0) = c ! (k mod length c)"
proof (induction k)
  case (Suc k)
  then have "k mod length c < length c" by (simp add: cyc_def)
  then show ?case using Suc by (simp add: cyc_def mod_Suc_eq)
qed (auto simp: cyc_def)

lemma sattolo_cycle_exists:
  assumes "0 < n"
  shows "\<exists>c. distinct c \<and> set c = {..<n} \<and> length c = n \<and> c ! 0 = 0
    \<and> (\<forall>k. ((\<lambda>i. sattolo_shuffle rs [0..<n] ! i) ^^ k) 0 = c ! (k mod n))"
proof -
  obtain g c where gc: "cyc g c" "set c = {..<n}" "\<forall>x<n. sattolo_shuffle rs [0..<n] ! x = [0..<n] ! g x"
    using sattolo_loop_cycle [of n "[0..<n]" rs 0] assms by (auto simp: sattolo_shuffle_def)
  have len: "length c = n" using gc(1,2) by (metis card_lessThan cyc_def distinct_card)
  have "0 \<in> set c" using assms gc(2) by simp
  then obtain p where p: "p < n" "c ! p = 0" using len by (auto simp: in_set_conv_nth)
  define d where "d = rotate p c"
  have d: "cyc g d" "set d = {..<n}" "length d = n" "d ! 0 = 0"
    using cyc_rotate [OF gc(1), of p] gc(2) len p assms nth_rotate [of 0 c p] by (auto simp: d_def cyc_def)
  have in_range: "d ! (k mod n) < n" for k
    using d(2,3) assms by (metis lessThan_iff mod_less_divisor nth_mem)
  have "((\<lambda>i. sattolo_shuffle rs [0..<n] ! i) ^^ k) 0 = d ! (k mod n)" for k
  proof (induction k)
    case (Suc k)
    have "g (d ! (k mod n)) = d ! (Suc k mod n)"
      using d(1,3) assms by (simp add: cyc_def mod_Suc_eq)
    then show ?case using Suc gc(3) in_range [of k] in_range [of "Suc k"] by simp
  qed (use d assms in simp)
  then show ?thesis using d by (intro exI [of _ d]) (auto simp: cyc_def)
qed

text \<open>
  (C23) Sattolo's shuffle of \<open>0, ..., n - 1\<close> is a single cycle through all \<open>n\<close> elements, for every
  sequence of random draws: there is a list holding each index once, starting at 0, such that
  following the permutation from 0 visits its elements in order and returns after exactly \<open>n\<close>
  steps.
\<close>

theorem sattolo_single_cycle:
  assumes "0 < n"
  shows "\<exists>c. distinct c \<and> set c = {..<n} \<and> length c = n \<and> c ! 0 = 0
    \<and> (\<forall>k. ((\<lambda>i. sattolo_shuffle rs [0..<n] ! i) ^^ k) 0 = c ! (k mod n))"
  using sattolo_cycle_exists [OF assms] .

theorem sattolo_single_cycle_witness:
  "\<exists>c. distinct c \<and> set c = {..<5} \<and> length c = 5 \<and> c ! 0 = 0
    \<and> (\<forall>k. ((\<lambda>i. sattolo_shuffle (mt19937_64 42) [0..<5] ! i) ^^ k) 0 = c ! (k mod 5))"
  by (rule sattolo_single_cycle) simp

text \<open>
  The header promises a single cycle for any initial permutation; that only holds for the
  identity, which is what the workload passes. From the transposition of two elements every
  draw gives the identity, two cycles of length one.
\<close>

lemma sattolo_needs_identity: "sattolo_shuffle rs [1, 0 :: nat] = [0, 1]"
  by (simp add: sattolo_shuffle_def numeral_eq_Suc swap_at_def)

section \<open>The chase visits every line once per lap\<close>

lemma swap_at_map: "i < length a \<Longrightarrow> j < length a \<Longrightarrow> swap_at (map f a) i j = map f (swap_at a i j)"
  by (simp add: swap_at_def map_update)

lemma sattolo_loop_map: "m \<le> length a \<Longrightarrow> sattolo_loop rs k m (map f a) = map f (sattolo_loop rs k m a)"
proof (induction rs k m a rule: sattolo_loop.induct)
  case (1 rs k i a)
  have "unat (rs k) mod Suc i < Suc i" by simp
  then have "unat (rs k) mod Suc i < length a" using 1(2) by linarith
  then show ?case using 1 by (simp add: Let_def swap_at_map)
qed auto

lemma length_store [simp]:
  "length (foldl (\<lambda>w i. w[g i := f i]) words is) = length words"
  by (induction "is" arbitrary: words) auto

lemma store_chase_nth:
  assumes "kWordsPerLine * length order \<le> length words" "i < length order"
  shows "store_chase words order ! (i * kWordsPerLine) = order ! i * of_nat kWordsPerLine"
proof -
  have "i < n \<Longrightarrow> n \<le> length order \<Longrightarrow>
    foldl (\<lambda>w i. w[i * kWordsPerLine := order ! i * of_nat kWordsPerLine]) words [0..<n] ! (i * kWordsPerLine) =
      order ! i * of_nat kWordsPerLine" for n
  proof (induction n)
    case (Suc n)
    have "n * kWordsPerLine < length words" using Suc.prems assms(1) by linarith
    then show ?case using Suc by (auto simp: nth_list_update less_Suc_eq)
  qed simp
  then show ?thesis using assms(2) by (simp add: store_chase_def)
qed

lemma chase_Suc:
  "chase words (Suc n) idx = (case chase words n idx of None \<Rightarrow> None
     | Some i \<Rightarrow> if unat i < length words then Some (words ! unat i) else None)"
proof (induction n arbitrary: idx)
  case (Suc n)
  show ?case by (subst chase.simps(2), subst Suc) (simp add: Suc [symmetric])
qed simp

lemma buffer_lines:
  "unat (buffer_bytes_for ws) = 64 * unat (buffer_bytes_for ws div kCacheLine)"
  "2 \<le> unat (buffer_bytes_for ws div kCacheLine)"
proof -
  define lines where "lines = max kMinLines ((if ws = 0 then kDefaultWorkingSet else ws) div kCacheLine)"
  have lt: "unat lines < 2 ^ 58"
  proof -
    have "unat (w div kCacheLine) < 2 ^ 58" for w :: u64
      using u64_lt [of w] by (simp add: unat_div less_mult_imp_div_less)
    then show ?thesis by (simp add: lines_def unat_max kMinLines_def)
  qed
  then have "unat (lines * kCacheLine) = unat lines * 64" by (subst unat_mult_lt) simp_all
  moreover have b: "buffer_bytes_for ws = lines * kCacheLine" by (simp add: buffer_bytes_for_def lines_def Let_def)
  ultimately have d: "unat (buffer_bytes_for ws div kCacheLine) = unat lines" and
    "unat (buffer_bytes_for ws) = 64 * unat lines"
    by (simp_all add: unat_div)
  moreover have "2 \<le> unat lines" by (simp add: lines_def unat_max kMinLines_def)
  ultimately show "unat (buffer_bytes_for ws) = 64 * unat (buffer_bytes_for ws div kCacheLine)"
    "2 \<le> unat (buffer_bytes_for ws div kCacheLine)" by simp_all
qed

lemma ml_setup_cycle:
  assumes "ml_setup alloc ws seed ti = Inr w" "\<forall>bytes words. alloc bytes = Inr words \<longrightarrow> length words = unat bytes div 8"
  shows "\<exists>c. distinct c \<and> set c = {..<unat (ml_lines w)} \<and> length c = unat (ml_lines w) \<and> 2 \<le> length c
    \<and> unat (buffer_bytes_for ws) = 64 * length c
    \<and> (\<forall>k. chase (ml_words w) k (ml_idx w) = Some (of_nat (8 * c ! (k mod length c))))
    \<and> (\<forall>k. next_line w (c ! (k mod length c)) = c ! (Suc k mod length c))"
proof -
  define lines where "lines = buffer_bytes_for ws div kCacheLine"
  define n where "n = unat lines"
  define rs where "rs = mt19937_64 (chase_seed seed ti)"
  define order where "order = sattolo_shuffle rs (map of_nat [0..<n] :: u64 list)"
  obtain words where al: "alloc (buffer_bytes_for ws) = Inr words"
    and w: "w = \<lparr>ml_words = store_chase words order, ml_lines = lines, ml_idx = 0\<rparr>"
    using assms(1) by (auto simp: ml_setup_def rbind_eq_Inr Let_def order_def n_def lines_def rs_def)
  have bn: "unat (buffer_bytes_for ws) = 64 * n" "2 \<le> n"
    using buffer_lines [of ws] by (simp_all add: n_def lines_def)
  have n64: "8 * n < 2 ^ 64" using bn(1) u64_lt [of "buffer_bytes_for ws"] by simp
  have len: "length words = 8 * n" using assms(2) al bn by simp
  have order: "order = map of_nat (sattolo_shuffle rs [0..<n])" "length order = n"
    by (simp_all add: order_def sattolo_shuffle_def sattolo_loop_map)
  obtain c where c: "distinct c" "set c = {..<n}" "length c = n" "c ! 0 = 0"
      "\<And>k. ((\<lambda>i. sattolo_shuffle rs [0..<n] ! i) ^^ k) 0 = c ! (k mod n)"
    using sattolo_cycle_exists [of n rs] bn(2) by auto
  have in_c: "c ! (k mod n) < n" for k
    using c(2,3) bn(2) nth_mem [of "k mod n" c] by simp
  have nxt: "sattolo_shuffle rs [0..<n] ! (c ! (k mod n)) = c ! (Suc k mod n)" for k
    using c(5) [of "Suc k"] c(5) [of k] by simp
  have word: "ml_words w ! (8 * c ! (k mod n)) = of_nat (8 * c ! (Suc k mod n))" for k
    using store_chase_nth [of order words "c ! (k mod n)"] in_c [of k] len order nxt [of k]
    by (simp add: w sattolo_shuffle_def mult.commute)
  have small: "unat (of_nat (8 * c ! (k mod n)) :: u64) = 8 * c ! (k mod n)" for k
    using in_c [of k] n64 by (intro u64_of_nat) simp
  have len_w: "length (ml_words w) = 8 * n" by (simp add: w store_chase_def len)
  have "chase (ml_words w) k (ml_idx w) = Some (of_nat (8 * c ! (k mod n)))" for k
  proof (induction k)
    case 0
    then show ?case using c(4) bn(2) by (simp add: w)
  next
    case (Suc k)
    then show ?case
      unfolding chase_Suc Suc option.case small len_w word using in_c [of k] by simp
  qed
  moreover have "next_line w (c ! (k mod n)) = c ! (Suc k mod n)" for k
    using word [of k] small [of "Suc k"] by (simp add: next_line_def mult.commute)
  ultimately show ?thesis
    using c bn by (intro exI [of _ c]) (auto simp: w n_def)
qed

subsection \<open>The contract of the workload\<close>

lemma chase_add:
  "chase words (m + k) idx = (case chase words m idx of None \<Rightarrow> None | Some i \<Rightarrow> chase words k i)"
  by (induction m arbitrary: idx) simp_all

text \<open>The chain of loads never leaves the buffer.\<close>

definition ml_ready :: "MemLatencyWorkload \<Rightarrow> bool" where
  "ml_ready w \<longleftrightarrow> (\<forall>k. chase (ml_words w) k (ml_idx w) \<noteq> None)"

lemma ml_batch_ready:
  assumes "ml_ready w"
  shows "\<exists>w'. ml_run_batch w = Some (w', kBatchLoads) \<and> ml_ready w'"
proof -
  obtain idx where idx: "chase (ml_words w) kBatchLoads (ml_idx w) = Some idx" using assms unfolding ml_ready_def by blast
  have "chase (ml_words w) k idx \<noteq> None" for k
    using assms idx chase_add [of "ml_words w" kBatchLoads k "ml_idx w"] unfolding ml_ready_def by (metis option.case(2))
  then show ?thesis by (simp add: ml_run_batch_def ml_ready_def idx del: chase.simps)
qed

interpretation mem_latency: workload_impl
    "\<lambda>(alloc, ctx). ml_setup alloc (wc_working_set_bytes ctx) (wc_seed ctx) (wc_thread_index ctx)"
    "\<lambda>w. map_option (\<lambda>(w', n). (w', of_nat n)) (ml_run_batch w)" "\<lambda>w. of_nat (ml_batch_units w)"
    "\<lambda>(alloc, ctx). \<forall>bytes words. alloc bytes = Inr words \<longrightarrow> length words = unat bytes div 8" ml_ready
proof
  show "ml_ready w" if "case e of (alloc, ctx) \<Rightarrow> \<forall>bytes words. alloc bytes = Inr words \<longrightarrow> length words = unat bytes div 8"
      "(case e of (alloc, ctx) \<Rightarrow> ml_setup alloc (wc_working_set_bytes ctx) (wc_seed ctx) (wc_thread_index ctx)) = Inr w" for e w
  proof -
    obtain alloc ctx where e: "e = (alloc, ctx)" by fastforce
    show ?thesis
      using ml_setup_cycle [of alloc "wc_working_set_bytes ctx" "wc_seed ctx" "wc_thread_index ctx" w] that
      unfolding e ml_ready_def by auto
  qed
  show "\<exists>w'. map_option (\<lambda>(w', n). (w', of_nat n :: u64)) (ml_run_batch w) = Some (w', of_nat (ml_batch_units w))
      \<and> ml_ready w' \<and> of_nat (ml_batch_units w') = (of_nat (ml_batch_units w) :: u64)" if "ml_ready w" for w
    using ml_batch_ready [OF that] by (auto simp: ml_batch_units_def)
qed

text \<open>
  (C24) The measured chase: after set-up, for every working set, seed and thread, the chain of
  dependent loads never leaves the buffer and visits each of its cache lines exactly once per
  lap: after \<open>k\<close> loads the position is the first word of the line that stands at place \<open>k\<close>
  modulo the number of lines in a list of all lines.
\<close>

theorem chase_visits_every_line:
  assumes "ml_setup alloc ws seed ti = Inr w" "\<forall>bytes words. alloc bytes = Inr words \<longrightarrow> length words = unat bytes div 8"
  shows "\<exists>c. distinct c \<and> set c = {..<unat (ml_lines w)} \<and> length c = unat (ml_lines w) \<and> 2 \<le> length c
    \<and> unat (buffer_bytes_for ws) = 64 * length c
    \<and> (\<forall>k. chase (ml_words w) k (ml_idx w) = Some (of_nat (8 * c ! (k mod length c))))
    \<and> (\<forall>k. next_line w (c ! (k mod length c)) = c ! (Suc k mod length c))"
  using ml_setup_cycle [OF assms] .

theorem chase_visits_every_line_witness:
  "\<exists>w c. ml_setup (\<lambda>bytes. Inr (replicate (unat bytes div 8) 0)) 256 7 0 = Inr w
    \<and> set c = {..<unat (ml_lines w)} \<and> chase (ml_words w) 3 (ml_idx w) = Some (of_nat (8 * c ! (3 mod length c)))"
proof -
  obtain w where w: "ml_setup (\<lambda>bytes. Inr (replicate (unat bytes div 8) 0)) 256 7 0 = Inr w"
    by (simp add: ml_setup_def Let_def)
  show ?thesis using chase_visits_every_line [OF w] w by fastforce
qed

end
