(* ===== verification/Registry.thy ===== *)
theory Registry
  imports Cpu Mem_Bw Mem_Latency
begin

text \<open>
  The registry of \<^verbatim>\<open>engine/src/runner.cpp\<close> (declared in \<^verbatim>\<open>workload.hpp\<close>): which workload owns which
  metrics, which metrics ride along with another one, and the working set a configuration
  really uses.
\<close>

record WorkloadDesc =
  wd_kind :: Workload
  wd_metrics :: "Metric list"
  wd_description :: string
  wd_implemented :: bool

definition workload_registry :: "WorkloadDesc list" where
  "workload_registry =
     [\<lparr>wd_kind = W_cpu_int, wd_metrics = [M_cpu_int_ops],
       wd_description = ''64-bit integer mul/shift/xor/add on 8 lanes'', wd_implemented = True\<rparr>,
      \<lparr>wd_kind = W_cpu_fp, wd_metrics = [M_cpu_fp_ops],
       wd_description = ''double-precision FMA on 8 lanes'', wd_implemented = True\<rparr>,
      \<lparr>wd_kind = W_cpu_hash, wd_metrics = [M_cpu_hash_ops],
       wd_description = ''xxHash-style 64-byte block hashing'', wd_implemented = True\<rparr>,
      \<lparr>wd_kind = W_mem_bw, wd_metrics = [M_mem_read_bw, M_mem_write_bw, M_mem_copy_bw],
       wd_description = ''streaming read / write / copy over a per-thread buffer'', wd_implemented = True\<rparr>,
      \<lparr>wd_kind = W_mem_latency, wd_metrics = [M_mem_latency],
       wd_description = ''dependent-load pointer chase (Sattolo cycle)'', wd_implemented = True\<rparr>,
      \<lparr>wd_kind = W_disk_seq, wd_metrics = [M_disk_seq_read_bw, M_disk_seq_write_bw],
       wd_description = ''1 MiB O_DIRECT sequential read / write'', wd_implemented = True\<rparr>,
      \<lparr>wd_kind = W_disk_rand, wd_metrics = [M_disk_rand_read_iops, M_disk_rand_write_iops, M_disk_rand_read_p99_us],
       wd_description = ''4 KiB O_DIRECT random read / write, QD = threads'', wd_implemented = True\<rparr>]"

text \<open>\<open>for (int c = first; c < n; c += 2)\<close>.\<close>

function stride2 :: "int \<Rightarrow> int \<Rightarrow> int list" where
  "stride2 c n = (if c < n then c # stride2 (c + 2) n else [])"
  by auto
termination by (relation "measure (\<lambda>(c, n). nat (n - c))") auto

declare stride2.simps [simp del]

definition default_cpu_list :: "int \<Rightarrow> int list" where
  "default_cpu_list logical_cpus = stride2 0 logical_cpus @ stride2 1 logical_cpus"

fun implemented_in :: "Workload \<Rightarrow> WorkloadDesc list \<Rightarrow> bool" where
  "implemented_in w [] = False"
| "implemented_in w (d # ds) = (if wd_kind d = w then wd_implemented d else implemented_in w ds)"

definition is_implemented :: "Workload \<Rightarrow> bool" where
  "is_implemented w = implemented_in w workload_registry"

definition is_rider :: "Metric \<Rightarrow> bool" where
  "is_rider m \<longleftrightarrow> m = M_disk_rand_read_p99_us"

definition riders_of :: "Metric \<Rightarrow> Metric list" where
  "riders_of m = (if m = M_disk_rand_read_iops then [M_disk_rand_read_p99_us] else [])"

definition metrics_of :: "Workload \<Rightarrow> Metric list" where
  "metrics_of w =
     concat (map (\<lambda>d. if wd_kind d = w then filter (\<lambda>m. \<not> is_rider m) (wd_metrics d) else []) workload_registry)"

fun default_working_set :: "Workload \<Rightarrow> u64" where
  "default_working_set W_mem_bw = Mem_Bw.kDefaultWorkingSet"
| "default_working_set W_mem_latency = Mem_Latency.kDefaultWorkingSet"
| "default_working_set W_disk_seq = kDiskDefaultSize"
| "default_working_set W_disk_rand = kDiskDefaultSize"
| "default_working_set _ = 0"

definition disk_working_set :: "u64 \<Rightarrow> u64" where
  "disk_working_set requested =
     (let want = (if requested = 0 then kDiskDefaultSize else requested) in max 1 (want div kDiskSeqBlock) * kDiskSeqBlock)"

fun effective_working_set :: "Workload \<Rightarrow> u64 \<Rightarrow> u64" where
  "effective_working_set W_mem_bw requested = bw_buffer_bytes_for requested"
| "effective_working_set W_mem_latency requested = buffer_bytes_for requested"
| "effective_working_set W_disk_seq requested = disk_working_set requested"
| "effective_working_set W_disk_rand requested = disk_working_set requested"
| "effective_working_set _ requested = requested"

section \<open>The registry is complete\<close>

lemma metrics_of_table:
  "metrics_of W_cpu_int = [M_cpu_int_ops]" "metrics_of W_cpu_fp = [M_cpu_fp_ops]" "metrics_of W_cpu_hash = [M_cpu_hash_ops]"
  "metrics_of W_mem_bw = [M_mem_read_bw, M_mem_write_bw, M_mem_copy_bw]" "metrics_of W_mem_latency = [M_mem_latency]"
  "metrics_of W_disk_seq = [M_disk_seq_read_bw, M_disk_seq_write_bw]"
  "metrics_of W_disk_rand = [M_disk_rand_read_iops, M_disk_rand_write_iops]"
  by (simp_all add: metrics_of_def workload_registry_def is_rider_def)

lemma is_implemented_all: "is_implemented w"
  by (cases w) (simp_all add: is_implemented_def workload_registry_def)

text \<open>Rounding a size down to whole units of a power of two, at least one unit.\<close>

lemma whole_units:
  fixes want :: u64
  assumes "0 < unat unit'" "unat lo * unat unit' < 2 ^ 64"
  shows "unat (max lo (want div unit') * unit') = max (unat lo) (unat want div unat unit') * unat unit'"
proof -
  have m: "unat (max lo (want div unit')) = max (unat lo) (unat want div unat unit')" by (simp add: unat_max unat_div)
  have "unat want div unat unit' * unat unit' \<le> unat want" by (rule div_times_less_eq_dividend)
  then have "unat want div unat unit' * unat unit' < 2 ^ 64" using u64_lt [of want] by (rule le_less_trans)
  then have "max (unat lo) (unat want div unat unit') * unat unit' < 2 ^ 64" using assms(2) by (simp add: max_def)
  then show ?thesis by (subst unat_mult_lt) (simp_all add: m)
qed

lemma disk_working_set_nat:
  "unat (disk_working_set n) = max 1 ((if n = 0 then 0x100000000 else unat n) div 0x100000) * 0x100000"
  using whole_units [of kDiskSeqBlock 1 "if n = 0 then kDiskDefaultSize else n"] by (simp add: disk_working_set_def Let_def)

text \<open>
  The registry covers every metric exactly once: the metrics a workload expands to, with the
  riders they bring along, are without repetition exactly the metrics that belong to the
  workload, and every workload is implemented. The working set of a disk configuration is a
  positive whole number of sequential and of random blocks, and choosing it twice changes nothing.
\<close>

theorem registry_complete:
  "distinct (concat (map (\<lambda>m. m # riders_of m) (metrics_of w)))
   \<and> set (concat (map (\<lambda>m. m # riders_of m) (metrics_of w))) = {m. workload_of m = w}
   \<and> is_implemented w
   \<and> 0 < unat (disk_working_set n) \<and> unat (disk_working_set n) mod 0x100000 = 0 \<and> unat (disk_working_set n) mod 4096 = 0
   \<and> effective_working_set W_disk_seq (effective_working_set W_disk_rand n) = effective_working_set W_disk_rand n"
proof -
  have m: "m \<in> set (concat (map (\<lambda>m. m # riders_of m) (metrics_of w))) \<longleftrightarrow> workload_of m = w" for m
    by (cases w; cases m) (simp_all add: metrics_of_table riders_of_def)
  have dist: "distinct (concat (map (\<lambda>m. m # riders_of m) (metrics_of w)))"
    by (cases w) (simp_all add: metrics_of_table riders_of_def)
  define d where "d = unat (disk_working_set n)"
  have d: "d = max 1 ((if n = 0 then 0x100000000 else unat n) div 0x100000) * 0x100000"
    unfolding d_def by (rule disk_working_set_nat)
  then have pos: "0 < d" "d mod 0x100000 = 0" by simp_all
  have dvd: "d mod 4096 = 0" unfolding d by simp
  have "max 1 (d div 0x100000) * 0x100000 = d" by (simp add: d)
  moreover have "disk_working_set n \<noteq> 0" using pos(1) by (auto simp: d_def)
  ultimately have "unat (disk_working_set (disk_working_set n)) = unat (disk_working_set n)"
    unfolding disk_working_set_nat [of "disk_working_set n"] by (simp add: d_def)
  then have "disk_working_set (disk_working_set n) = disk_working_set n" by (rule word_unat_eq_iff [THEN iffD2])
  then show ?thesis using m dist pos dvd is_implemented_all unfolding d_def by auto
qed

end
