(* ===== verification/Stats.thy ===== *)
theory Stats
  imports Rounding
begin

text \<open>
  \<^verbatim>\<open>engine/src/stats.cpp\<close>: descriptive statistics over trial values. Every arithmetic
  operation of the source is one rounded operation of the arithmetic \<open>A\<close>
  (theory \<open>Rounding\<close>); a not-a-number result and an index outside the array are values.
\<close>

section \<open>Welford's accumulator\<close>

record welford =
  w_n :: u64
  w_mean :: real
  w_m2 :: real

definition welford_init :: welford where
  "welford_init = \<lparr>w_n = 0, w_mean = 0, w_m2 = 0\<rparr>"

definition welford_add :: "fp \<Rightarrow> welford \<Rightarrow> real \<Rightarrow> welford" where
  "welford_add A w x =
     (let n = w_n w + 1;
          delta = rnd A (x - w_mean w);
          mean = rnd A (w_mean w + rnd A (delta / rnd A (real (unat n))));
          m2 = madd A delta (rnd A (x - mean)) (w_m2 w)
      in \<lparr>w_n = n, w_mean = mean, w_m2 = m2\<rparr>)"

definition welford_merge :: "fp \<Rightarrow> welford \<Rightarrow> welford \<Rightarrow> welford" where
  "welford_merge A w other =
     (if w_n other = 0 then w
      else if w_n w = 0 then other
      else
        let na = rnd A (real (unat (w_n w)));
            nb = rnd A (real (unat (w_n other)));
            delta = rnd A (w_mean other - w_mean w);
            total = rnd A (na + nb);
            mean = rnd A (w_mean w + rnd A (rnd A (delta * nb) / total));
            m2 = rnd A (w_m2 w + rnd A (w_m2 other +
                   rnd A (rnd A (rnd A (rnd A (delta * delta) * na) * nb) / total)))
        in \<lparr>w_n = w_n w + w_n other, w_mean = mean, w_m2 = m2\<rparr>)"

definition welford_variance :: "fp \<Rightarrow> welford \<Rightarrow> real" where
  "welford_variance A w =
     (if w_n w < 2 then 0 else rnd A (w_m2 w / rnd A (real (unat (w_n w - 1)))))"

definition welford_stddev :: "fp \<Rightarrow> welford \<Rightarrow> real" where
  "welford_stddev A w = rnd A (sqrt (welford_variance A w))"

section \<open>Batch statistics\<close>

text \<open>\<open>for (double x : v) sum += x;\<close>\<close>

definition sum_loop :: "fp \<Rightarrow> real list \<Rightarrow> real" where
  "sum_loop A v = foldl (\<lambda>sum x. rnd A (sum + x)) 0 v"

definition mean :: "fp \<Rightarrow> real list \<Rightarrow> real" where
  "mean A v = (if v = [] then 0 else rnd A (sum_loop A v / rnd A (real (length v))))"

definition sumsq_loop :: "fp \<Rightarrow> real \<Rightarrow> real list \<Rightarrow> real" where
  "sumsq_loop A m v = foldl (\<lambda>sumsq x. let d = rnd A (x - m) in madd A d d sumsq) 0 v"

definition sample_variance :: "fp \<Rightarrow> real list \<Rightarrow> real" where
  "sample_variance A v =
     (if length v < 2 then 0
      else rnd A (sumsq_loop A (mean A v) v / rnd A (real (length v - 1))))"

definition sample_stddev :: "fp \<Rightarrow> real list \<Rightarrow> real" where
  "sample_stddev A v = rnd A (sqrt (sample_variance A v))"

text \<open>
  A percentile is a number, not-a-number (\<open>std::nan\<close>), or an access outside the array
  (undefined behaviour of the source).
\<close>

datatype fpval = Num real | NaN | Out_of_bounds

definition percentile_sorted :: "fp \<Rightarrow> real list \<Rightarrow> real \<Rightarrow> fpval" where
  "percentile_sorted A srt p =
     (if srt = [] then NaN
      else
        let rank = rnd A (rnd A (p / 100) * rnd A (real (length srt - 1)));
            lo = \<lfloor>rank\<rfloor>;
            hi = \<lceil>rank\<rceil>;
            frac = rnd A (rank - rnd A (of_int lo))
        in if lo < 0 \<or> int (length srt) \<le> lo \<or> hi < 0 \<or> int (length srt) \<le> hi
           then Out_of_bounds
           else Num (madd A (rnd A (srt ! nat hi - srt ! nat lo)) frac (srt ! nat lo)))"

definition sorted_copy :: "real list \<Rightarrow> real list" where
  "sorted_copy v = sort v"

definition percentile :: "fp \<Rightarrow> real list \<Rightarrow> real \<Rightarrow> fpval" where
  "percentile A v p = percentile_sorted A (sorted_copy v) p"

definition median :: "fp \<Rightarrow> real list \<Rightarrow> fpval" where
  "median A v = percentile A v 50"

definition cov :: "fp \<Rightarrow> real list \<Rightarrow> real" where
  "cov A v = (let m = mean A v in if m = 0 then 0 else rnd A (sample_stddev A v / m))"

text \<open>\<open>mad\<close> returns not-a-number for an empty span before it looks at the median.\<close>

definition mad :: "fp \<Rightarrow> real list \<Rightarrow> fpval" where
  "mad A v =
     (if v = [] then NaN
      else case median A v of
        Num m \<Rightarrow> median A (map (\<lambda>x. \<bar>rnd A (x - m)\<bar>) v)
      | e \<Rightarrow> e)"

record SummaryStats =
  ss_n :: u64
  ss_mean :: real
  ss_median :: fpval
  ss_stddev :: real
  ss_cov :: real
  ss_min :: real
  ss_p5 :: fpval
  ss_p95 :: fpval
  ss_max :: real
  ss_mad :: fpval

definition empty_stats :: SummaryStats where
  "empty_stats =
     \<lparr>ss_n = 0, ss_mean = 0, ss_median = Num 0, ss_stddev = 0, ss_cov = 0, ss_min = 0,
      ss_p5 = Num 0, ss_p95 = Num 0, ss_max = 0, ss_mad = Num 0\<rparr>"

definition summarize :: "fp \<Rightarrow> real list \<Rightarrow> SummaryStats" where
  "summarize A v =
     (if v = [] then empty_stats
      else
        let srt = sorted_copy v; m = mean A v; sd = sample_stddev A v in
        \<lparr>ss_n = of_nat (length v), ss_mean = m,
         ss_median = percentile_sorted A srt 50,
         ss_stddev = sd,
         ss_cov = (if m = 0 then 0 else rnd A (sd / m)),
         ss_min = hd srt,
         ss_p5 = percentile_sorted A srt 5,
         ss_p95 = percentile_sorted A srt 95,
         ss_max = last srt,
         ss_mad = mad A v\<rparr>)"

section \<open>Exact arithmetic: Welford computes the two-pass statistics\<close>

definition welford_of :: "fp \<Rightarrow> real list \<Rightarrow> welford" where
  "welford_of A v = foldl (welford_add A) welford_init v"

definition avg :: "real list \<Rightarrow> real" where
  "avg v = sum_list v / real (length v)"

definition dev2 :: "real list \<Rightarrow> real" where
  "dev2 v = (\<Sum>x\<leftarrow>v. (x - avg v)\<^sup>2)"

lemma sum_loop_exact: "sum_loop exact_fp v = sum_list v"
proof -
  have "foldl (\<lambda>sum x. sum + x) s v = s + sum_list v" for s :: real
    by (induction v arbitrary: s) auto
  then show ?thesis by (simp add: sum_loop_def)
qed

lemma mean_exact: "v \<noteq> [] \<Longrightarrow> mean exact_fp v = avg v"
  by (simp add: mean_def avg_def sum_loop_exact)

lemma sumsq_loop_exact: "sumsq_loop exact_fp m v = (\<Sum>x\<leftarrow>v. (x - m)\<^sup>2)"
proof -
  have "foldl (\<lambda>s x. (x - m) * (x - m) + s) s v = s + (\<Sum>x\<leftarrow>v. (x - m)\<^sup>2)" for s
    by (induction v arbitrary: s) (auto simp: power2_eq_square)
  then show ?thesis by (simp add: sumsq_loop_def Let_def)
qed

text \<open>Koenig-Huygens: the sum of squared deviations from any point.\<close>

lemma sum_list_dev: "(\<Sum>x\<leftarrow>v. (x - a)\<^sup>2) = (\<Sum>x\<leftarrow>v. x\<^sup>2) - 2 * a * sum_list v + real (length v) * a\<^sup>2"
  by (induction v) (auto simp: power2_eq_square algebra_simps)

lemma dev2_eq: "v \<noteq> [] \<Longrightarrow> dev2 v = (\<Sum>x\<leftarrow>v. x\<^sup>2) - (sum_list v)\<^sup>2 / real (length v)"
  unfolding dev2_def avg_def sum_list_dev by (simp add: power2_eq_square field_simps)

text \<open>Merging two samples: Chan, Golub and LeVeque's formula.\<close>

lemma avg_append:
  assumes "v \<noteq> []" "w \<noteq> []"
  shows "avg (v @ w) = avg v + (avg w - avg v) * real (length w) / (real (length v) + real (length w))"
proof -
  have "0 < real (length v)" "0 < real (length w)" using assms by auto
  moreover from this have "real (length v) + real (length w) \<noteq> 0" by linarith
  ultimately show ?thesis by (simp add: avg_def divide_simps) (simp add: algebra_simps)
qed

lemma dev2_append:
  assumes "v \<noteq> []" "w \<noteq> []"
  shows "dev2 (v @ w) = dev2 v + (dev2 w + (avg w - avg v) * (avg w - avg v) * real (length v)
    * real (length w) / (real (length v) + real (length w)))"
proof -
  define n k S T where "n = real (length v)" and "k = real (length w)"
    and "S = sum_list v" and "T = sum_list w"
  have pos: "0 < n" "0 < k" using assms by (auto simp: n_def k_def)
  then have "n + k \<noteq> 0" by linarith
  have "(S + T)\<^sup>2 / (n + k) = S\<^sup>2 / n + T\<^sup>2 / k - (T / k - S / n) * (T / k - S / n) * n * k / (n + k)"
    using pos \<open>n + k \<noteq> 0\<close> by (simp add: divide_simps power2_eq_square) (simp add: algebra_simps)
  then show ?thesis
    using assms by (simp add: dev2_eq avg_def flip: n_def k_def S_def T_def)
qed

lemma dev2_single [simp]: "dev2 [x] = 0"
  by (simp add: dev2_def avg_def)

lemma dev2_snoc:
  assumes "v \<noteq> []"
  shows "dev2 (v @ [x]) = dev2 v + (x - avg v) * (x - avg (v @ [x]))"
proof -
  have pos: "0 < real (length v)" "0 < real (length v) + 1" using assms by auto
  have "dev2 (v @ [x]) = dev2 v + (x - avg v) * (x - avg v) * real (length v) / (real (length v) + 1)"
    using dev2_append [OF assms, of "[x]"] by (simp add: avg_def [of "[x]"])
  also have "(x - avg v) * (x - avg v) * real (length v) / (real (length v) + 1) =
      (x - avg v) * (x - (avg v + (x - avg v) / (real (length v) + 1)))"
    using pos by (simp add: divide_simps) (simp add: algebra_simps)
  also have "avg v + (x - avg v) / (real (length v) + 1) = avg (v @ [x])"
    using avg_append [OF assms, of "[x]"] by (simp add: avg_def [of "[x]"])
  finally show ?thesis by simp
qed

lemma welford_of_exact:
  "length v < 2 ^ 64 \<Longrightarrow>
   welford_of exact_fp v = \<lparr>w_n = of_nat (length v), w_mean = avg v, w_m2 = dev2 v\<rparr>"
proof (induction v rule: rev_induct)
  case Nil
  then show ?case by (simp add: welford_of_def welford_init_def avg_def dev2_def)
next
  case (snoc x v)
  have n: "(unsigned (of_nat (length v) + 1 :: u64) :: real) = real (length v) + 1"
    using snoc.prems u64_of_nat_real [of "length v + 1"] unfolding u64_Suc by simp
  have "welford_of exact_fp (v @ [x]) =
      welford_add exact_fp \<lparr>w_n = of_nat (length v), w_mean = avg v, w_m2 = dev2 v\<rparr> x"
    using snoc by (simp add: welford_of_def)
  also have "\<dots> = \<lparr>w_n = of_nat (length v) + 1,
      w_mean = avg v + (x - avg v) / (real (length v) + 1),
      w_m2 = (x - avg v) * (x - (avg v + (x - avg v) / (real (length v) + 1))) + dev2 v\<rparr>"
    by (simp add: welford_add_def n Let_def)
  also have "\<dots> = \<lparr>w_n = of_nat (length v) + 1, w_mean = avg (v @ [x]), w_m2 = dev2 (v @ [x])\<rparr>"
  proof (cases "v = []")
    case True
    then show ?thesis by (simp add: avg_def dev2_def)
  next
    case False
    then show ?thesis
      using avg_append [OF False, of "[x]"] dev2_snoc [OF False, of x] by (simp add: avg_def [of "[x]"])
  qed
  finally show ?case by (simp add: add.commute)
qed

text \<open>
  (C28) In exact arithmetic Welford's streaming accumulator and its merge compute what the
  two-pass batch functions compute: merging the accumulators of two chunks is the
  accumulator of their concatenation, and its mean and variance are the batch mean and
  sample variance.
\<close>

theorem welford_merge_is_batch:
  assumes "length v + length w < 2 ^ 64" "v @ w \<noteq> []"
  shows "welford_merge exact_fp (welford_of exact_fp v) (welford_of exact_fp w) =
      welford_of exact_fp (v @ w)
    \<and> w_mean (welford_of exact_fp (v @ w)) = mean exact_fp (v @ w)
    \<and> welford_variance exact_fp (welford_of exact_fp (v @ w)) = sample_variance exact_fp (v @ w)"
proof (intro conjI)
  have len: "length v < 2 ^ 64" "length w < 2 ^ 64" "length (v @ w) < 2 ^ 64" using assms by auto
  note wf = welford_of_exact [OF len(1)] welford_of_exact [OF len(2)] welford_of_exact [OF len(3)]
  note vw = u64_of_nat_0 [OF len(1)] u64_of_nat_0 [OF len(2)]
    u64_of_nat_real [OF len(1)] u64_of_nat_real [OF len(2)]
  show "welford_merge exact_fp (welford_of exact_fp v) (welford_of exact_fp w) =
      welford_of exact_fp (v @ w)"
  proof (cases "v = [] \<or> w = []")
    case True
    then show ?thesis unfolding wf welford_merge_def by (auto simp: vw)
  next
    case False
    then show ?thesis
      unfolding wf welford_merge_def by (simp add: vw Let_def avg_append dev2_append)
  qed
  show "w_mean (welford_of exact_fp (v @ w)) = mean exact_fp (v @ w)"
    using assms by (simp add: wf mean_exact)
  define n where "n = length (v @ w)"
  have n: "0 < n" "n < 2 ^ 64" using len(3) assms(2) by (auto simp: n_def)
  have two: "(of_nat n :: u64) < 2 \<longleftrightarrow> n < 2"
    by (simp add: word_less_nat_alt u64_of_nat [OF n(2)])
  have "(unsigned (of_nat n - 1 :: u64) :: real) = real (n - 1)"
    using n by (simp add: u64_pred u64_of_nat_real del: of_nat_diff)
  with two show "welford_variance exact_fp (welford_of exact_fp (v @ w)) =
      sample_variance exact_fp (v @ w)"
    using assms(2) unfolding wf(3) welford_variance_def sample_variance_def n_def [symmetric]
    by (simp add: sumsq_loop_exact mean_exact dev2_def)
qed

theorem welford_merge_is_batch_witness:
  "welford_merge exact_fp (welford_of exact_fp [1, 2]) (welford_of exact_fp [4]) =
   welford_of exact_fp [1, 2, 4]"
  using welford_merge_is_batch [of "[1, 2]" "[4]"] by simp

section \<open>Rounded arithmetic: percentiles are in bounds, ordered and monotone\<close>

definition rank_of :: "fp \<Rightarrow> nat \<Rightarrow> real \<Rightarrow> real" where
  "rank_of A n p = rnd A (rnd A (p / 100) * rnd A (real (n - 1)))"

definition lerp_at :: "fp \<Rightarrow> real list \<Rightarrow> real \<Rightarrow> real" where
  "lerp_at A s r =
     madd A (rnd A (s ! nat \<lceil>r\<rceil> - s ! nat \<lfloor>r\<rfloor>)) (r - of_int \<lfloor>r\<rfloor>) (s ! nat \<lfloor>r\<rfloor>)"

lemma index_bounds:
  assumes "0 \<le> r" "r \<le> real (n - 1)" "0 < n"
  shows "nat \<lfloor>r\<rfloor> \<le> nat \<lceil>r\<rceil>" and "nat \<lceil>r\<rceil> < n" and "\<lceil>r\<rceil> \<le> int n - 1"
proof -
  have "\<lceil>r\<rceil> \<le> int (n - 1)" using assms by (simp only: ceiling_le_iff of_int_of_nat_eq)
  with assms show "\<lceil>r\<rceil> \<le> int n - 1" by linarith
  then show "nat \<lceil>r\<rceil> < n" using assms by linarith
  show "nat \<lfloor>r\<rfloor> \<le> nat \<lceil>r\<rceil>" using floor_le_ceiling by (rule nat_mono)
qed

context fp_arith begin

lemma rank_bounds:
  assumes "0 \<le> p" "p \<le> 100" "n \<le> 2 ^ 53"
  shows "0 \<le> rank_of A n p" and "rank_of A n p \<le> real (n - 1)"
proof -
  have n: "rnd A (real (n - 1)) = real (n - 1)" using assms by (intro rnd_nat) linarith
  show "0 \<le> rank_of A n p"
    unfolding rank_of_def n using assms by (intro rnd_ge_0 mult_nonneg_nonneg) (auto intro: rnd_ge_0)
  have "rnd A (p / 100) * real (n - 1) \<le> 1 * real (n - 1)"
    using assms by (intro mult_right_mono rnd_le_1) auto
  then show "rank_of A n p \<le> real (n - 1)"
    unfolding rank_of_def n using assms by (intro rnd_le_nat) auto
qed

lemma rank_mono:
  assumes "p \<le> q" "n \<le> 2 ^ 53"
  shows "rank_of A n p \<le> rank_of A n q"
proof -
  have "rnd A (real (n - 1)) = real (n - 1)" using assms by (intro rnd_nat) linarith
  then show ?thesis
    unfolding rank_of_def using assms
    by (intro rnd_mono mult_right_mono) (auto intro: rnd_mono divide_right_mono)
qed

lemma percentile_sorted_lerp:
  assumes "s \<noteq> []" "0 \<le> p" "p \<le> 100" "length s \<le> 2 ^ 53"
  shows "percentile_sorted A s p = Num (lerp_at A s (rank_of A (length s) p))"
proof -
  define r where "r = rank_of A (length s) p"
  note rb = rank_bounds [OF assms(2-4), folded r_def]
  have r_rnd: "rnd A r = r" by (simp add: r_def rank_of_def rnd_idem)
  have lo: "0 \<le> \<lfloor>r\<rfloor>" using rb by simp
  have hi: "\<lceil>r\<rceil> \<le> int (length s) - 1"
    using index_bounds(3) [OF rb] assms(1) by simp
  have lohi: "\<lfloor>r\<rfloor> \<le> \<lceil>r\<rceil>" by (rule floor_le_ceiling)
  have "rnd A (real (nat \<lfloor>r\<rfloor>)) = real (nat \<lfloor>r\<rfloor>)"
    using lo hi lohi assms(4) by (intro rnd_nat) linarith
  then have "rnd A (of_int \<lfloor>r\<rfloor>) = of_int \<lfloor>r\<rfloor>" using lo by simp
  then have "rnd A (r - rnd A (of_int \<lfloor>r\<rfloor>)) = r - of_int \<lfloor>r\<rfloor>"
    using rnd_frac [OF r_rnd rb(1)] by simp
  moreover have "\<not> (\<lfloor>r\<rfloor> < 0 \<or> int (length s) \<le> \<lfloor>r\<rfloor> \<or> \<lceil>r\<rceil> < 0 \<or> int (length s) \<le> \<lceil>r\<rceil>)"
    using lo hi lohi by linarith
  ultimately show ?thesis
    using assms(1) unfolding percentile_sorted_def rank_of_def [symmetric] r_def [symmetric] Let_def
    by (simp only: if_False lerp_at_def)
qed

lemma lerp_at_bounds:
  assumes s: "sorted s" "\<And>x. x \<in> set s \<Longrightarrow> rnd A x = x"
    and r: "0 \<le> r" "r \<le> real (length s - 1)" "rnd A r = r" "s \<noteq> []"
  shows "s ! nat \<lfloor>r\<rfloor> \<le> lerp_at A s r" and "lerp_at A s r \<le> s ! nat \<lceil>r\<rceil>"
proof -
  have hi: "nat \<lceil>r\<rceil> < length s" and lohi: "nat \<lfloor>r\<rfloor> \<le> nat \<lceil>r\<rceil>"
    using index_bounds [OF r(1,2)] r(4) by simp_all
  have le: "s ! nat \<lfloor>r\<rfloor> \<le> s ! nat \<lceil>r\<rceil>" using s(1) hi lohi by (simp add: sorted_nth_mono)
  have mem: "rnd A (s ! nat \<lfloor>r\<rfloor>) = s ! nat \<lfloor>r\<rfloor>" "rnd A (s ! nat \<lceil>r\<rceil>) = s ! nat \<lceil>r\<rceil>"
    using hi lohi s(2) by (auto intro: nth_mem)
  have fr: "rnd A (r - of_int \<lfloor>r\<rfloor>) = r - of_int \<lfloor>r\<rfloor>" "0 \<le> r - of_int \<lfloor>r\<rfloor>" "r - of_int \<lfloor>r\<rfloor> < 1"
    using rnd_frac [OF r(3,1)] by (simp, linarith, linarith)
  show "s ! nat \<lfloor>r\<rfloor> \<le> lerp_at A s r" "lerp_at A s r \<le> s ! nat \<lceil>r\<rceil>"
    unfolding lerp_at_def using lerp_bounds [OF mem le fr] by simp_all
qed

lemma lerp_at_mono:
  assumes s: "sorted s" "\<And>x. x \<in> set s \<Longrightarrow> rnd A x = x" "s \<noteq> []"
    and r: "0 \<le> r" "rnd A r = r" and q: "r \<le> q" "q \<le> real (length s - 1)" "rnd A q = q"
  shows "lerp_at A s r \<le> lerp_at A s q"
proof -
  have rn: "r \<le> real (length s - 1)" and q0: "0 \<le> q" using assms by linarith+
  note br = lerp_at_bounds [OF s(1,2) r(1) rn r(2) s(3)]
  note bq = lerp_at_bounds [OF s(1,2) q0 q(2,3) s(3)]
  have hi: "nat \<lceil>q\<rceil> < length s" and qlt: "nat \<lfloor>q\<rfloor> < length s"
    using index_bounds [OF q0 q(2)] s(3) by simp_all
  have fl: "\<lfloor>r\<rfloor> \<le> \<lfloor>q\<rfloor>" using q(1) by (rule floor_mono)
  consider "\<lfloor>r\<rfloor> < \<lfloor>q\<rfloor>" | "\<lfloor>r\<rfloor> = \<lfloor>q\<rfloor>" "\<lceil>r\<rceil> = \<lfloor>r\<rfloor>" | "\<lfloor>r\<rfloor> = \<lfloor>q\<rfloor>" "\<lceil>r\<rceil> = \<lceil>q\<rceil>"
    using fl q(1) by (smt (verit) ceiling_mono ceiling_le_iff floor_le_iff ceiling_diff_floor_le_1 floor_le_ceiling)
  then show ?thesis
  proof cases
    case 1
    then have "nat \<lceil>r\<rceil> \<le> nat \<lfloor>q\<rfloor>" using ceiling_diff_floor_le_1 [of r] by linarith
    then have "s ! nat \<lceil>r\<rceil> \<le> s ! nat \<lfloor>q\<rfloor>" using s(1) qlt by (simp add: sorted_nth_mono)
    with br bq show ?thesis by linarith
  next
    case 2
    with br bq show ?thesis by simp
  next
    case 3
    have "s ! nat \<lfloor>q\<rfloor> \<le> s ! nat \<lceil>q\<rceil>"
      using s(1) hi nat_mono [OF floor_le_ceiling [of q]] by (simp add: sorted_nth_mono)
    then have "0 \<le> rnd A (s ! nat \<lceil>q\<rceil> - s ! nat \<lfloor>q\<rfloor>)" by (simp add: rnd_ge_0)
    then show ?thesis
      unfolding lerp_at_def using 3 q(1) by (simp add: madd_mono mult_left_mono)
  qed
qed

lemma percentile_sorted_mono:
  assumes "sorted s" "\<And>x. x \<in> set s \<Longrightarrow> rnd A x = x" "s \<noteq> []" "length s \<le> 2 ^ 53"
    and "0 \<le> p" "p \<le> q" "q \<le> 100"
  obtains a b where "percentile_sorted A s p = Num a" "percentile_sorted A s q = Num b"
    "hd s \<le> a" "a \<le> b" "b \<le> last s"
proof -
  define r t where "r = rank_of A (length s) p" and "t = rank_of A (length s) q"
  have p: "p \<le> 100" and q: "0 \<le> q" using assms by linarith+
  have r: "0 \<le> r" "r \<le> real (length s - 1)" "rnd A r = r"
    unfolding r_def by (rule rank_bounds [OF assms(5) p assms(4)])+ (simp add: rank_of_def rnd_idem)
  have t: "0 \<le> t" "t \<le> real (length s - 1)" "rnd A t = t"
    unfolding t_def by (rule rank_bounds [OF q assms(7,4)])+ (simp add: rank_of_def rnd_idem)
  have rt: "r \<le> t" unfolding r_def t_def by (rule rank_mono [OF assms(6,4)])
  have n: "0 < length s" using assms(3) by simp
  have "s ! 0 \<le> s ! nat \<lfloor>r\<rfloor>"
    using index_bounds [OF r(1,2) n] by (intro sorted_nth_mono [OF assms(1)]) linarith+
  then have lo: "hd s \<le> lerp_at A s r"
    using lerp_at_bounds(1) [OF assms(1,2) r assms(3)] assms(3) by (simp add: hd_conv_nth)
  have "s ! nat \<lceil>t\<rceil> \<le> s ! (length s - 1)"
    using index_bounds [OF t(1,2) n] by (intro sorted_nth_mono [OF assms(1)]) linarith+
  then have hi: "lerp_at A s t \<le> last s"
    using lerp_at_bounds(2) [OF assms(1,2) t assms(3)] assms(3) by (simp add: last_conv_nth)
  have "lerp_at A s r \<le> lerp_at A s t"
    by (rule lerp_at_mono [OF assms(1-3) r(1,3) rt t(2,3)])
  with lo hi show thesis
    using that percentile_sorted_lerp [OF assms(3,5) p assms(4)]
      percentile_sorted_lerp [OF assms(3) q assms(7,4)]
    by (simp add: r_def t_def)
qed

lemma percentile_mono:
  assumes "v \<noteq> []" "\<And>x. x \<in> set v \<Longrightarrow> rnd A x = x" "length v \<le> 2 ^ 53"
    and "0 \<le> p" "p \<le> q" "q \<le> 100"
  shows "\<exists>a b. percentile_sorted A (sort v) p = Num a \<and> percentile_sorted A (sort v) q = Num b
    \<and> hd (sort v) \<le> a \<and> a \<le> b \<and> b \<le> last (sort v)"
proof -
  have ne: "sort v \<noteq> []" using assms(1) by (metis set_empty set_sort)
  have el: "\<And>x. x \<in> set (sort v) \<Longrightarrow> rnd A x = x" using assms(2) by simp
  have len: "length (sort v) \<le> 2 ^ 53" using assms(3) by simp
  show ?thesis
    by (rule percentile_sorted_mono [OF sorted_sort el ne len assms(4-6)]) blast+
qed

lemma sum_loop_nonneg: "(\<And>x. x \<in> set v \<Longrightarrow> 0 \<le> x) \<Longrightarrow> 0 \<le> sum_loop A v"
proof -
  assume nn: "\<And>x. x \<in> set v \<Longrightarrow> 0 \<le> x"
  have "0 \<le> s \<Longrightarrow> 0 \<le> foldl (\<lambda>sum x. rnd A (sum + x)) s v" for s
    using nn by (induction v arbitrary: s) (auto simp: rnd_ge_0)
  then show ?thesis by (simp add: sum_loop_def)
qed

lemma mean_nonneg: "(\<And>x. x \<in> set v \<Longrightarrow> 0 \<le> x) \<Longrightarrow> 0 \<le> mean A v"
  by (auto simp: mean_def intro!: rnd_ge_0 divide_nonneg_nonneg sum_loop_nonneg)

lemma sample_stddev_nonneg: "0 \<le> sample_stddev A v"
proof -
  have "0 \<le> s \<Longrightarrow> 0 \<le> foldl (\<lambda>sumsq x. let d = rnd A (x - m) in madd A d d sumsq) s v" for s m
    by (induction v arbitrary: s) (auto simp: Let_def madd_nonneg)
  then have "0 \<le> sumsq_loop A m v" for m by (simp add: sumsq_loop_def)
  then have "0 \<le> sample_variance A v"
    by (auto simp: sample_variance_def intro!: rnd_ge_0 divide_nonneg_nonneg)
  then show ?thesis by (simp add: sample_stddev_def rnd_ge_0)
qed

lemma rnd_abs: "rnd A \<bar>rnd A x\<bar> = \<bar>rnd A x\<bar>"
  by (cases "0 \<le> rnd A x") (simp_all add: rnd_minus rnd_idem)

lemma mad_nonneg:
  assumes "v \<noteq> []" "\<And>x. x \<in> set v \<Longrightarrow> rnd A x = x" "length v \<le> 2 ^ 53"
  obtains d where "mad A v = Num d" "0 \<le> d"
proof -
  obtain m where m: "median A v = Num m"
    using percentile_mono [OF assms, of 50 50] by (auto simp: median_def percentile_def sorted_copy_def)
  define dev where "dev = map (\<lambda>x. \<bar>rnd A (x - m)\<bar>) v"
  have dev: "dev \<noteq> []" "\<And>x. x \<in> set dev \<Longrightarrow> rnd A x = x" "length dev \<le> 2 ^ 53"
    using assms(1,3) by (auto simp: dev_def rnd_abs)
  obtain d where d: "median A dev = Num d" "hd (sort dev) \<le> d"
    using percentile_mono [OF dev, of 50 50] by (auto simp: median_def percentile_def sorted_copy_def)
  have "sort dev \<noteq> []" using dev(1) by (metis set_empty set_sort)
  have "hd (sort dev) \<in> set dev" using \<open>sort dev \<noteq> []\<close> by (metis hd_in_set set_sort)
  then have "0 \<le> hd (sort dev)" by (auto simp: dev_def)
  with d m assms(1) show thesis using that [of d] by (simp add: mad_def dev_def)
qed

end

text \<open>
  Percentiles under IEEE rounding: for a non-empty list of doubles and
  \<open>0 \<le> p \<le> q \<le> 100\<close>, whether or not the compiler contracts the interpolation, both
  percentiles are numbers (no access outside the array, never not-a-number), they are
  ordered like their arguments, and both lie between the smallest and the largest value.
\<close>

theorem percentile_monotone:
  assumes "v \<noteq> []" "\<forall>x\<in>set v. rnd64 x = x" "length v \<le> 2 ^ 53" "0 \<le> p" "p \<le> q" "q \<le> 100"
  shows "\<exists>a b. percentile (ieee64 c) v p = Num a \<and> percentile (ieee64 c) v q = Num b
    \<and> Min (set v) \<le> a \<and> a \<le> b \<and> b \<le> Max (set v)"
proof -
  have "sort v \<noteq> []" using assms(1) by (metis set_empty set_sort)
  have el: "\<And>x. x \<in> set v \<Longrightarrow> rnd (ieee64 c) x = x" using assms(2) by simp
  obtain a b where ab: "percentile_sorted (ieee64 c) (sort v) p = Num a"
      "percentile_sorted (ieee64 c) (sort v) q = Num b" "hd (sort v) \<le> a" "a \<le> b" "b \<le> last (sort v)"
    using machine.percentile_mono [OF assms(1) el assms(3-6)] by blast
  have "Min (set v) \<le> hd (sort v)" "last (sort v) \<le> Max (set v)"
    using \<open>sort v \<noteq> []\<close> by (metis List.finite_set Min_le hd_in_set set_sort)
      (metis List.finite_set Max_ge \<open>sort v \<noteq> []\<close> last_in_set set_sort)
  with ab show ?thesis by (intro exI [of _ a] exI [of _ b]) (simp add: percentile_def sorted_copy_def)
qed

theorem percentile_monotone_witness:
  "\<exists>a b. percentile (ieee64 True) [3, 1, 2] 5 = Num a \<and> percentile (ieee64 True) [3, 1, 2] 95 = Num b
    \<and> Min (set [3, 1, 2 :: real]) \<le> a \<and> a \<le> b \<and> b \<le> Max (set [3, 1, 2])"
proof (rule percentile_monotone)
  show "\<forall>x\<in>set [3, 1, 2]. rnd64 x = x"
    using rnd64_nat [of 3] rnd64_nat [of 1] rnd64_nat [of 2] by simp
qed auto

lemma summarize_order:
  fixes v :: "real list" and c :: bool
  assumes "v \<noteq> []" "\<forall>x\<in>set v. rnd64 x = x" "length v \<le> 2 ^ 53"
  defines "s \<equiv> summarize (ieee64 c) v"
  shows "\<exists>p5 med p95 md. ss_p5 s = Num p5 \<and> ss_median s = Num med \<and> ss_p95 s = Num p95 \<and> ss_mad s = Num md
    \<and> ss_min s \<le> p5 \<and> p5 \<le> med \<and> med \<le> p95 \<and> p95 \<le> ss_max s \<and> 0 \<le> md \<and> 0 \<le> ss_stddev s
    \<and> ((\<forall>x\<in>set v. 0 \<le> x) \<longrightarrow> 0 \<le> ss_mean s \<and> 0 \<le> ss_cov s)
    \<and> unat (ss_n s) = length v"
proof -
  have el: "\<And>x. x \<in> set v \<Longrightarrow> rnd (ieee64 c) x = x" using assms(2) by simp
  note mono = machine.percentile_mono [OF assms(1) el assms(3)]
  obtain a b where 1: "percentile_sorted (ieee64 c) (sort v) 5 = Num a"
      "percentile_sorted (ieee64 c) (sort v) 50 = Num b" "hd (sort v) \<le> a" "a \<le> b"
    using mono [of 5 50] by auto
  obtain d where 2: "percentile_sorted (ieee64 c) (sort v) 95 = Num d" "b \<le> d" "d \<le> last (sort v)"
    using mono [of 50 95] 1(2) by auto
  obtain e where 3: "mad (ieee64 c) v = Num e" "0 \<le> e"
    by (rule machine.mad_nonneg [OF assms(1) el assms(3)])
  have 4: "0 \<le> mean (ieee64 c) v" if "\<forall>x\<in>set v. 0 \<le> x"
    using machine.mean_nonneg that by blast
  then have 5: "0 \<le> rnd64 (sample_stddev (ieee64 c) v / mean (ieee64 c) v)" if "\<forall>x\<in>set v. 0 \<le> x"
    using that machine.sample_stddev_nonneg by (intro rnd64_nonneg divide_nonneg_nonneg) auto
  show ?thesis
    using assms(1,3) 1 2 3 4 5 machine.sample_stddev_nonneg [of c v]
    by (intro exI [of _ a] exI [of _ b] exI [of _ d] exI [of _ e])
      (auto simp: s_def summarize_def sorted_copy_def Let_def u64_of_nat)
qed



end
