(* ===== verification/Json.thy ===== *)
theory Json
  imports Stats Cpp_String
begin

text \<open>
  The interface to \<^verbatim>\<open>nlohmann::json\<close>, a library outside the repository: the operations the
  engine calls as a record that every client takes as an argument, and its documented
  behaviour as the locale \<open>json_library\<close>. The locale is interpreted on a datatype of JSON
  values, which also serves to evaluate the clients.

  A double is an \<open>fpval\<close> (a real number or not a number). An operation that throws
  \<open>json::exception\<close> returns the text of the exception on the left.
\<close>

section \<open>Operations\<close>

text \<open>\<open>json::value_t\<close>, the kind of a value.\<close>

datatype value_t =
  V_null | V_boolean | V_number_integer | V_number_unsigned | V_number_float | V_string | V_array | V_object

record 'j json_lib =
  js_type :: "'j \<Rightarrow> value_t"
  js_of_bool :: "bool \<Rightarrow> 'j"
  js_of_int :: "int \<Rightarrow> 'j"                     \<comment> \<open>from a signed integer\<close>
  js_of_u64 :: "u64 \<Rightarrow> 'j"                     \<comment> \<open>from an unsigned integer\<close>
  js_of_double :: "fpval \<Rightarrow> 'j"
  js_of_string :: "string \<Rightarrow> 'j"
  js_array :: "'j list \<Rightarrow> 'j"
  js_object :: "(string \<times> 'j) list \<Rightarrow> 'j"     \<comment> \<open>from an initialiser list of pairs\<close>
  js_find :: "'j \<Rightarrow> string \<Rightarrow> 'j option"       \<comment> \<open>\<open>find\<close>, \<open>contains\<close>, \<open>operator[]\<close> with a key\<close>
  js_elements :: "'j \<Rightarrow> 'j list"              \<comment> \<open>iteration, \<open>size\<close>, \<open>operator[]\<close> with an index\<close>
  js_get_string :: "'j \<Rightarrow> string + string"
  js_get_int :: "'j \<Rightarrow> string + int"          \<comment> \<open>\<open>get<int>\<close>\<close>
  js_get_long :: "'j \<Rightarrow> string + int"         \<comment> \<open>\<open>get<long long>\<close>\<close>
  js_get_u64 :: "'j \<Rightarrow> string + u64"
  js_get_double :: "'j \<Rightarrow> string + fpval"
  js_get_strings :: "'j \<Rightarrow> string + string list"
  js_value_error :: "'j \<Rightarrow> string"            \<comment> \<open>text of \<open>type_error 306\<close>, \<open>value()\<close> on a non-object\<close>

definition is_string :: "'j json_lib \<Rightarrow> 'j \<Rightarrow> bool" where
  "is_string L j \<longleftrightarrow> js_type L j = V_string"

definition is_number_integer :: "'j json_lib \<Rightarrow> 'j \<Rightarrow> bool" where
  "is_number_integer L j \<longleftrightarrow> js_type L j = V_number_integer \<or> js_type L j = V_number_unsigned"

definition is_number :: "'j json_lib \<Rightarrow> 'j \<Rightarrow> bool" where
  "is_number L j \<longleftrightarrow> is_number_integer L j \<or> js_type L j = V_number_float"

definition is_boolean :: "'j json_lib \<Rightarrow> 'j \<Rightarrow> bool" where
  "is_boolean L j \<longleftrightarrow> js_type L j = V_boolean"

definition is_array :: "'j json_lib \<Rightarrow> 'j \<Rightarrow> bool" where
  "is_array L j \<longleftrightarrow> js_type L j = V_array"

definition is_object :: "'j json_lib \<Rightarrow> 'j \<Rightarrow> bool" where
  "is_object L j \<longleftrightarrow> js_type L j = V_object"

lemmas js_kind_defs = is_string_def is_number_integer_def is_number_def is_boolean_def is_array_def is_object_def

definition contains :: "'j json_lib \<Rightarrow> 'j \<Rightarrow> string \<Rightarrow> bool" where
  "contains L j key \<longleftrightarrow> js_find L j key \<noteq> None"

text \<open>\<open>j.value(key, dflt)\<close>: throws on a value that is not an object or has the wrong type at the key.\<close>

definition js_value :: "'j json_lib \<Rightarrow> ('j \<Rightarrow> string + 'a) \<Rightarrow> 'j \<Rightarrow> string \<Rightarrow> 'a \<Rightarrow> 'a result" where
  "js_value L get j key dflt =
     (if is_object L j then
        (case js_find L j key of
           None \<Rightarrow> Inr dflt
         | Some v \<Rightarrow> (case get v of Inl e \<Rightarrow> Inl (Json_error e) | Inr x \<Rightarrow> Inr x))
      else Inl (Json_error (js_value_error L j)))"

text \<open>A 32-bit \<open>int\<close>.\<close>

definition int32 :: "int \<Rightarrow> bool" where
  "int32 i \<longleftrightarrow> - (2 ^ 31) \<le> i \<and> i < 2 ^ 31"

section \<open>Documented behaviour\<close>

named_theorems json_laws

locale json_library =
  fixes L :: "'j json_lib"
  assumes type_of:
      "js_type L (js_of_bool L b) = V_boolean"
      "js_type L (js_of_int L i) = V_number_integer"
      "js_type L (js_of_u64 L u) = V_number_unsigned"
      "js_type L (js_of_double L d) = V_number_float"
      "js_type L (js_of_string L s) = V_string"
      "js_type L (js_array L js) = V_array"
      "js_type L (js_object L kvs) = V_object"
    and get_of:
      "js_get_string L (js_of_string L s) = Inr s"
      "int32 i \<Longrightarrow> js_get_int L (js_of_int L i) = Inr i"
      "int32 i \<Longrightarrow> js_get_long L (js_of_int L i) = Inr i"
      "js_get_u64 L (js_of_u64 L u) = Inr u"
      "js_get_double L (js_of_double L d) = Inr d"
      "js_get_strings L (js_array L (map (js_of_string L) ss)) = Inr ss"
    and find_object: "js_find L (js_object L kvs) = map_of kvs"
    and find_only_object: "js_find L j key = Some v \<Longrightarrow> js_type L j = V_object"
    and elements_array: "js_elements L (js_array L js) = js"
    and get_typed:
      "js_type L j = V_string \<Longrightarrow> \<exists>s. js_get_string L j = Inr s"
      "is_number_integer L j \<Longrightarrow> \<exists>i. js_get_int L j = Inr i"
      "is_number_integer L j \<Longrightarrow> \<exists>i. js_get_long L j = Inr i"
      "is_number_integer L j \<Longrightarrow> \<exists>u. js_get_u64 L j = Inr u"
      "is_number L j \<Longrightarrow> \<exists>d. js_get_double L j = Inr d"
begin

lemmas laws = type_of get_of find_object elements_array

lemma kinds [json_laws]:
  "is_string L (js_of_string L s)" "is_boolean L (js_of_bool L b)" "is_array L (js_array L js)"
  "is_object L (js_object L kvs)" "is_number_integer L (js_of_int L i)" "is_number_integer L (js_of_u64 L u)"
  "is_number L (js_of_int L i)" "is_number L (js_of_u64 L u)" "is_number L (js_of_double L d)"
  by (simp_all add: js_kind_defs type_of)

lemma value_object: "js_value L get (js_object L kvs) key dflt =
    (case map_of kvs key of
       None \<Rightarrow> Inr dflt
     | Some v \<Rightarrow> (case get v of Inl e \<Rightarrow> Inl (Json_error e) | Inr x \<Rightarrow> Inr x))"
  by (simp add: js_value_def kinds find_object)

end

section \<open>JSON values\<close>

datatype json =
    J_null | J_bool bool | J_int int | J_uint u64 | J_float fpval | J_string string
  | J_array "json list" | J_object "(string \<times> json) list"

fun json_type :: "json \<Rightarrow> value_t" where
  "json_type J_null = V_null"
| "json_type (J_bool _) = V_boolean"
| "json_type (J_int _) = V_number_integer"
| "json_type (J_uint _) = V_number_unsigned"
| "json_type (J_float _) = V_number_float"
| "json_type (J_string _) = V_string"
| "json_type (J_array _) = V_array"
| "json_type (J_object _) = V_object"

fun json_type_name :: "json \<Rightarrow> string" where
  "json_type_name J_null = ''null''"
| "json_type_name (J_bool _) = ''boolean''"
| "json_type_name (J_string _) = ''string''"
| "json_type_name (J_array _) = ''array''"
| "json_type_name (J_object _) = ''object''"
| "json_type_name _ = ''number''"

definition type_error :: "string \<Rightarrow> json \<Rightarrow> string" where
  "type_error want j = ''[json.exception.type_error.302] type must be '' @ want @ '', but is '' @ json_type_name j"

text \<open>\<open>static_cast\<close> to an integer of \<open>w\<close> value bits.\<close>

definition wrap_signed :: "nat \<Rightarrow> int \<Rightarrow> int" where
  "wrap_signed w i = (i + 2 ^ w) mod 2 ^ (w + 1) - 2 ^ w"

fun json_integer :: "json \<Rightarrow> int option" where
  "json_integer (J_int i) = Some i"
| "json_integer (J_uint u) = Some (uint u)"
| "json_integer (J_float (Num x)) = Some (if 0 \<le> x then \<lfloor>x\<rfloor> else \<lceil>x\<rceil>)"
| "json_integer (J_float _) = Some 0"
| "json_integer (J_bool b) = Some (if b then 1 else 0)"
| "json_integer _ = None"

definition json_get_signed :: "nat \<Rightarrow> json \<Rightarrow> string + int" where
  "json_get_signed w j =
     (case json_integer j of Some i \<Rightarrow> Inr (wrap_signed w i) | None \<Rightarrow> Inl (type_error ''number'' j))"

definition json_get_u64 :: "json \<Rightarrow> string + u64" where
  "json_get_u64 j =
     (case (if json_type j = V_boolean then None else json_integer j) of
        Some i \<Rightarrow> Inr (word_of_int i)
      | None \<Rightarrow> Inl (type_error ''number'' j))"

fun json_get_double :: "json \<Rightarrow> string + fpval" where
  "json_get_double (J_float d) = Inr d"
| "json_get_double (J_int i) = Inr (Num (rnd64 (of_int i)))"
| "json_get_double (J_uint u) = Inr (Num (rnd64 (of_int (uint u))))"
| "json_get_double j = Inl (type_error ''number'' j)"

fun json_get_string :: "json \<Rightarrow> string + string" where
  "json_get_string (J_string s) = Inr s"
| "json_get_string j = Inl (type_error ''string'' j)"

fun json_strings :: "json list \<Rightarrow> string + string list" where
  "json_strings [] = Inr []"
| "json_strings (j # js) =
     (case json_get_string j of
        Inl e \<Rightarrow> Inl e
      | Inr s \<Rightarrow> (case json_strings js of Inl e \<Rightarrow> Inl e | Inr ss \<Rightarrow> Inr (s # ss)))"

fun json_get_strings :: "json \<Rightarrow> string + string list" where
  "json_get_strings (J_array js) = json_strings js"
| "json_get_strings j = Inl (type_error ''array'' j)"

fun json_find :: "json \<Rightarrow> string \<Rightarrow> json option" where
  "json_find (J_object kvs) key = map_of kvs key"
| "json_find _ key = None"

fun json_elements :: "json \<Rightarrow> json list" where
  "json_elements (J_array js) = js"
| "json_elements (J_object kvs) = map snd kvs"
| "json_elements J_null = []"
| "json_elements j = [j]"

definition json_values :: "json json_lib" where
  "json_values =
     \<lparr>js_type = json_type, js_of_bool = J_bool, js_of_int = J_int, js_of_u64 = J_uint, js_of_double = J_float,
      js_of_string = J_string, js_array = J_array, js_object = J_object, js_find = json_find,
      js_elements = json_elements, js_get_string = json_get_string, js_get_int = json_get_signed 31,
      js_get_long = json_get_signed 63, js_get_u64 = json_get_u64, js_get_double = json_get_double,
      js_get_strings = json_get_strings,
      js_value_error = (\<lambda>j. ''[json.exception.type_error.306] cannot use value() with '' @ json_type_name j)\<rparr>"

lemma wrap_signed_id: "- (2 ^ w) \<le> i \<Longrightarrow> i < 2 ^ w \<Longrightarrow> wrap_signed w i = i"
  by (simp add: wrap_signed_def)

lemma json_strings_map: "json_strings (map J_string ss) = Inr ss"
  by (induction ss) auto

lemma json_integer_kind:
  "json_type j = V_number_integer \<or> json_type j = V_number_unsigned \<Longrightarrow> \<exists>i. json_integer j = Some i"
  by (cases j) auto

interpretation json_val: json_library json_values
proof
  show "js_find json_values (js_object json_values kvs) = map_of kvs" for kvs
    by (rule ext) (simp add: json_values_def)
  show "js_find json_values j key = Some v \<Longrightarrow> js_type json_values j = V_object" for j key v
    by (cases j) (simp_all add: json_values_def)
  show "js_type json_values j = V_string \<Longrightarrow> \<exists>s. js_get_string json_values j = Inr s" for j
    by (cases j) (simp_all add: json_values_def)
  show "is_number json_values j \<Longrightarrow> \<exists>d. js_get_double json_values j = Inr d" for j
    by (cases j) (simp_all add: json_values_def js_kind_defs)
  show "\<exists>i. js_get_int json_values j = Inr i" "\<exists>i. js_get_long json_values j = Inr i"
    "\<exists>u. js_get_u64 json_values j = Inr u" if "is_number_integer json_values j" for j
    using that json_integer_kind [of j]
    by (auto simp: json_values_def js_kind_defs json_get_signed_def json_get_u64_def)
qed (simp_all add: json_values_def json_get_signed_def json_get_u64_def json_strings_map int32_def wrap_signed_id)

end
