(* ===== verification/Result.thy ===== *)
theory Result
  imports Json Metric Mersenne
begin

text \<open>
  \<^verbatim>\<open>engine/src/result.cpp\<close>: the result document (machine, results, summaries, envelope), its
  conversion to and from JSON, the run identifier and the time stamp. The JSON library is the
  argument \<open>L\<close>; the \<open>params\<close> of a result are a JSON value of its type.
\<close>

section \<open>The document\<close>

record MachineInfo =
  m_id :: string
  m_hostname :: string
  m_cpu_model :: string
  m_physical_cores :: int
  m_logical_cpus :: int
  m_l1d_kb :: int
  m_l2_kb :: int
  m_l3_kb :: int
  m_memory_bytes :: u64
  m_os :: string
  m_kernel :: string
  m_compiler :: string
  m_compiler_flags :: string
  m_engine_version :: string
  m_engine_git_sha :: string
  m_virtualized :: string

record 'j Result =
  r_workload :: Workload
  r_thread_count :: int
  r_working_set_bytes :: u64
  r_metric :: Metric
  r_value :: fpval
  r_trial :: int
  r_timestamp :: string
  r_duration_ns :: u64
  r_params :: 'j

record Summary =
  s_workload :: Workload
  s_metric :: Metric
  s_thread_count :: int
  s_working_set_bytes :: u64
  s_n :: int
  s_mean :: fpval
  s_median :: fpval
  s_stddev :: fpval
  s_cov :: fpval
  s_min :: fpval
  s_p5 :: fpval
  s_p95 :: fpval
  s_max :: fpval
  s_mad :: fpval
  s_late_trials :: int
  s_canary_attempts :: int
  s_clock_call_ns_start :: fpval
  s_clock_call_ns_end :: fpval

record 'j RunEnvelope =
  e_schema_version :: int
  e_run_id :: string
  e_started_at :: string
  e_finished_at :: string
  e_machine :: MachineInfo
  e_argv :: "string list"
  e_results :: "'j Result list"
  e_summary :: "Summary list"

section \<open>To JSON\<close>

definition machine_to_json :: "'j json_lib \<Rightarrow> MachineInfo \<Rightarrow> 'j" where
  "machine_to_json L m = js_object L
     [(''id'', js_of_string L (m_id m)),
      (''hostname'', js_of_string L (m_hostname m)),
      (''cpu_model'', js_of_string L (m_cpu_model m)),
      (''physical_cores'', js_of_int L (m_physical_cores m)),
      (''logical_cpus'', js_of_int L (m_logical_cpus m)),
      (''l1d_kb'', js_of_int L (m_l1d_kb m)),
      (''l2_kb'', js_of_int L (m_l2_kb m)),
      (''l3_kb'', js_of_int L (m_l3_kb m)),
      (''memory_bytes'', js_of_u64 L (m_memory_bytes m)),
      (''os'', js_of_string L (m_os m)),
      (''kernel'', js_of_string L (m_kernel m)),
      (''compiler'', js_of_string L (m_compiler m)),
      (''compiler_flags'', js_of_string L (m_compiler_flags m)),
      (''engine_version'', js_of_string L (m_engine_version m)),
      (''engine_git_sha'', js_of_string L (m_engine_git_sha m)),
      (''virtualized'', js_of_string L (m_virtualized m))]"

definition result_to_json :: "'j json_lib \<Rightarrow> 'j Result \<Rightarrow> 'j" where
  "result_to_json L r = js_object L
     [(''workload'', js_of_string L (workload_to_string (r_workload r))),
      (''thread_count'', js_of_int L (r_thread_count r)),
      (''working_set_bytes'', js_of_u64 L (r_working_set_bytes r)),
      (''metric'', js_of_string L (metric_to_string (r_metric r))),
      (''value'', js_of_double L (r_value r)),
      (''unit'', js_of_string L (unit_to_string (unit_of (r_metric r)))),
      (''trial'', js_of_int L (r_trial r)),
      (''timestamp'', js_of_string L (r_timestamp r)),
      (''duration_ns'', js_of_u64 L (r_duration_ns r)),
      (''params'', r_params r)]"

definition summary_to_json :: "'j json_lib \<Rightarrow> Summary \<Rightarrow> 'j" where
  "summary_to_json L s = js_object L
     [(''workload'', js_of_string L (workload_to_string (s_workload s))),
      (''metric'', js_of_string L (metric_to_string (s_metric s))),
      (''thread_count'', js_of_int L (s_thread_count s)),
      (''working_set_bytes'', js_of_u64 L (s_working_set_bytes s)),
      (''n'', js_of_int L (s_n s)),
      (''mean'', js_of_double L (s_mean s)),
      (''median'', js_of_double L (s_median s)),
      (''stddev'', js_of_double L (s_stddev s)),
      (''cov'', js_of_double L (s_cov s)),
      (''min'', js_of_double L (s_min s)),
      (''p5'', js_of_double L (s_p5 s)),
      (''p95'', js_of_double L (s_p95 s)),
      (''max'', js_of_double L (s_max s)),
      (''mad'', js_of_double L (s_mad s)),
      (''late_trials'', js_of_int L (s_late_trials s)),
      (''canary_attempts'', js_of_int L (s_canary_attempts s)),
      (''clock_call_ns_start'', js_of_double L (s_clock_call_ns_start s)),
      (''clock_call_ns_end'', js_of_double L (s_clock_call_ns_end s))]"

definition run_to_json :: "'j json_lib \<Rightarrow> 'j RunEnvelope \<Rightarrow> 'j" where
  "run_to_json L run = js_object L
     [(''schema_version'', js_of_int L (e_schema_version run)),
      (''run_id'', js_of_string L (e_run_id run)),
      (''started_at'', js_of_string L (e_started_at run)),
      (''finished_at'', js_of_string L (e_finished_at run)),
      (''machine'', machine_to_json L (e_machine run)),
      (''argv'', js_array L (map (js_of_string L) (e_argv run))),
      (''results'', js_array L (map (result_to_json L) (e_results run))),
      (''summary'', js_array L (map (summary_to_json L) (e_summary run)))]"

section \<open>From JSON\<close>

definition get_required :: "'j json_lib \<Rightarrow> ('j \<Rightarrow> string + 'a) \<Rightarrow> 'j \<Rightarrow> string \<Rightarrow> string \<Rightarrow> 'a result" where
  "get_required L get j key where' =
     (case js_find L j key of
        None \<Rightarrow> Inl (Runtime_error (where' @ '': missing '' @ quoted key))
      | Some v \<Rightarrow>
          (case get v of
             Inl e \<Rightarrow> Inl (Runtime_error (where' @ ''.'' @ key @ '': '' @ e))
           | Inr x \<Rightarrow> Inr x))"

definition machine_from_json :: "'j json_lib \<Rightarrow> 'j \<Rightarrow> MachineInfo result" where
  "machine_from_json L j =
     (let str = (\<lambda>key. get_required L (js_get_string L) j key ''machine'');
          int = (\<lambda>key. get_required L (js_get_int L) j key ''machine'') in
      rbind (str ''id'') (\<lambda>id.
      rbind (str ''hostname'') (\<lambda>hostname.
      rbind (str ''cpu_model'') (\<lambda>cpu_model.
      rbind (int ''physical_cores'') (\<lambda>physical_cores.
      rbind (int ''logical_cpus'') (\<lambda>logical_cpus.
      rbind (int ''l1d_kb'') (\<lambda>l1d_kb.
      rbind (int ''l2_kb'') (\<lambda>l2_kb.
      rbind (int ''l3_kb'') (\<lambda>l3_kb.
      rbind (get_required L (js_get_u64 L) j ''memory_bytes'' ''machine'') (\<lambda>memory_bytes.
      rbind (str ''os'') (\<lambda>os.
      rbind (str ''kernel'') (\<lambda>kernel.
      rbind (str ''compiler'') (\<lambda>compiler.
      rbind (str ''compiler_flags'') (\<lambda>compiler_flags.
      rbind (str ''engine_version'') (\<lambda>engine_version.
      rbind (str ''engine_git_sha'') (\<lambda>engine_git_sha.
      rbind (js_value L (js_get_string L) j ''virtualized'' []) (\<lambda>virtualized.
        Inr \<lparr>m_id = id, m_hostname = hostname, m_cpu_model = cpu_model, m_physical_cores = physical_cores,
             m_logical_cpus = logical_cpus, m_l1d_kb = l1d_kb, m_l2_kb = l2_kb, m_l3_kb = l3_kb,
             m_memory_bytes = memory_bytes, m_os = os, m_kernel = kernel, m_compiler = compiler,
             m_compiler_flags = compiler_flags, m_engine_version = engine_version,
             m_engine_git_sha = engine_git_sha, m_virtualized = virtualized\<rparr>)))))))))))))))))"

definition parsed :: "string \<Rightarrow> 'a option \<Rightarrow> 'a result" where
  "parsed msg x = (case x of None \<Rightarrow> Inl (Runtime_error msg) | Some y \<Rightarrow> Inr y)"

definition result_from_json :: "'j json_lib \<Rightarrow> 'j \<Rightarrow> 'j Result result" where
  "result_from_json L j =
     (let str = (\<lambda>key. get_required L (js_get_string L) j key ''result'');
          int = (\<lambda>key. get_required L (js_get_int L) j key ''result'');
          u64 = (\<lambda>key. get_required L (js_get_u64 L) j key ''result'') in
      rbind (str ''workload'') (\<lambda>wl.
      rbind (parsed ''result.workload: unknown value'' (parse_workload wl)) (\<lambda>workload.
      rbind (int ''thread_count'') (\<lambda>thread_count.
      rbind (u64 ''working_set_bytes'') (\<lambda>working_set_bytes.
      rbind (str ''metric'') (\<lambda>me.
      rbind (parsed ''result.metric: unknown value'' (parse_metric me)) (\<lambda>metric.
      rbind (get_required L (js_get_double L) j ''value'' ''result'') (\<lambda>value.
      rbind (str ''unit'') (\<lambda>un.
        if parse_unit un \<noteq> Some (unit_of metric) then
          Inl (Runtime_error (''result.unit: expected '' @ quoted (unit_to_string (unit_of metric))
            @ '' for metric '' @ quoted (metric_to_string metric)))
        else
      rbind (int ''trial'') (\<lambda>trial.
      rbind (str ''timestamp'') (\<lambda>timestamp.
      rbind (u64 ''duration_ns'') (\<lambda>duration_ns.
      rbind (js_value L Inr j ''params'' (js_object L [])) (\<lambda>params.
        Inr \<lparr>r_workload = workload, r_thread_count = thread_count, r_working_set_bytes = working_set_bytes,
             r_metric = metric, r_value = value, r_trial = trial, r_timestamp = timestamp,
             r_duration_ns = duration_ns, r_params = params\<rparr>)))))))))))))"

definition summary_from_json :: "'j json_lib \<Rightarrow> 'j \<Rightarrow> Summary result" where
  "summary_from_json L j =
     (let str = (\<lambda>key. get_required L (js_get_string L) j key ''summary'');
          int = (\<lambda>key. get_required L (js_get_int L) j key ''summary'');
          dbl = (\<lambda>key. get_required L (js_get_double L) j key ''summary'') in
      rbind (str ''workload'') (\<lambda>wl.
      rbind (str ''metric'') (\<lambda>me.
      case (parse_workload wl, parse_metric me) of
        (Some workload, Some metric) \<Rightarrow>
          rbind (int ''thread_count'') (\<lambda>thread_count.
          rbind (get_required L (js_get_u64 L) j ''working_set_bytes'' ''summary'') (\<lambda>working_set_bytes.
          rbind (int ''n'') (\<lambda>n.
          rbind (dbl ''mean'') (\<lambda>mean.
          rbind (dbl ''median'') (\<lambda>median.
          rbind (dbl ''stddev'') (\<lambda>stddev.
          rbind (dbl ''cov'') (\<lambda>cov.
          rbind (dbl ''min'') (\<lambda>min.
          rbind (dbl ''p5'') (\<lambda>p5.
          rbind (dbl ''p95'') (\<lambda>p95.
          rbind (dbl ''max'') (\<lambda>max.
          rbind (js_value L (js_get_double L) j ''mad'' (Num 0)) (\<lambda>mad.
          rbind (js_value L (js_get_int L) j ''late_trials'' 0) (\<lambda>late_trials.
          rbind (js_value L (js_get_int L) j ''canary_attempts'' 1) (\<lambda>canary_attempts.
          rbind (js_value L (js_get_double L) j ''clock_call_ns_start'' (Num 0)) (\<lambda>clock_start.
          rbind (js_value L (js_get_double L) j ''clock_call_ns_end'' (Num 0)) (\<lambda>clock_end.
            Inr \<lparr>s_workload = workload, s_metric = metric, s_thread_count = thread_count,
                 s_working_set_bytes = working_set_bytes, s_n = n, s_mean = mean, s_median = median,
                 s_stddev = stddev, s_cov = cov, s_min = min, s_p5 = p5, s_p95 = p95, s_max = max,
                 s_mad = mad, s_late_trials = late_trials, s_canary_attempts = canary_attempts,
                 s_clock_call_ns_start = clock_start, s_clock_call_ns_end = clock_end\<rparr>))))))))))))))))
      | _ \<Rightarrow> Inl (Runtime_error ''summary: unknown workload/metric''))))"

definition run_from_json :: "'j json_lib \<Rightarrow> 'j \<Rightarrow> 'j RunEnvelope result" where
  "run_from_json L j =
     (let str = (\<lambda>key. get_required L (js_get_string L) j key ''run'') in
      rbind (get_required L (js_get_int L) j ''schema_version'' ''run'') (\<lambda>schema_version.
        if schema_version \<noteq> 1 then
          Inl (Runtime_error (''run.schema_version: unsupported '' @ int_to_dec schema_version))
        else
      rbind (str ''run_id'') (\<lambda>run_id.
      rbind (str ''started_at'') (\<lambda>started_at.
      rbind (str ''finished_at'') (\<lambda>finished_at.
      rbind (get_required L Inr j ''machine'' ''run'') (\<lambda>mj.
      rbind (machine_from_json L mj) (\<lambda>machine.
      rbind (get_required L (js_get_strings L) j ''argv'' ''run'') (\<lambda>argv.
      rbind (get_required L Inr j ''results'' ''run'') (\<lambda>rj.
      rbind (rmap (result_from_json L) (js_elements L rj)) (\<lambda>results.
      rbind (case js_find L j ''summary'' of
               None \<Rightarrow> Inr []
             | Some sj \<Rightarrow> rmap (summary_from_json L) (js_elements L sj)) (\<lambda>summary.
        Inr \<lparr>e_schema_version = schema_version, e_run_id = run_id, e_started_at = started_at,
             e_finished_at = finished_at, e_machine = machine, e_argv = argv, e_results = results,
             e_summary = summary\<rparr>)))))))))))"

section \<open>Run identifier and time stamp\<close>

text \<open>\<open>{:0<w>x}\<close>: hexadecimal, zero padded to \<open>w\<close> digits; and decimal likewise.\<close>

definition pad_left :: "nat \<Rightarrow> string \<Rightarrow> string" where
  "pad_left w s = replicate (w - length s) (CHR ''0'') @ s"

definition hex_padded :: "nat \<Rightarrow> u64 \<Rightarrow> string" where
  "hex_padded w x = pad_left w (format_nat 16 (unat x))"

definition dec_padded :: "nat \<Rightarrow> nat \<Rightarrow> string" where
  "dec_padded w n = pad_left w (to_dec n)"

definition run_id_of :: "u64 \<Rightarrow> u64 \<Rightarrow> string" where
  "run_id_of rnd_hi rnd_lo =
     (let hi = (rnd_hi AND 0xFFFFFFFFFFFF0FFF) OR 0x4000;
          lo = (rnd_lo AND 0x3FFFFFFFFFFFFFFF) OR 0x8000000000000000
      in hex_padded 8 (drop_bit 32 hi) @ ''-'' @ hex_padded 4 (drop_bit 16 hi AND 0xFFFF) @ ''-''
         @ hex_padded 4 (hi AND 0xFFFF) @ ''-'' @ hex_padded 4 (drop_bit 48 lo) @ ''-''
         @ hex_padded 12 (lo AND 0xFFFFFFFFFFFF))"

text \<open>The generator is seeded once per thread; \<open>k\<close> identifiers have been drawn from it before.\<close>

definition new_run_id :: "u64 \<Rightarrow> nat \<Rightarrow> string" where
  "new_run_id seed k = run_id_of (mt19937_64 seed (2 * k)) (mt19937_64 seed (2 * k + 1))"

text \<open>
  The calendar of \<open>std::chrono\<close>: the civil date of a number of days since 1970-01-01, on the
  400-year cycle of the proleptic Gregorian calendar with years starting in March.
\<close>

definition civil_from_days :: "nat \<Rightarrow> nat \<times> nat \<times> nat" where
  "civil_from_days days =
     (let z = days + 719468;
          era = z div 146097; doe = z mod 146097;
          yoe = (doe - doe div 1460 + doe div 36524 - doe div 146096) div 365;
          doy = doe - (365 * yoe + yoe div 4 - yoe div 100);
          mp = (5 * doy + 2) div 153;
          d = doy - (153 * mp + 2) div 5 + 1;
          m = (if mp < 10 then mp + 3 else mp - 9);
          y = yoe + era * 400 + (if m \<le> 2 then 1 else 0)
      in (y, m, d))"

text \<open>\<open>std::format("{:%FT%T}Z", t)\<close> of a time \<open>us\<close> in whole microseconds since the epoch.\<close>

definition utc_rfc3339 :: "nat \<Rightarrow> string" where
  "utc_rfc3339 us =
     (let secs = us div 1000000; (y, m, d) = civil_from_days (secs div 86400); t = secs mod 86400 in
      dec_padded 4 y @ ''-'' @ dec_padded 2 m @ ''-'' @ dec_padded 2 d @ ''T''
      @ dec_padded 2 (t div 3600) @ '':'' @ dec_padded 2 (t div 60 mod 60) @ '':'' @ dec_padded 2 (t mod 60)
      @ ''.'' @ dec_padded 6 (us mod 1000000) @ ''Z'')"

text \<open>\<open>ns\<close> is the reading of the system clock, in nanoseconds since the epoch.\<close>

definition utc_now_rfc3339 :: "nat \<Rightarrow> string" where
  "utc_now_rfc3339 ns = utc_rfc3339 (ns div 1000)"

section \<open>Round trip\<close>

text \<open>The \<open>int\<close> members hold 32-bit values, and the envelope carries the supported version.\<close>

definition machine_ok :: "MachineInfo \<Rightarrow> bool" where
  "machine_ok m \<longleftrightarrow>
     list_all int32 [m_physical_cores m, m_logical_cpus m, m_l1d_kb m, m_l2_kb m, m_l3_kb m]"

definition result_ok :: "'j Result \<Rightarrow> bool" where
  "result_ok r \<longleftrightarrow> int32 (r_thread_count r) \<and> int32 (r_trial r)"

definition summary_ok :: "Summary \<Rightarrow> bool" where
  "summary_ok s \<longleftrightarrow>
     int32 (s_thread_count s) \<and> int32 (s_n s) \<and> int32 (s_late_trials s) \<and> int32 (s_canary_attempts s)"

definition run_ok :: "'j RunEnvelope \<Rightarrow> bool" where
  "run_ok run \<longleftrightarrow> e_schema_version run = 1 \<and> machine_ok (e_machine run)
     \<and> list_all result_ok (e_results run) \<and> list_all summary_ok (e_summary run)"

lemma int32_1 [simp]: "int32 1" and int32_0 [simp]: "int32 0"
  by (simp_all add: int32_def)

lemma parsed_Some [simp]: "parsed msg (Some x) = Inr x"
  by (simp add: parsed_def)

context json_library
begin

lemma get_required_object: "get_required L get (js_object L kvs) key w =
    (case map_of kvs key of
       None \<Rightarrow> Inl (Runtime_error (w @ '': missing '' @ quoted key))
     | Some v \<Rightarrow> (case get v of Inl e \<Rightarrow> Inl (Runtime_error (w @ ''.'' @ key @ '': '' @ e)) | Inr x \<Rightarrow> Inr x))"
  by (simp add: get_required_def find_object)

lemmas from_object = get_required_object value_object get_of Let_def

lemma machine_roundtrip: "machine_ok m \<Longrightarrow> machine_from_json L (machine_to_json L m) = Inr m"
  by (simp add: machine_from_json_def machine_to_json_def from_object machine_ok_def)

lemma result_roundtrip: "result_ok r \<Longrightarrow> result_from_json L (result_to_json L r) = Inr r"
  by (simp add: result_from_json_def result_to_json_def from_object result_ok_def
      parse_workload_to_string parse_metric_to_string parse_unit_to_string)

lemma summary_roundtrip: "summary_ok s \<Longrightarrow> summary_from_json L (summary_to_json L s) = Inr s"
  by (simp add: summary_from_json_def summary_to_json_def from_object summary_ok_def
      parse_workload_to_string parse_metric_to_string)

lemma run_roundtrip:
  assumes "run_ok run"
  shows "run_from_json L (run_to_json L run) = Inr run"
proof -
  have "rmap (result_from_json L) (map (result_to_json L) (e_results run)) = Inr (e_results run)"
    using assms rmap_Inr_map [of "e_results run" "result_from_json L" "result_to_json L" "\<lambda>r. r"]
    by (simp add: run_ok_def list_all_iff result_roundtrip)
  moreover have "rmap (summary_from_json L) (map (summary_to_json L) (e_summary run)) = Inr (e_summary run)"
    using assms rmap_Inr_map [of "e_summary run" "summary_from_json L" "summary_to_json L" "\<lambda>s. s"]
    by (simp add: run_ok_def list_all_iff summary_roundtrip)
  ultimately show ?thesis
    using assms by (simp add: run_from_json_def run_to_json_def from_object elements_array find_object
        machine_roundtrip run_ok_def)
qed

end

text \<open>
  (C26) The result document survives JSON: for every library with the documented behaviour, and
  every envelope of the supported schema version whose \<open>int\<close> members hold 32-bit values,
  reading back the JSON written for it gives the same envelope, with the machine, every result
  with its open-ended parameters, and every summary.
\<close>

theorem run_json_roundtrip:
  assumes "json_library L" "run_ok run"
  shows "run_from_json L (run_to_json L run) = Inr run"
  using assms by (rule json_library.run_roundtrip)

definition example_machine :: MachineInfo where
  "example_machine = \<lparr>m_id = replicate 32 (CHR ''a''), m_hostname = ''h'', m_cpu_model = ''c'', m_physical_cores = 4,
     m_logical_cpus = 8, m_l1d_kb = 48, m_l2_kb = 2048, m_l3_kb = 32768, m_memory_bytes = 17179869184,
     m_os = ''o'', m_kernel = ''k'', m_compiler = ''g++'', m_compiler_flags = ''-O3'', m_engine_version = ''1'',
     m_engine_git_sha = ''0'', m_virtualized = ''none''\<rparr>"

definition example_run :: "json RunEnvelope" where
  "example_run = \<lparr>e_schema_version = 1, e_run_id = run_id_of 1 2, e_started_at = utc_rfc3339 1700000000000000,
     e_finished_at = utc_rfc3339 1700000001000000, e_machine = example_machine, e_argv = [''bench'', ''run''],
     e_results = [\<lparr>r_workload = W_cpu_int, r_thread_count = 2, r_working_set_bytes = 0, r_metric = M_cpu_int_ops,
       r_value = Num 5, r_trial = 0, r_timestamp = utc_rfc3339 1700000000500000, r_duration_ns = 1000,
       r_params = J_object [(''cold'', J_string ''none'')]\<rparr>],
     e_summary = [\<lparr>s_workload = W_cpu_int, s_metric = M_cpu_int_ops, s_thread_count = 2, s_working_set_bytes = 0,
       s_n = 1, s_mean = Num 5, s_median = Num 5, s_stddev = Num 0, s_cov = Num 0, s_min = Num 5, s_p5 = Num 5,
       s_p95 = Num 5, s_max = Num 5, s_mad = Num 0, s_late_trials = 0, s_canary_attempts = 1,
       s_clock_call_ns_start = Num 20, s_clock_call_ns_end = Num 21\<rparr>]\<rparr>"

lemma example_run_ok: "run_ok example_run"
  by (simp add: run_ok_def example_run_def machine_ok_def example_machine_def result_ok_def summary_ok_def int32_def)

theorem run_json_roundtrip_witness: "run_from_json json_values (run_to_json json_values example_run) = Inr example_run"
  by (rule run_json_roundtrip [OF json_val.json_library_axioms example_run_ok])

end
