(* ===== verification/Validate.thy ===== *)
theory Validate
  imports Result Sha256
begin

text \<open>
  \<^verbatim>\<open>engine/src/validate.cpp\<close>: structural validation of a run document. A check returns the list
  of the problems it appends; a document is accepted when there are none. The regular
  expressions are lists of character classes (\<open>std::regex_match\<close> matches the whole string).
\<close>

section \<open>Formats\<close>

definition hex_char :: "char \<Rightarrow> bool" where
  "hex_char c \<longleftrightarrow> c \<in> set ''0123456789abcdef''"

definition dec_char :: "char \<Rightarrow> bool" where
  "dec_char c \<longleftrightarrow> c \<in> set ''0123456789''"

abbreviation matches :: "(char \<Rightarrow> bool) list \<Rightarrow> string \<Rightarrow> bool" where
  "matches \<equiv> list_all2 (\<lambda>p c. p c)"

definition uuid_pattern :: "(char \<Rightarrow> bool) list" where
  "uuid_pattern =
     replicate 8 hex_char @ [(=) (CHR ''-'')] @ replicate 4 hex_char @ [(=) (CHR ''-'')]
     @ [\<lambda>c. c \<in> set ''12345678''] @ replicate 3 hex_char @ [(=) (CHR ''-'')]
     @ [\<lambda>c. c \<in> set ''89ab''] @ replicate 3 hex_char @ [(=) (CHR ''-'')] @ replicate 12 hex_char"

definition kUuid :: "string \<Rightarrow> bool" where
  "kUuid s \<longleftrightarrow> matches uuid_pattern s"

definition timestamp_pattern :: "(char \<Rightarrow> bool) list" where
  "timestamp_pattern =
     replicate 4 dec_char @ [(=) (CHR ''-'')] @ replicate 2 dec_char @ [(=) (CHR ''-'')] @ replicate 2 dec_char
     @ [(=) (CHR ''T'')] @ replicate 2 dec_char @ [(=) (CHR '':'')] @ replicate 2 dec_char @ [(=) (CHR '':'')]
     @ replicate 2 dec_char"

definition kTimestamp :: "string \<Rightarrow> bool" where
  "kTimestamp s \<longleftrightarrow>
     (\<exists>n\<in>set [0..<10]. matches (timestamp_pattern
        @ (if n = 0 then [] else (=) (CHR ''.'') # replicate n dec_char) @ [(=) (CHR ''Z'')]) s)"

definition kMachineId :: "string \<Rightarrow> bool" where
  "kMachineId s \<longleftrightarrow> matches (replicate 32 hex_char) s"

section \<open>Checks\<close>

definition require :: "'j json_lib \<Rightarrow> 'j \<Rightarrow> string \<Rightarrow> ('j \<Rightarrow> bool) \<Rightarrow> string \<Rightarrow> string \<Rightarrow> string list" where
  "require L j w pred type_name key =
     (case js_find L j key of
        None \<Rightarrow> [w @ '': missing required '' @ quoted key]
      | Some v \<Rightarrow> if pred v then [] else [w @ ''.'' @ key @ '': expected '' @ type_name])"

text \<open>
  \<open>if (j.contains(key) && pred(j[key]) && ...)\<close>: a check on the value at a key that has the right
  kind. The conversion cannot fail then (law \<open>get_typed\<close>), so its error branch is never taken.
\<close>

definition check_key ::
  "'j json_lib \<Rightarrow> 'j \<Rightarrow> ('j \<Rightarrow> bool) \<Rightarrow> ('j \<Rightarrow> string + 'a) \<Rightarrow> string \<Rightarrow> ('a \<Rightarrow> string list) \<Rightarrow> string list" where
  "check_key L j pred get key f =
     (case js_find L j key of
        None \<Rightarrow> []
      | Some v \<Rightarrow> if pred v then (case get v of Inl _ \<Rightarrow> [] | Inr x \<Rightarrow> f x) else [])"

definition unless :: "bool \<Rightarrow> string \<Rightarrow> string list" where
  "unless ok msg = (if ok then [] else [msg])"

definition check_machine :: "'j json_lib \<Rightarrow> 'j \<Rightarrow> string list" where
  "check_machine L m =
     (if \<not> is_object L m then [''machine: expected object'']
      else
        concat (map (require L m ''machine'' (is_string L) ''string'')
          [''id'', ''hostname'', ''cpu_model'', ''os'', ''kernel'', ''compiler'', ''compiler_flags'',
           ''engine_version'', ''engine_git_sha''])
        @ concat (map (require L m ''machine'' (is_number_integer L) ''integer'')
          [''physical_cores'', ''logical_cpus'', ''l1d_kb'', ''l2_kb'', ''l3_kb'', ''memory_bytes''])
        @ check_key L m (is_string L) (js_get_string L) ''id''
            (\<lambda>id. unless (kMachineId id) ''machine.id: must be 32 lowercase hex chars''))"

text \<open>The metric a document names, when it names one.\<close>

definition metric_of :: "'j json_lib \<Rightarrow> 'j \<Rightarrow> Metric option" where
  "metric_of L j =
     (case js_find L j ''metric'' of
        None \<Rightarrow> None
      | Some v \<Rightarrow>
          if is_string L v then (case js_get_string L v of Inl _ \<Rightarrow> None | Inr s \<Rightarrow> parse_metric s) else None)"

definition check_metric :: "'j json_lib \<Rightarrow> 'j \<Rightarrow> string \<Rightarrow> string list" where
  "check_metric L j w =
     check_key L j (is_string L) (js_get_string L) ''metric''
       (\<lambda>s. unless (parse_metric s \<noteq> None) (w @ ''.metric: unknown '' @ quoted s))"

definition check_workload :: "'j json_lib \<Rightarrow> 'j \<Rightarrow> string \<Rightarrow> string list" where
  "check_workload L j w =
     check_key L j (is_string L) (js_get_string L) ''workload''
       (\<lambda>s. case parse_workload s of
          None \<Rightarrow> [w @ ''.workload: unknown '' @ quoted s]
        | Some wl \<Rightarrow>
            (case metric_of L j of
               None \<Rightarrow> []
             | Some m \<Rightarrow> unless (wl = workload_of m) (w @ ''.workload: '' @ quoted (workload_to_string (workload_of m))
                 @ '' expected for metric '' @ quoted (metric_to_string m))))"

definition check_unit :: "'j json_lib \<Rightarrow> 'j \<Rightarrow> string \<Rightarrow> string list" where
  "check_unit L j w =
     check_key L j (is_string L) (js_get_string L) ''unit''
       (\<lambda>s. case parse_unit s of
          None \<Rightarrow> [w @ ''.unit: unknown '' @ quoted s]
        | Some u \<Rightarrow>
            (case metric_of L j of
               None \<Rightarrow> []
             | Some m \<Rightarrow> unless (u = unit_of m) (w @ ''.unit: '' @ quoted (unit_to_string (unit_of m))
                 @ '' expected for metric '' @ quoted (metric_to_string m))))"

definition check_cold :: "'j json_lib \<Rightarrow> 'j \<Rightarrow> string \<Rightarrow> string list" where
  "check_cold L p w =
     (case js_find L p ''cold'' of
        None \<Rightarrow> []
      | Some v \<Rightarrow>
          if \<not> is_string L v then [w @ ''.params.cold: expected string'']
          else (case js_get_string L v of
                  Inl _ \<Rightarrow> []
                | Inr c \<Rightarrow> unless (c \<in> set [''clflush'', ''evict'', ''none'', ''n/a''])
                    (w @ ''.params.cold: unknown '' @ quoted c)))"

definition check_params :: "'j json_lib \<Rightarrow> 'j \<Rightarrow> string \<Rightarrow> string list" where
  "check_params L r w =
     check_key L r (is_object L) Inr ''params''
       (\<lambda>p. check_cold L p w
          @ (case js_find L p ''huge_pages'' of
               None \<Rightarrow> []
             | Some v \<Rightarrow> unless (is_boolean L v) (w @ ''.params.huge_pages: expected boolean'')))"

definition isfinite :: "fpval \<Rightarrow> bool" where
  "isfinite d \<longleftrightarrow> (case d of Num _ \<Rightarrow> True | _ \<Rightarrow> False)"

definition check_result :: "'j json_lib \<Rightarrow> 'j \<Rightarrow> nat \<Rightarrow> string list" where
  "check_result L r i =
     (let w = ''results['' @ to_dec i @ '']'' in
      if \<not> is_object L r then [w @ '': expected object'']
      else
        concat (map (\<lambda>k. if contains L r k then [w @ '': '' @ quoted k @ '' must not appear inside a run result''] else [])
          [''schema_version'', ''run_id'', ''machine''])
        @ concat (map (require L r w (is_string L) ''string'') [''workload'', ''metric'', ''unit'', ''timestamp''])
        @ require L r w (is_number L) ''number'' ''value''
        @ concat (map (require L r w (is_number_integer L) ''integer'')
            [''thread_count'', ''working_set_bytes'', ''trial'', ''duration_ns''])
        @ check_metric L r w @ check_workload L r w @ check_unit L r w
        @ check_key L r (is_string L) (js_get_string L) ''timestamp''
            (\<lambda>s. unless (kTimestamp s) (w @ ''.timestamp: must be RFC 3339 UTC with '' @ quoted ''Z''))
        @ check_key L r (is_number_integer L) (js_get_long L) ''thread_count''
            (\<lambda>n. unless (1 \<le> n) (w @ ''.thread_count: must be >= 1''))
        @ check_key L r (is_number_integer L) (js_get_long L) ''trial''
            (\<lambda>n. unless (0 \<le> n) (w @ ''.trial: must be >= 0''))
        @ check_key L r (is_number L) (js_get_double L) ''value''
            (\<lambda>d. unless (isfinite d) (w @ ''.value: must be finite''))
        @ check_params L r w)"

text \<open>Comparison of doubles; \<open>NaN\<close> is not greater than anything.\<close>

fun fp_gt :: "fpval \<Rightarrow> fpval \<Rightarrow> bool" where
  "fp_gt (Num x) (Num y) \<longleftrightarrow> y < x"
| "fp_gt _ _ \<longleftrightarrow> False"

definition num_at :: "'j json_lib \<Rightarrow> 'j \<Rightarrow> string \<Rightarrow> fpval" where
  "num_at L s key =
     (case js_find L s key of
        None \<Rightarrow> Num 0
      | Some v \<Rightarrow>
          if is_number L v then (case js_get_double L v of Inl _ \<Rightarrow> Num 0 | Inr d \<Rightarrow> d) else Num 0)"

definition check_order :: "'j json_lib \<Rightarrow> 'j \<Rightarrow> string \<Rightarrow> string \<times> string \<Rightarrow> string list" where
  "check_order L s w = (\<lambda>(a, b).
     if contains L s a \<and> contains L s b \<and> fp_gt (num_at L s a) (num_at L s b) then [w @ '': '' @ a @ '' > '' @ b] else [])"

definition check_late :: "'j json_lib \<Rightarrow> 'j \<Rightarrow> string \<Rightarrow> string list" where
  "check_late L s w =
     check_key L s (is_number_integer L) (js_get_long L) ''late_trials''
       (\<lambda>late. if late < 0 then [w @ ''.late_trials: must be >= 0'']
          else check_key L s (is_number_integer L) (js_get_long L) ''n''
                 (\<lambda>n. unless (late \<le> n) (w @ ''.late_trials: must be <= n'')))"

definition check_summary :: "'j json_lib \<Rightarrow> 'j \<Rightarrow> nat \<Rightarrow> string list" where
  "check_summary L s i =
     (let w = ''summary['' @ to_dec i @ '']'' in
      if \<not> is_object L s then [w @ '': expected object'']
      else
        concat (map (require L s w (is_string L) ''string'') [''workload'', ''metric''])
        @ concat (map (require L s w (is_number_integer L) ''integer'') [''thread_count'', ''working_set_bytes'', ''n''])
        @ concat (map (require L s w (is_number L) ''number'')
            [''mean'', ''median'', ''stddev'', ''cov'', ''min'', ''p5'', ''p95'', ''max''])
        @ check_metric L s w @ check_workload L s w
        @ check_key L s (is_number_integer L) (js_get_long L) ''n'' (\<lambda>n. unless (1 \<le> n) (w @ ''.n: must be >= 1''))
        @ concat (map (\<lambda>k. check_key L s (is_number L) (js_get_double L) k
              (\<lambda>d. unless (\<not> fp_gt (Num 0) d) (w @ ''.'' @ k @ '': must be >= 0'')))
            [''stddev'', ''cov'', ''mad'', ''clock_call_ns_start'', ''clock_call_ns_end''])
        @ check_late L s w
        @ check_key L s (is_number_integer L) (js_get_long L) ''canary_attempts''
            (\<lambda>n. unless (1 \<le> n) (w @ ''.canary_attempts: must be >= 1''))
        @ concat (map (check_order L s w)
            [(''min'', ''max''), (''min'', ''median''), (''median'', ''max''), (''p5'', ''p95'')]))"

definition check_all :: "('j \<Rightarrow> nat \<Rightarrow> string list) \<Rightarrow> 'j list \<Rightarrow> string list" where
  "check_all f js = concat (map (\<lambda>i. f (js ! i) i) [0..<length js])"

definition validate_run :: "'j json_lib \<Rightarrow> 'j \<Rightarrow> string list" where
  "validate_run L j =
     (if \<not> is_object L j then [''run: expected object'']
      else
        require L j ''run'' (is_number_integer L) ''integer'' ''schema_version''
        @ check_key L j (is_number_integer L) (js_get_int L) ''schema_version''
            (\<lambda>v. unless (v = 1) ''run.schema_version: must be 1'')
        @ require L j ''run'' (is_string L) ''string'' ''run_id''
        @ check_key L j (is_string L) (js_get_string L) ''run_id''
            (\<lambda>s. unless (kUuid s) ''run.run_id: must be a lowercase UUID'')
        @ concat (map (\<lambda>k. require L j ''run'' (is_string L) ''string'' k
            @ check_key L j (is_string L) (js_get_string L) k
                (\<lambda>s. unless (kTimestamp s) (''run.'' @ k @ '': must be RFC 3339 UTC with '' @ quoted ''Z'')))
            [''started_at'', ''finished_at''])
        @ require L j ''run'' (is_array L) ''array'' ''argv''
        @ require L j ''run'' (is_array L) ''array'' ''results''
        @ (case js_find L j ''machine'' of
             Some m \<Rightarrow> check_machine L m
           | None \<Rightarrow> [''run: missing required '' @ quoted ''machine''])
        @ (case js_find L j ''results'' of
             Some rs \<Rightarrow> if is_array L rs then check_all (check_result L) (js_elements L rs) else []
           | None \<Rightarrow> [])
        @ (case js_find L j ''summary'' of
             Some ss \<Rightarrow>
               if is_array L ss then check_all (check_summary L) (js_elements L ss)
               else [''run.summary: expected array'']
           | None \<Rightarrow> []))"

section \<open>What the engine writes is accepted\<close>

lemma unless_Nil [simp]: "unless ok msg = [] \<longleftrightarrow> ok"
  by (simp add: unless_def)

lemma check_all_Nil: "check_all f js = [] \<longleftrightarrow> (\<forall>i<length js. f (js ! i) i = [])"
  by (auto simp: check_all_def)

text \<open>What a document says about itself, on the level of the envelope.\<close>

definition params_ok :: "'j json_lib \<Rightarrow> 'j \<Rightarrow> bool" where
  "params_ok L p \<longleftrightarrow> is_object L p \<longrightarrow>
     (\<forall>v. js_find L p ''cold'' = Some v \<longrightarrow>
        is_string L v \<and> (\<forall>c. js_get_string L v = Inr c \<longrightarrow> c \<in> {''clflush'', ''evict'', ''none'', ''n/a''}))
     \<and> (\<forall>v. js_find L p ''huge_pages'' = Some v \<longrightarrow> is_boolean L v)"

definition result_valid :: "'j json_lib \<Rightarrow> 'j Result \<Rightarrow> bool" where
  "result_valid L r \<longleftrightarrow> r_workload r = workload_of (r_metric r) \<and> kTimestamp (r_timestamp r)
     \<and> 1 \<le> r_thread_count r \<and> 0 \<le> r_trial r \<and> isfinite (r_value r) \<and> params_ok L (r_params r)"

definition summary_valid :: "Summary \<Rightarrow> bool" where
  "summary_valid s \<longleftrightarrow> s_workload s = workload_of (s_metric s) \<and> 1 \<le> s_n s
     \<and> (\<forall>d\<in>{s_stddev s, s_cov s, s_mad s, s_clock_call_ns_start s, s_clock_call_ns_end s}. \<not> fp_gt (Num 0) d)
     \<and> 0 \<le> s_late_trials s \<and> s_late_trials s \<le> s_n s \<and> 1 \<le> s_canary_attempts s
     \<and> \<not> fp_gt (s_min s) (s_max s) \<and> \<not> fp_gt (s_min s) (s_median s) \<and> \<not> fp_gt (s_median s) (s_max s)
     \<and> \<not> fp_gt (s_p5 s) (s_p95 s)"

definition run_valid :: "'j json_lib \<Rightarrow> 'j RunEnvelope \<Rightarrow> bool" where
  "run_valid L run \<longleftrightarrow> kUuid (e_run_id run) \<and> kTimestamp (e_started_at run) \<and> kTimestamp (e_finished_at run)
     \<and> kMachineId (m_id (e_machine run)) \<and> list_all (result_valid L) (e_results run)
     \<and> list_all summary_valid (e_summary run)"

context json_library
begin

lemma require_Nil: "require L j w pred ty key = [] \<longleftrightarrow> (\<exists>v. js_find L j key = Some v \<and> pred v)"
  by (simp add: require_def split: option.splits)

lemma require_object: "require L (js_object L kvs) w pred ty key = [] \<longleftrightarrow>
    (\<exists>v. map_of kvs key = Some v \<and> pred v)"
  by (simp add: require_Nil find_object)

lemma check_key_object: "check_key L (js_object L kvs) pred get key f =
    (case map_of kvs key of
       None \<Rightarrow> []
     | Some v \<Rightarrow> if pred v then (case get v of Inl _ \<Rightarrow> [] | Inr x \<Rightarrow> f x) else [])"
  by (simp add: check_key_def find_object)

lemma metric_of_object: "metric_of L (js_object L kvs) =
    (case map_of kvs ''metric'' of
       None \<Rightarrow> None
     | Some v \<Rightarrow> if is_string L v then (case js_get_string L v of Inl _ \<Rightarrow> None | Inr s \<Rightarrow> parse_metric s) else None)"
  by (simp add: metric_of_def find_object)

lemmas checks = require_object check_key_object metric_of_object kinds get_of

lemma check_machine_valid: "check_machine L (machine_to_json L m) = [] \<longleftrightarrow> kMachineId (m_id m)"
  by (simp add: check_machine_def machine_to_json_def checks)

lemma check_cold_Nil: "check_cold L p w = [] \<longleftrightarrow>
    (\<forall>v. js_find L p ''cold'' = Some v \<longrightarrow>
        is_string L v \<and> (\<forall>c. js_get_string L v = Inr c \<longrightarrow> c \<in> {''clflush'', ''evict'', ''none'', ''n/a''}))"
proof (cases "js_find L p ''cold''")
  case (Some v)
  then show ?thesis
    using get_typed(1) [of v] by (cases "js_get_string L v") (simp_all add: check_cold_def is_string_def)
qed (simp add: check_cold_def)

lemma check_params_object:
  assumes "map_of kvs ''params'' = Some p"
  shows "check_params L (js_object L kvs) w = [] \<longleftrightarrow> params_ok L p"
  using assms
  by (simp add: check_params_def check_key_object check_cold_Nil params_ok_def split: option.splits)

lemma check_result_valid:
  assumes "result_ok r"
  shows "check_result L (result_to_json L r) i = [] \<longleftrightarrow> result_valid L r"
  using assms
  by (auto simp: check_result_def Let_def result_valid_def result_to_json_def checks contains_def find_object
      check_params_object check_metric_def check_workload_def check_unit_def result_ok_def)

lemma check_summary_valid:
  assumes "summary_ok s"
  shows "check_summary L (summary_to_json L s) i = [] \<longleftrightarrow> summary_valid s"
  using assms
  by (auto simp: check_summary_def Let_def summary_to_json_def checks contains_def find_object check_metric_def
      check_workload_def check_late_def check_order_def num_at_def summary_valid_def summary_ok_def)

lemma validate_run_valid:
  assumes "run_ok run"
  shows "validate_run L (run_to_json L run) = [] \<longleftrightarrow> run_valid L run"
proof -
  have r: "check_all (check_result L) (map (result_to_json L) (e_results run)) = [] \<longleftrightarrow>
      list_all (result_valid L) (e_results run)"
    using assms by (simp add: check_all_Nil run_ok_def list_all_length check_result_valid)
  have s: "check_all (check_summary L) (map (summary_to_json L) (e_summary run)) = [] \<longleftrightarrow>
      list_all summary_valid (e_summary run)"
    using assms by (simp add: check_all_Nil run_ok_def list_all_length check_summary_valid)
  show ?thesis
    using assms r s by (auto simp: validate_run_def run_to_json_def checks find_object elements_array
        check_machine_valid run_valid_def run_ok_def)
qed

lemma get_required_found:
  "js_find L j key = Some v \<Longrightarrow> get v = Inr x \<Longrightarrow> get_required L get j key w = Inr x"
  by (simp add: get_required_def)

text \<open>A required and typed key converts.\<close>

lemma require_string:
  assumes "require L j w (is_string L) ty key = []"
  obtains v s where "js_find L j key = Some v" "is_string L v" "js_get_string L v = Inr s"
    "\<And>w'. get_required L (js_get_string L) j key w' = Inr s"
  using assms get_typed(1) by (fastforce simp: require_Nil is_string_def get_required_def)

lemma require_integer:
  assumes "require L j w (is_number_integer L) ty key = []"
  obtains i u where "\<And>w'. get_required L (js_get_int L) j key w' = Inr i" "\<And>w'. get_required L (js_get_u64 L) j key w' = Inr u"
  using assms get_typed(2,4) by (fastforce simp: require_Nil get_required_def)

lemma require_number:
  assumes "require L j w (is_number L) ty key = []"
  obtains d where "\<And>w'. get_required L (js_get_double L) j key w' = Inr d"
    "\<And>f. check_key L j (is_number L) (js_get_double L) key f = f d"
  using assms get_typed(5) by (fastforce simp: require_Nil get_required_def check_key_def)

lemma checked_result_parses:
  assumes "check_result L r i = []"
  shows "\<exists>x. result_from_json L r = Inr x \<and> r_workload x = workload_of (r_metric x) \<and> kTimestamp (r_timestamp x)
    \<and> isfinite (r_value x)"
proof -
  define w where "w = ''results['' @ to_dec i @ '']''"
  have obj: "is_object L r" using assms by (auto simp: check_result_def Let_def split: if_splits)
  note c = assms [unfolded check_result_def Let_def, folded w_def, simplified obj, simplified]
  obtain wv wl where wl: "js_find L r ''workload'' = Some wv" "is_string L wv" "js_get_string L wv = Inr wl"
      "\<And>w'. get_required L (js_get_string L) r ''workload'' w' = Inr wl"
    using c by (elim conjE require_string [of r w _ "''workload''"]) blast
  obtain mv me where me: "js_find L r ''metric'' = Some mv" "is_string L mv" "js_get_string L mv = Inr me"
      "\<And>w'. get_required L (js_get_string L) r ''metric'' w' = Inr me"
    using c by (elim conjE require_string [of r w _ "''metric''"]) blast
  obtain uv un where un: "js_find L r ''unit'' = Some uv" "is_string L uv" "js_get_string L uv = Inr un"
      "\<And>w'. get_required L (js_get_string L) r ''unit'' w' = Inr un"
    using c by (elim conjE require_string [of r w _ "''unit''"]) blast
  obtain tv ts where ts: "js_find L r ''timestamp'' = Some tv" "is_string L tv" "js_get_string L tv = Inr ts"
      "\<And>w'. get_required L (js_get_string L) r ''timestamp'' w' = Inr ts"
    using c by (elim conjE require_string [of r w _ "''timestamp''"]) blast
  obtain d where d: "\<And>w'. get_required L (js_get_double L) r ''value'' w' = Inr d"
      "\<And>f. check_key L r (is_number L) (js_get_double L) ''value'' f = f d"
    using c by (elim conjE require_number [of r w _ "''value''"]) blast
  obtain tc where tc: "\<And>w'. get_required L (js_get_int L) r ''thread_count'' w' = Inr tc"
    using c by (elim conjE require_integer [of r w _ "''thread_count''"]) blast
  obtain ws where ws: "\<And>w'. get_required L (js_get_u64 L) r ''working_set_bytes'' w' = Inr ws"
    using c by (elim conjE require_integer [of r w _ "''working_set_bytes''"]) blast
  obtain tr where tr: "\<And>w'. get_required L (js_get_int L) r ''trial'' w' = Inr tr"
    using c by (elim conjE require_integer [of r w _ "''trial''"]) blast
  obtain du where du: "\<And>w'. get_required L (js_get_u64 L) r ''duration_ns'' w' = Inr du"
    using c by (elim conjE require_integer [of r w _ "''duration_ns''"]) blast
  obtain m where m: "parse_metric me = Some m"
    using c me by (auto simp: check_metric_def check_key_def)
  then have mo: "metric_of L r = Some m" using me by (simp add: metric_of_def)
  have wlo: "parse_workload wl = Some (workload_of m)"
    using c wl mo by (auto simp: check_workload_def check_key_def split: option.splits)
  have uno: "parse_unit un = Some (unit_of m)"
    using c un mo by (auto simp: check_unit_def check_key_def split: option.splits)
  have "kTimestamp ts" "isfinite d" using c ts d(2) by (auto simp: check_key_def)
  moreover obtain p where "js_value L Inr r ''params'' (js_object L []) = Inr p"
    using obj by (cases "js_find L r ''params''") (auto simp: js_value_def)
  ultimately show ?thesis
    by (simp add: result_from_json_def Let_def wl(4) me(4) un(4) ts(4) d(1) tc ws tr du m wlo uno)
qed

end

section \<open>Formats the engine writes\<close>

lemma matches_replicate: "matches (replicate n p) s \<longleftrightarrow> length s = n \<and> list_all p s"
proof (induction n arbitrary: s)
  case (Suc n)
  show ?case by (cases s) (auto simp: Suc)
qed auto

text \<open>The last \<open>w\<close> digits of a number.\<close>

fun digits_fixed :: "nat \<Rightarrow> nat \<Rightarrow> nat \<Rightarrow> string" where
  "digits_fixed base 0 n = []"
| "digits_fixed base (Suc w) n = digits_fixed base w (n div base) @ [digit_char (n mod base)]"

lemma length_digits_fixed [simp]: "length (digits_fixed base w n) = w"
  by (induction w arbitrary: n) simp_all

lemma digit_char_0 [simp]: "digit_char 0 = CHR ''0''"
  by code_simp

lemma digits_fixed_0: "2 \<le> base \<Longrightarrow> digits_fixed base w 0 = replicate w (CHR ''0'')"
proof (induction w)
  case (Suc w)
  then show ?case by (simp add: replicate_append_same)
qed simp

lemma format_nat_fixed:
  assumes "2 \<le> base"
  shows "n < base ^ Suc w \<Longrightarrow> length (format_nat base n) \<le> Suc w \<and> pad_left (Suc w) (format_nat base n) = digits_fixed base (Suc w) n"
proof (induction w arbitrary: n)
  case 0
  then show ?case using assms by (simp add: format_nat.simps [of base n] pad_left_def)
next
  case (Suc w)
  show ?case
  proof (cases "n < base")
    case True
    then show ?thesis
      using assms by (simp add: format_nat.simps [of base n] pad_left_def digits_fixed_0 replicate_append_same)
  next
    case False
    have lt: "n div base < base ^ Suc w" using Suc.prems assms by (simp add: div_less_iff_less_mult mult.commute)
    have f: "format_nat base n = format_nat base (n div base) @ [digit_char (n mod base)]"
      using False assms by (simp add: format_nat.simps [of base n])
    from Suc.IH [OF lt] show ?thesis by (simp add: f pad_left_def)
  qed
qed

lemma digits_fixed_hd:
  "0 < base \<Longrightarrow> n < base ^ Suc w \<Longrightarrow> digits_fixed base (Suc w) n = digit_char (n div base ^ w) # digits_fixed base w (n mod base ^ w)"
proof (induction w arbitrary: n)
  case (Suc w)
  have lt: "n div base < base ^ Suc w" using Suc.prems by (simp add: div_less_iff_less_mult mult.commute)
  have "(n mod base ^ Suc w) div base = n div base mod base ^ w" "(n mod base ^ Suc w) mod base = n mod base"
    by (simp_all add: mod_mult2_eq mod_mod_cancel Suc.prems(1))
  then show ?case
    using Suc.IH [OF Suc.prems(1) lt] by (simp add: div_mult2_eq)
qed simp

lemma digit_char_class: "d < 16 \<Longrightarrow> hex_char (digit_char d)" "d < 10 \<Longrightarrow> dec_char (digit_char d)"
proof -
  have "\<forall>d<16. hex_char (digit_char d)" by code_simp
  then show "d < 16 \<Longrightarrow> hex_char (digit_char d)" by blast
  have "\<forall>d<10. dec_char (digit_char d)" by code_simp
  then show "d < 10 \<Longrightarrow> dec_char (digit_char d)" by blast
qed

lemma digits_fixed_class: "list_all hex_char (digits_fixed 16 w n)" "list_all dec_char (digits_fixed 10 w n)"
  by (induction w arbitrary: n) (simp_all add: digit_char_class)

lemma hex_matches: "0 < w \<Longrightarrow> unat x < 16 ^ w \<Longrightarrow> matches (replicate w hex_char) (hex_padded w x)"
  using format_nat_fixed [of 16 "unat x" "w - 1"] digits_fixed_class(1) [of w]
  by (simp add: hex_padded_def matches_replicate)

lemma dec_matches: "0 < w \<Longrightarrow> n < 10 ^ w \<Longrightarrow> matches (replicate w dec_char) (dec_padded w n)"
  using format_nat_fixed [of 10 n "w - 1"] digits_fixed_class(2) [of w]
  by (simp add: dec_padded_def to_dec_def matches_replicate)

lemma hex_first_matches:
  assumes "0 < w" "unat x < 16 ^ w" "p (digit_char (unat x div 16 ^ (w - 1)))"
  shows "matches (p # replicate (w - 1) hex_char) (hex_padded w x)"
  using format_nat_fixed [of 16 "unat x" "w - 1"] digits_fixed_hd [of 16 "unat x" "w - 1"]
    digits_fixed_class(1) [of "w - 1"] assms
  by (simp add: hex_padded_def matches_replicate)

lemma unat_drop: "unat (drop_bit n x) = unat x div 2 ^ n" for x :: u64
  by (metis unat_drop_bit_eq drop_bit_eq_div)

lemma mask16: "(0xFFFF :: u64) = mask 16" and mask48: "(0xFFFFFFFFFFFF :: u64) = mask 48"
  by (simp_all add: mask_eq_exp_minus_1)

lemma unat_and_mask: "unat (x AND mask n) = unat x mod 2 ^ n" for x :: u64
  by (simp add: unat_take_bit flip: take_bit_eq_mask)

lemma version_bits: "drop_bit 12 (((r AND 0xFFFFFFFFFFFF0FFF) OR 0x4000) AND 0xFFFF) = (4 :: u64)"
proof (rule bit_word_eqI)
  fix n assume "n < LENGTH(64)"
  show "bit (drop_bit 12 (((r AND 0xFFFFFFFFFFFF0FFF) OR 0x4000) AND 0xFFFF)) n = bit (4 :: u64) n"
  proof (cases "n < 4")
    case True
    then have "n \<in> {0, 1, 2, 3}" by auto
    then show ?thesis by (auto simp: bit_simps bit_numeral_rec)
  next
    case False
    then have "\<not> bit (4 :: u64) n" using bit_push_bit_iff [of 2 "1 :: u64" n] by (simp add: bit_1_iff)
    with False show ?thesis unfolding mask16 by (simp add: bit_simps)
  qed
qed

lemma variant_bits: "drop_bit 62 ((r AND 0x3FFFFFFFFFFFFFFF) OR 0x8000000000000000) = (2 :: u64)"
proof (rule bit_word_eqI)
  fix n assume "n < LENGTH(64)"
  have "n < 2 \<Longrightarrow> n \<in> {0, 1}" by auto
  then show "bit (drop_bit 62 ((r AND 0x3FFFFFFFFFFFFFFF) OR 0x8000000000000000)) n = bit (2 :: u64) n"
    by (cases "n < 2") (auto simp: bit_simps bit_numeral_rec dest: bit_imp_le_length)
qed

lemma version_digit: "unat (((r AND 0xFFFFFFFFFFFF0FFF) OR 0x4000) AND 0xFFFF) div 16 ^ 3 = 4" for r :: u64
proof -
  have "unat (((r AND 0xFFFFFFFFFFFF0FFF) OR 0x4000) AND 0xFFFF) div 2 ^ 12 = unat (4 :: u64)"
    by (simp only: unat_drop [symmetric] version_bits)
  then show ?thesis by simp
qed

lemma variant_digit:
  "unat (drop_bit 48 ((r AND 0x3FFFFFFFFFFFFFFF) OR 0x8000000000000000)) div 16 ^ 3 \<in> {8, 9, 10, 11}" for r :: u64
proof -
  define lo where "lo = (r AND 0x3FFFFFFFFFFFFFFF) OR 0x8000000000000000"
  have "unat lo div 2 ^ 62 = unat (2 :: u64)"
    by (simp only: unat_drop [symmetric] variant_bits lo_def)
  then have "unat lo div 2 ^ 60 div 4 = 2" by (simp flip: div_mult2_eq)
  moreover have "unat (drop_bit 48 lo) div 16 ^ 3 = unat lo div 2 ^ 60" by (simp add: unat_drop flip: div_mult2_eq)
  ultimately show ?thesis unfolding lo_def by auto
qed

lemma run_id_uuid: "kUuid (run_id_of a b)"
proof -
  define hi lo where "hi = (a AND 0xFFFFFFFFFFFF0FFF) OR 0x4000" and "lo = (b AND 0x3FFFFFFFFFFFFFFF) OR 0x8000000000000000"
  have ub: "unat hi < 2 ^ 64" "unat lo < 2 ^ 64" by (rule u64_lt)+
  have 1: "matches (replicate 8 hex_char) (hex_padded 8 (drop_bit 32 hi))"
    by (rule hex_matches) (use ub in \<open>simp_all add: unat_drop div_less_iff_less_mult\<close>)
  have 2: "matches (replicate 4 hex_char) (hex_padded 4 (drop_bit 16 hi AND 0xFFFF))"
    by (rule hex_matches) (simp_all add: mask16 unat_and_mask)
  have v: "digit_char 4 \<in> set ''12345678''" "\<forall>d\<in>{8, 9, 10, 11}. digit_char d \<in> set ''89ab''" by code_simp+
  have 3: "matches ((\<lambda>c. c \<in> set ''12345678'') # replicate (4 - 1) hex_char) (hex_padded 4 (hi AND 0xFFFF))"
  proof (rule hex_first_matches)
    show "unat (hi AND 0xFFFF) < 16 ^ 4" by (simp add: mask16 unat_and_mask)
    have "unat (hi AND 0xFFFF) div 16 ^ (4 - 1) = 4" using version_digit [of a, folded hi_def] by simp
    then show "digit_char (unat (hi AND 0xFFFF) div 16 ^ (4 - 1)) \<in> set ''12345678''" using v(1) by (simp only:)
  qed simp
  have 4: "matches ((\<lambda>c. c \<in> set ''89ab'') # replicate (4 - 1) hex_char) (hex_padded 4 (drop_bit 48 lo))"
  proof (rule hex_first_matches)
    show "unat (drop_bit 48 lo) < 16 ^ 4" using ub by (simp add: unat_drop div_less_iff_less_mult)
    have "unat (drop_bit 48 lo) div 16 ^ (4 - 1) \<in> {8, 9, 10, 11}" using variant_digit [of b, folded lo_def] by simp
    then show "digit_char (unat (drop_bit 48 lo) div 16 ^ (4 - 1)) \<in> set ''89ab''" using v(2) by blast
  qed simp
  have 5: "matches (replicate 12 hex_char) (hex_padded 12 (lo AND 0xFFFFFFFFFFFF))"
    by (rule hex_matches) (simp_all add: mask48 unat_and_mask)
  have dash: "matches [(=) (CHR ''-'')] ''-''" by simp
  have "matches (replicate 8 hex_char @ [(=) (CHR ''-'')] @ replicate 4 hex_char @ [(=) (CHR ''-'')]
      @ ((\<lambda>c. c \<in> set ''12345678'') # replicate (4 - 1) hex_char) @ [(=) (CHR ''-'')]
      @ ((\<lambda>c. c \<in> set ''89ab'') # replicate (4 - 1) hex_char) @ [(=) (CHR ''-'')] @ replicate 12 hex_char) (run_id_of a b)"
    unfolding run_id_of_def Let_def hi_def [symmetric] lo_def [symmetric]
    by (intro list_all2_appendI 1 2 3 4 5 dash)
  then show ?thesis unfolding kUuid_def uuid_pattern_def by simp
qed

lemma civil_two_digits:
  assumes "civil_from_days days = (y, m, d)"
  shows "m < 100" "d < 100"
proof -
  define doe where "doe = (days + 719468) mod 146097"
  define q where "q = doe - doe div 1460 + doe div 36524 - doe div 146096"
  define yoe where "yoe = q div 365"
  define doy where "doy = doe - (365 * yoe + yoe div 4 - yoe div 100)"
  define mp where "mp = (5 * doy + 2) div 153"
  have md: "m = (if mp < 10 then mp + 3 else mp - 9)" "d = doy - (153 * mp + 2) div 5 + 1"
    using assms unfolding civil_from_days_def Let_def doe_def [symmetric] q_def [symmetric] yoe_def [symmetric]
      doy_def [symmetric] mp_def [symmetric] prod.inject by blast+
  have "doe < 146097" by (simp add: doe_def)
  then have "doe div 1460 < 101" "doe div 146096 < 2" by (auto intro!: less_mult_imp_div_less)
  then have "doe \<le> q + 101" unfolding q_def by linarith
  moreover have "q < 365 * yoe + 365" using dividend_less_times_div [of 365 q] by (simp add: yoe_def)
  moreover have "doy \<le> doe - 365 * yoe" unfolding doy_def by (rule diff_le_mono2) auto
  ultimately have "doy \<le> 466" by linarith
  then have "mp < 16" unfolding mp_def by (intro less_mult_imp_div_less) simp
  then show "m < 100" using md(1) by (auto split: if_splits)
  have "5 * doy + 2 < 153 * mp + 153" using dividend_less_times_div [of 153 "5 * doy + 2"] by (simp add: mp_def)
  then show "d < 100" using md by linarith
qed

text \<open>Dates up to the year 9999.\<close>

definition four_digit_year :: "nat \<Rightarrow> bool" where
  "four_digit_year us \<longleftrightarrow> fst (civil_from_days (us div 1000000 div 86400)) < 10000"

lemma four_digit_before_9600:
  assumes "us < 240784704000000000"
  shows "four_digit_year us"
proof -
  define z where "z = us div 1000000 div 86400 + 719468"
  define q where "q = z mod 146097 - z mod 146097 div 1460 + z mod 146097 div 36524 - z mod 146097 div 146096"
  have y: "fst (civil_from_days (us div 1000000 div 86400)) \<le> q div 365 + z div 146097 * 400 + 1"
    unfolding civil_from_days_def Let_def z_def [symmetric] q_def [symmetric] by simp
  have "us div 1000000 div 86400 < 2786860"
    using assms by (intro less_mult_imp_div_less) simp
  then have "z div 146097 < 24" unfolding z_def by (intro less_mult_imp_div_less) simp
  moreover have "z mod 146097 div 36524 < 5" by (intro less_mult_imp_div_less) (simp add: less_trans [OF mod_less_divisor])
  then have "q < 401 * 365" using mod_less_divisor [of 146097 z] unfolding q_def by linarith
  then have "q div 365 < 401" by (rule less_mult_imp_div_less)
  ultimately show ?thesis unfolding four_digit_year_def using y by linarith
qed

lemma timestamp_format:
  assumes "four_digit_year us"
  shows "kTimestamp (utc_rfc3339 us)"
proof -
  obtain y m d where c: "civil_from_days (us div 1000000 div 86400) = (y, m, d)" by (metis prod_cases3)
  define t where "t = us div 1000000 mod 86400"
  have t: "t < 86400" by (simp add: t_def)
  have y: "matches (replicate 4 dec_char) (dec_padded 4 y)"
    by (rule dec_matches) (use assms c in \<open>simp_all add: four_digit_year_def\<close>)
  have two: "matches (replicate 2 dec_char) (dec_padded 2 n)" if "n < 100" for n
    by (rule dec_matches) (use that in simp_all)
  have us: "matches (replicate 6 dec_char) (dec_padded 6 (us mod 1000000))"
    by (rule dec_matches) simp_all
  have sep: "matches [(=) c] [c]" for c by simp
  have "t div 3600 < 100" "t div 60 mod 60 < 100" "t mod 60 < 100"
    using t by (auto simp: less_mult_imp_div_less intro: less_trans [OF mod_less_divisor])
  then have "matches (timestamp_pattern @ [(=) (CHR ''.'')] @ replicate 6 dec_char @ [(=) (CHR ''Z'')]) (utc_rfc3339 us)"
    unfolding utc_rfc3339_def Let_def c split_conv t_def [symmetric] timestamp_pattern_def append_assoc
    by (intro list_all2_appendI y two us sep civil_two_digits [OF c])
  then show ?thesis unfolding kTimestamp_def by (intro bexI [of _ 6]) simp_all
qed

text \<open>
  What the engine stamps on a document has the form the validator asks for: every run
  identifier is a lowercase UUID of version 4, for every pair of random numbers, and every
  time stamp before the year 9600 is RFC 3339 in UTC.
\<close>

theorem stamps_well_formed:
  "kUuid (new_run_id seed k) \<and> (ns < 240784704000000000000 \<longrightarrow> kTimestamp (utc_now_rfc3339 ns))"
  using run_id_uuid timestamp_format [OF four_digit_before_9600, of "ns div 1000"]
  by (auto simp: new_run_id_def utc_now_rfc3339_def intro: less_mult_imp_div_less)

theorem stamps_well_formed_witness: "kTimestamp (utc_now_rfc3339 1700000000000000999)"
  using stamps_well_formed [where ns = 1700000000000000999] by simp

text \<open>
  (C25) The engine's own documents: for an envelope whose \<open>int\<close> members hold 32-bit values the
  validator accepts the JSON written for it exactly when the envelope says something
  consistent: a UUID, RFC 3339 times and a machine id of 32 hexadecimal digits; results whose
  workload is that of their metric, with a finite value, at least one thread and a cold effect
  the engine knows; summaries whose order statistics are ordered and whose counts fit.
\<close>

theorem validate_run_exact:
  assumes "json_library L" "run_ok run"
  shows "validate_run L (run_to_json L run) = [] \<longleftrightarrow> run_valid L run"
  using assms by (rule json_library.validate_run_valid)

lemma example_params: "params_ok json_values (J_object [(''cold'', J_string ''none'')])"
  by (simp add: params_ok_def json_values_def js_kind_defs)

lemma example_run_valid: "run_valid json_values example_run"
proof -
  have "kMachineId (replicate 32 (CHR ''a''))" by (simp add: kMachineId_def matches_replicate list_all_iff hex_char_def)
  then show ?thesis
    using example_params
    by (simp add: timestamp_format four_digit_before_9600 run_valid_def example_run_def example_machine_def run_id_uuid result_valid_def summary_valid_def
        isfinite_def)
qed

theorem validate_run_exact_witness: "validate_run json_values (run_to_json json_values example_run) = []"
  using validate_run_exact [OF json_val.json_library_axioms example_run_ok] example_run_valid by blast

text \<open>
  (C27) A result the validator accepts is typed: for every JSON document the result parser
  succeeds on it without an exception, and the result it returns names a known metric with the
  workload that belongs to it, a finite value and an RFC 3339 time stamp.
\<close>

theorem validated_result_parses:
  assumes "json_library L" "check_result L r i = []"
  shows "\<exists>x. result_from_json L r = Inr x \<and> r_workload x = workload_of (r_metric x) \<and> kTimestamp (r_timestamp x)
    \<and> isfinite (r_value x)"
  using assms by (rule json_library.checked_result_parses)

theorem validated_result_parses_witness:
  "\<exists>x. result_from_json json_values (result_to_json json_values (hd (e_results example_run))) = Inr x
    \<and> r_workload x = workload_of (r_metric x) \<and> kTimestamp (r_timestamp x) \<and> isfinite (r_value x)"
proof (rule validated_result_parses [OF json_val.json_library_axioms])
  have "result_ok (hd (e_results example_run))" "result_valid json_values (hd (e_results example_run))"
    using example_run_ok example_run_valid by (simp_all add: run_ok_def run_valid_def example_run_def)
  then show "check_result json_values (result_to_json json_values (hd (e_results example_run))) 0 = []"
    using json_val.check_result_valid by blast
qed

end
