(* ===== verification/Sysinfo.thy ===== *)
theory Sysinfo
  imports Validate
begin

text \<open>
  \<^verbatim>\<open>engine/src/sysinfo.cpp\<close>: the description of the machine. The readers are functions of the
  text they read; a file that cannot be opened reads as the empty text. The directory of cache
  descriptions is the list of its entries, in the order of the iteration.
\<close>

section \<open>Text helpers\<close>

definition is_blank :: "char \<Rightarrow> bool" where
  "is_blank c \<longleftrightarrow> c \<in> {CHR '' '', CHR 0x09, CHR 0x0D, CHR 0x0A}"

definition trim :: "string \<Rightarrow> string" where
  "trim s = rev (dropWhile is_blank (rev (dropWhile is_blank s)))"

definition split_kv :: "string \<Rightarrow> (string \<times> string) option" where
  "split_kv line =
     (case find_char (CHR '':'') line of
        None \<Rightarrow> None
      | Some c \<Rightarrow> Some (trim (take c line), trim (drop (c + 1) line)))"

definition first_line :: "string \<Rightarrow> string" where
  "first_line content = (case getlines content of [] \<Rightarrow> [] | l # _ \<Rightarrow> l)"

definition read_first_line :: "string \<Rightarrow> string" where
  "read_first_line content = trim (first_line content)"

definition lower :: "string \<Rightarrow> string" where
  "lower s = map tolower s"

section \<open>Processors\<close>

record CpuInfo =
  ci_model :: string
  ci_physical_cores :: int
  ci_logical_cpus :: int
  ci_flags :: "string list"

text \<open>The locals of the scan; \<open>cs_cores\<close> lists the elements of the set of cores, each once.\<close>

record cpu_scan =
  cs_info :: CpuInfo
  cs_cores :: "(int \<times> int) list"
  cs_phys :: int
  cs_core :: int

definition flush_block :: "cpu_scan \<Rightarrow> cpu_scan" where
  "flush_block s =
     s\<lparr>cs_cores := (if 0 \<le> cs_core s then List.insert (cs_phys s, cs_core s) (cs_cores s) else cs_cores s),
       cs_phys := 0, cs_core := -1\<rparr>"

definition stoi :: "string \<Rightarrow> int result" where
  "stoi s = rbind (stol 31 s) (\<lambda>(v, idx). Inr v)"

definition cpuinfo_line :: "cpu_scan \<Rightarrow> string \<Rightarrow> cpu_scan result" where
  "cpuinfo_line s line =
     (if trim line = [] then Inr (flush_block s)
      else
        case split_kv line of
          None \<Rightarrow> Inr s
        | Some (key, val) \<Rightarrow>
            let info = cs_info s in
            if key = ''processor'' then
              Inr (s\<lparr>cs_info := info\<lparr>ci_logical_cpus := ci_logical_cpus info + 1\<rparr>\<rparr>)
            else if key = ''physical id'' then rbind (stoi val) (\<lambda>v. Inr (s\<lparr>cs_phys := v\<rparr>))
            else if key = ''core id'' then rbind (stoi val) (\<lambda>v. Inr (s\<lparr>cs_core := v\<rparr>))
            else if key = ''model name'' \<and> ci_model info = [] then Inr (s\<lparr>cs_info := info\<lparr>ci_model := val\<rparr>\<rparr>)
            else if key = ''flags'' \<and> ci_flags info = [] then
              Inr (s\<lparr>cs_info := info\<lparr>ci_flags := extract_words val\<rparr>\<rparr>)
            else Inr s)"

fun cpuinfo_lines :: "cpu_scan \<Rightarrow> string list \<Rightarrow> cpu_scan result" where
  "cpuinfo_lines s [] = Inr s"
| "cpuinfo_lines s (l # ls) = rbind (cpuinfo_line s l) (\<lambda>s'. cpuinfo_lines s' ls)"

definition cpu_scan_start :: cpu_scan where
  "cpu_scan_start =
     \<lparr>cs_info = \<lparr>ci_model = [], ci_physical_cores = 0, ci_logical_cpus = 0, ci_flags = []\<rparr>,
      cs_cores = [], cs_phys = 0, cs_core = -1\<rparr>"

definition parse_cpuinfo :: "string \<Rightarrow> CpuInfo result" where
  "parse_cpuinfo content =
     rbind (cpuinfo_lines cpu_scan_start (getlines content)) (\<lambda>s.
       let s = flush_block s; info = cs_info s in
       Inr (info\<lparr>ci_physical_cores :=
         (if cs_cores s = [] then ci_logical_cpus info else int (length (cs_cores s)))\<rparr>))"

section \<open>Caches and memory\<close>

text \<open>The product is taken in \<open>long\<close>; the result is cast to \<open>int\<close>.\<close>

definition parse_cache_size_kb :: "string \<Rightarrow> int" where
  "parse_cache_size_kb text =
     (let t = trim text in
      if t = [] then 0
      else case stol 63 t of
        Inl _ \<Rightarrow> 0
      | Inr (v, idx) \<Rightarrow>
          let suffix = lower (drop idx t);
              v = (if suffix = ''m'' \<or> suffix = ''mb'' then v * 1024
                   else if suffix = ''g'' \<or> suffix = ''gb'' then v * (1024 * 1024) else v)
          in wrap_signed 31 v)"

record CacheSizes =
  cz_l1d_kb :: int
  cz_l2_kb :: int
  cz_l3_kb :: int

record cache_entry =
  ce_dir :: bool
  ce_name :: string
  ce_level :: string
  ce_type :: string
  ce_size :: string

definition cache_entry_step :: "CacheSizes \<Rightarrow> cache_entry \<Rightarrow> CacheSizes result" where
  "cache_entry_step c entry =
     (if \<not> ce_dir entry \<or> \<not> starts_with (ce_name entry) ''index'' then Inr c
      else
        rbind (stoi (''0'' @ read_first_line (ce_level entry))) (\<lambda>level.
          let type = lower (read_first_line (ce_type entry));
              kb = parse_cache_size_kb (read_first_line (ce_size entry)) in
          if level = 1 \<and> type = ''data'' then Inr (c\<lparr>cz_l1d_kb := max (cz_l1d_kb c) kb\<rparr>)
          else if level = 2 then Inr (c\<lparr>cz_l2_kb := max (cz_l2_kb c) kb\<rparr>)
          else if level = 3 then Inr (c\<lparr>cz_l3_kb := max (cz_l3_kb c) kb\<rparr>)
          else Inr c))"

fun cache_entries :: "CacheSizes \<Rightarrow> cache_entry list \<Rightarrow> CacheSizes result" where
  "cache_entries c [] = Inr c"
| "cache_entries c (e # es) = rbind (cache_entry_step c e) (\<lambda>c'. cache_entries c' es)"

text \<open>\<open>None\<close>: the path is not a directory.\<close>

definition read_cache_sizes :: "cache_entry list option \<Rightarrow> CacheSizes result" where
  "read_cache_sizes dir =
     (let c = \<lparr>cz_l1d_kb = 0, cz_l2_kb = 0, cz_l3_kb = 0\<rparr> in
      case dir of None \<Rightarrow> Inr c | Some entries \<Rightarrow> cache_entries c entries)"

fun meminfo_lines :: "string list \<Rightarrow> u64" where
  "meminfo_lines [] = 0"
| "meminfo_lines (l # ls) =
     (case split_kv l of
        Some (key, val) \<Rightarrow> if key = ''MemTotal'' then extract_u64 val * 1024 else meminfo_lines ls
      | None \<Rightarrow> meminfo_lines ls)"

definition parse_meminfo_total_bytes :: "string \<Rightarrow> u64" where
  "parse_meminfo_total_bytes content = meminfo_lines (getlines content)"

section \<open>Operating system\<close>

definition unquote :: "string \<Rightarrow> string" where
  "unquote v =
     (if 2 \<le> length v \<and> hd v = CHR 0x22 \<and> last v = CHR 0x22 then take (length v - 2) (drop 1 v) else v)"

fun os_release_lines :: "string list \<Rightarrow> string" where
  "os_release_lines [] = ''unknown''"
| "os_release_lines (l # ls) =
     (if starts_with l ''PRETTY_NAME='' then unquote (drop 12 l) else os_release_lines ls)"

definition parse_os_release_pretty_name :: "string \<Rightarrow> string" where
  "parse_os_release_pretty_name content = os_release_lines (getlines content)"

definition detect_virtualization :: "string \<Rightarrow> string" where
  "detect_virtualization proc_version =
     (if find_pat ''microsoft'' (lower (first_line proc_version)) \<noteq> None then ''wsl2'' else ''none'')"

section \<open>The machine\<close>

definition machine_key :: "MachineInfo \<Rightarrow> string" where
  "machine_key m =
     m_cpu_model m @ ''|'' @ int_to_dec (m_physical_cores m) @ ''|'' @ int_to_dec (m_logical_cpus m) @ ''|''
     @ int_to_dec (m_l3_kb m) @ ''|'' @ to_dec (unat (m_memory_bytes m)) @ ''|'' @ m_hostname m"

definition machine_id :: "MachineInfo \<Rightarrow> string" where
  "machine_id m = take 32 (sha256_hex (machine_key m))"

text \<open>What the system and the build say: the texts read, the calls made, the macros.\<close>

record sys_env =
  se_cpuinfo :: string
  se_hardware_concurrency :: int
  se_cache_dir :: "cache_entry list option"
  se_meminfo :: string
  se_os_release :: string
  se_version :: string
  se_uname :: "string option"         \<comment> \<open>\<open>u.release\<close> when \<open>uname\<close> succeeds\<close>
  se_gethostname :: "string option"
  se_gcc_version :: string            \<comment> \<open>\<^verbatim>\<open>__VERSION__\<close>\<close>
  se_compiler_flags :: string
  se_engine_version :: string
  se_git_sha :: string

definition collect_machine_info :: "sys_env \<Rightarrow> MachineInfo result" where
  "collect_machine_info e =
     rbind (parse_cpuinfo (se_cpuinfo e)) (\<lambda>cpu.
     rbind (read_cache_sizes (se_cache_dir e)) (\<lambda>c.
       let logical = (if 0 < ci_logical_cpus cpu then ci_logical_cpus cpu else se_hardware_concurrency e);
           m = \<lparr>m_id = [],
                m_hostname = (case se_gethostname e of Some h \<Rightarrow> if h = [] then ''unknown'' else h | None \<Rightarrow> ''unknown''),
                m_cpu_model = (if ci_model cpu = [] then ''unknown'' else ci_model cpu),
                m_physical_cores = (if 0 < ci_physical_cores cpu then ci_physical_cores cpu else logical),
                m_logical_cpus = logical,
                m_l1d_kb = cz_l1d_kb c, m_l2_kb = cz_l2_kb c, m_l3_kb = cz_l3_kb c,
                m_memory_bytes = parse_meminfo_total_bytes (se_meminfo e),
                m_os = parse_os_release_pretty_name (se_os_release e),
                m_kernel = (case se_uname e of Some r \<Rightarrow> r | None \<Rightarrow> ''unknown''),
                m_compiler = ''g++ '' @ se_gcc_version e,
                m_compiler_flags = se_compiler_flags e,
                m_engine_version = se_engine_version e,
                m_engine_git_sha = se_git_sha e,
                m_virtualized = detect_virtualization (se_version e)\<rparr>
       in Inr (m\<lparr>m_id := machine_id m\<rparr>)))"

section \<open>The machine identifier\<close>

lemma length_put_words: "length (foldl (put_word h) out is) = length out"
  by (induction "is" arbitrary: out) (simp_all add: put_word_def)

lemma length_sha256: "length (sha256 data) = 32"
  by (simp add: sha256_def Let_def length_put_words split: prod.splits)

lemma kHex_hex: "i < 16 \<Longrightarrow> hex_char (kHex ! i)"
  using nth_mem [of i kHex] by (simp add: hex_char_def kHex_def)

lemma sha256_hex_digits: "length (sha256_hex t) = 64" "list_all hex_char (sha256_hex t)"
proof -
  show "length (sha256_hex t) = 64"
    by (simp add: sha256_hex_def length_concat comp_def sum_list_triv length_sha256)
  have "unat (drop_bit 4 b) < 16" "unat (b AND 0xF) < 16" for b :: u8
  proof -
    have "unat b < 2 ^ 8" using unsigned_less [of b] by simp
    then show "unat (drop_bit 4 b) < 16" by (simp add: drop_bit_eq_div unat_div div_less_iff_less_mult)
    have "b AND 0xF = take_bit 4 b" by (simp add: take_bit_eq_mask mask_eq_exp_minus_1)
    then show "unat (b AND 0xF) < 16" by (simp add: unat_take_bit)
  qed
  then show "list_all hex_char (sha256_hex t)"
    by (simp add: sha256_hex_def list_all_iff kHex_hex)
qed

lemma machine_id_hex: "kMachineId (machine_id m)"
  using sha256_hex_digits [of "machine_key m"] unfolding kMachineId_def machine_id_def matches_replicate
  by (auto simp: list_all_iff dest: in_set_takeD)

lemma collected_id: "collect_machine_info e = Inr m \<Longrightarrow> kMachineId (m_id m)"
  by (auto simp: collect_machine_info_def rbind_eq_Inr Let_def machine_id_hex)

section \<open>Counting processors\<close>

lemma blank_digit: "is_digit 10 c \<Longrightarrow> \<not> is_blank c \<and> \<not> is_space c \<and> c \<noteq> CHR ''-'' \<and> c \<noteq> CHR ''+'' \<and> c \<noteq> CHR '':'' \<and> c \<noteq> CHR 0x0A"
  by (auto simp: is_digit_def digit_val_def is_blank_def is_space_def Let_def split: if_splits)

lemma dec_chars: "c \<in> set (to_dec n) \<Longrightarrow> is_digit 10 c"
  using dec_digits [of n] by (simp add: list_all_iff)

lemma trim_dec: "trim (CHR '' '' # to_dec n) = to_dec n"
proof -
  have "to_dec n \<noteq> []" using dec_digits [of n] by simp
  then have "\<not> is_blank (hd (to_dec n))" "\<not> is_blank (hd (rev (to_dec n)))"
    using blank_digit dec_chars by (metis hd_in_set, metis hd_in_set rev_is_Nil_conv set_rev)
  moreover have "dropWhile is_blank s = s" if "\<not> is_blank (hd s)" for s using that by (cases s) auto
  ultimately show ?thesis by (simp add: trim_def is_blank_def)
qed

lemma stoi_dec: "n < 2 ^ 31 \<Longrightarrow> stoi (to_dec n) = Inr (int n)"
proof -
  assume n: "n < 2 ^ 31"
  have ne: "to_dec n \<noteq> []" "list_all (is_digit 10) (to_dec n)" "digits_val 10 (to_dec n) = n"
    using dec_digits [of n] by simp_all
  then obtain c cs where c: "to_dec n = c # cs" by (cases "to_dec n") auto
  then have "\<not> is_space c" "c \<noteq> CHR ''-''" "c \<noteq> CHR ''+''" using blank_digit dec_chars [of c n] by auto
  moreover have "takeWhile (is_digit 10) (c # cs) = c # cs" using ne(2) c list_all_takeWhile [of _ "c # cs" "[]"] by simp
  ultimately show ?thesis using n ne(3) by (simp add: stoi_def stol_def c Let_def)
qed

text \<open>
  The text of \<^verbatim>\<open>/proc/cpuinfo\<close>: one block of lines per processor, with its package and core, and
  any other lines before them.
\<close>

record cpu_proc =
  cp_package :: nat
  cp_core :: nat
  cp_other :: "string list"

definition cpu_block :: "nat \<Rightarrow> cpu_proc \<Rightarrow> string list" where
  "cpu_block i p =
     (''processor'' @ [CHR 0x09] @ '': '' @ to_dec i) # cp_other p
     @ [''physical id'' @ [CHR 0x09] @ '': '' @ to_dec (cp_package p),
        ''core id'' @ [CHR 0x09, CHR 0x09] @ '': '' @ to_dec (cp_core p), []]"

fun cpu_blocks :: "nat \<Rightarrow> cpu_proc list \<Rightarrow> string list" where
  "cpu_blocks i [] = []"
| "cpu_blocks i (p # ps) = cpu_block i p @ cpu_blocks (Suc i) ps"

definition text_of_lines :: "string list \<Rightarrow> string" where
  "text_of_lines ls = concat (map (\<lambda>l. l @ [CHR 0x0A]) ls)"

text \<open>Lines the scan does not count: not empty, and no key it counts.\<close>

definition other_line :: "string \<Rightarrow> bool" where
  "other_line l \<longleftrightarrow> CHR 0x0A \<notin> set l \<and> trim l \<noteq> []
     \<and> (case split_kv l of
          None \<Rightarrow> True
        | Some (key, val) \<Rightarrow> key \<notin> {''processor'', ''physical id'', ''core id''})"

lemma getlines_text: "\<forall>l\<in>set ls. CHR 0x0A \<notin> set l \<Longrightarrow> getlines (text_of_lines ls) = ls"
  by (induction ls) (simp_all add: text_of_lines_def getlines_Cons)

lemma cpuinfo_lines_append:
  "cpuinfo_lines s (a @ b) = rbind (cpuinfo_lines s a) (\<lambda>s'. cpuinfo_lines s' b)"
  by (induction a arbitrary: s) (auto simp: rbind_def split: sum.splits)

lemma split_kv_dec:
  assumes "CHR '':'' \<notin> set k"
  shows "split_kv (k @ '': '' @ to_dec n) = Some (trim k, to_dec n)"
  using assms find_char_first [of "CHR '':''" k "CHR '' '' # to_dec n"] by (simp add: split_kv_def trim_dec)

lemma trim_keys:
  "trim (''processor'' @ [CHR 0x09]) = ''processor''" "trim (''physical id'' @ [CHR 0x09]) = ''physical id''"
  "trim (''core id'' @ [CHR 0x09, CHR 0x09]) = ''core id''"
  by (simp_all add: trim_def is_blank_def)

lemma trim_nonempty: "c \<in> set s \<Longrightarrow> \<not> is_blank c \<Longrightarrow> trim s \<noteq> []"
proof
  assume c: "c \<in> set s" "\<not> is_blank c" and "trim s = []"
  then have "\<forall>x\<in>set (dropWhile is_blank s). is_blank x" by (simp add: trim_def dropWhile_eq_Nil_conv)
  then have "dropWhile is_blank s = []" by (metis hd_dropWhile hd_in_set)
  with c show False by (simp add: dropWhile_eq_Nil_conv)
qed

lemma processor_line: "cpuinfo_line s (''processor'' @ [CHR 0x09] @ '': '' @ to_dec i) =
    Inr (s\<lparr>cs_info := (cs_info s)\<lparr>ci_logical_cpus := ci_logical_cpus (cs_info s) + 1\<rparr>\<rparr>)"
  using split_kv_dec [of "''processor'' @ [CHR 0x09]" i] trim_nonempty [of "CHR '':''" "''processor'' @ [CHR 0x09] @ '': '' @ to_dec i"]
  by (simp add: cpuinfo_line_def trim_keys [simplified] is_blank_def Let_def)

lemma package_line: "p < 2 ^ 31 \<Longrightarrow>
    cpuinfo_line s (''physical id'' @ [CHR 0x09] @ '': '' @ to_dec p) = Inr (s\<lparr>cs_phys := int p\<rparr>)"
  using split_kv_dec [of "''physical id'' @ [CHR 0x09]" p] trim_nonempty [of "CHR '':''" "''physical id'' @ [CHR 0x09] @ '': '' @ to_dec p"]
  by (simp add: cpuinfo_line_def trim_keys [simplified] is_blank_def Let_def stoi_dec)

lemma core_line: "c < 2 ^ 31 \<Longrightarrow>
    cpuinfo_line s (''core id'' @ [CHR 0x09, CHR 0x09] @ '': '' @ to_dec c) = Inr (s\<lparr>cs_core := int c\<rparr>)"
  using split_kv_dec [of "''core id'' @ [CHR 0x09, CHR 0x09]" c] trim_nonempty [of "CHR '':''" "''core id'' @ [CHR 0x09, CHR 0x09] @ '': '' @ to_dec c"]
  by (simp add: cpuinfo_line_def trim_keys [simplified] is_blank_def Let_def stoi_dec)

lemma blank_line: "cpuinfo_line s [] = Inr (flush_block s)"
  by (simp add: cpuinfo_line_def trim_def)

lemma other_lines:
  "list_all other_line ls \<Longrightarrow> \<exists>s'. cpuinfo_lines s ls = Inr s' \<and> cs_cores s' = cs_cores s
     \<and> ci_logical_cpus (cs_info s') = ci_logical_cpus (cs_info s)"
proof (induction ls arbitrary: s)
  case (Cons l ls)
  then have "\<exists>s'. cpuinfo_line s l = Inr s' \<and> cs_cores s' = cs_cores s
      \<and> ci_logical_cpus (cs_info s') = ci_logical_cpus (cs_info s)"
    by (auto simp: other_line_def cpuinfo_line_def Let_def split: option.splits prod.splits)
  then obtain t where "cpuinfo_line s l = Inr t" "cs_cores t = cs_cores s"
    "ci_logical_cpus (cs_info t) = ci_logical_cpus (cs_info s)" by blast
  with Cons.IH [of t] Cons.prems show ?case by simp
qed simp

definition cpu_proc_ok :: "cpu_proc \<Rightarrow> bool" where
  "cpu_proc_ok p \<longleftrightarrow> cp_package p < 2 ^ 31 \<and> cp_core p < 2 ^ 31 \<and> list_all other_line (cp_other p)"

abbreviation core_of :: "cpu_proc \<Rightarrow> int \<times> int" where
  "core_of p \<equiv> (int (cp_package p), int (cp_core p))"

lemma cpu_block_step:
  assumes "cpu_proc_ok p"
  shows "\<exists>s'. cpuinfo_lines s (cpu_block i p) = Inr s' \<and> cs_cores s' = List.insert (core_of p) (cs_cores s)
    \<and> ci_logical_cpus (cs_info s') = ci_logical_cpus (cs_info s) + 1 \<and> cs_phys s' = 0 \<and> cs_core s' = -1"
proof -
  define s1 where "s1 = s\<lparr>cs_info := (cs_info s)\<lparr>ci_logical_cpus := ci_logical_cpus (cs_info s) + 1\<rparr>\<rparr>"
  obtain t where t: "cpuinfo_lines s1 (cp_other p) = Inr t" "cs_cores t = cs_cores s1"
      "ci_logical_cpus (cs_info t) = ci_logical_cpus (cs_info s1)"
    using other_lines assms unfolding cpu_proc_ok_def by blast
  have "cpuinfo_lines s (cpu_block i p) = Inr (flush_block (t\<lparr>cs_phys := int (cp_package p), cs_core := int (cp_core p)\<rparr>))"
    using assms t(1) unfolding cpu_block_def cpu_proc_ok_def cpuinfo_lines.simps processor_line rbind_Inr s1_def [symmetric]
    by (simp only: cpuinfo_lines_append cpuinfo_lines.simps rbind_Inr package_line core_line blank_line)
  then show ?thesis using t(2,3) by (simp add: flush_block_def s1_def)
qed

lemma cpu_blocks_scan:
  "list_all cpu_proc_ok ps \<Longrightarrow> cs_phys s = 0 \<Longrightarrow> cs_core s = -1 \<Longrightarrow>
   \<exists>s'. cpuinfo_lines s (cpu_blocks i ps) = Inr s'
     \<and> cs_cores s' = fold (\<lambda>p. List.insert (core_of p)) ps (cs_cores s)
     \<and> ci_logical_cpus (cs_info s') = ci_logical_cpus (cs_info s) + int (length ps) \<and> cs_core s' = -1"
proof (induction ps arbitrary: i s)
  case (Cons p ps)
  then obtain t where t: "cpuinfo_lines s (cpu_block i p) = Inr t" "cs_cores t = List.insert (core_of p) (cs_cores s)"
    "ci_logical_cpus (cs_info t) = ci_logical_cpus (cs_info s) + 1" "cs_phys t = 0" "cs_core t = -1"
    using cpu_block_step by force
  show ?case using Cons.IH [of t "Suc i"] Cons.prems t by (auto simp: cpuinfo_lines_append)
qed simp

lemma fold_insert:
  "distinct xs \<Longrightarrow> distinct (fold (\<lambda>p. List.insert (f p)) ps xs) \<and> set (fold (\<lambda>p. List.insert (f p)) ps xs) = f ` set ps \<union> set xs"
  by (induction ps arbitrary: xs) auto

lemma cpu_block_no_newline: "cpu_proc_ok p \<Longrightarrow> l \<in> set (cpu_block i p) \<Longrightarrow> CHR 0x0A \<notin> set l"
  using dec_chars blank_digit by (fastforce simp: cpu_block_def cpu_proc_ok_def list_all_iff other_line_def)

lemma cpu_blocks_no_newline: "list_all cpu_proc_ok ps \<Longrightarrow> \<forall>l\<in>set (cpu_blocks i ps). CHR 0x0A \<notin> set l"
  using cpu_block_no_newline by (induction ps arbitrary: i) auto



end
