(* ===== verification/Session.thy ===== *)
theory Session
  imports Registry Sysinfo "HOL-Library.AList"
begin

text \<open>
  One configuration of \<^verbatim>\<open>engine/src/runner.cpp\<close>: the slots the workers write, what a worker does in a
  trial, the merged latencies, and \<open>ConfigSession\<close> as the state the main thread steps one trial
  at a time. The interleaving of the threads is the subject of the theory \<open>Protocol\<close>; here a
  trial is what the main thread sees after the end barrier.
\<close>

section \<open>Configuration\<close>

record RunConfig =
  rc_workloads :: "Workload list"
  rc_metrics :: "Metric list"
  rc_thread_counts :: "int list"
  rc_working_sets :: "u64 list"
  rc_trials :: int
  rc_warmup_trials :: int
  rc_warmup_ms :: int
  rc_trial_ms :: int
  rc_spin_ms :: int
  rc_max_seconds :: fpval
  rc_seed :: u64
  rc_cold :: ColdMode
  rc_pin :: bool
  rc_cpus :: "int list"
  rc_interleave :: bool
  rc_canary_retries :: int
  rc_opts :: WorkloadOptions
  rc_verbose :: bool

section \<open>Slots\<close>

record Slot =
  sl_ops :: u64
  sl_batches :: u64
  sl_cold_ns :: u64
  sl_pre_ns :: u64
  sl_start :: int
  sl_end :: int
  sl_hist :: "u32 list option"
  sl_hist_used :: nat
  sl_cpu_start :: int
  sl_cpu_end :: int
  sl_assigned_cpu :: int
  sl_pin_errno :: int

definition empty_slot :: Slot where
  "empty_slot = \<lparr>sl_ops = 0, sl_batches = 0, sl_cold_ns = 0, sl_pre_ns = 0, sl_start = 0, sl_end = 0, sl_hist = None,
     sl_hist_used = 0, sl_cpu_start = -1, sl_cpu_end = -1, sl_assigned_cpu = -1, sl_pin_errno = 0\<rparr>"

text \<open>
  What a worker observes in a trial: the cost of its preparations, the processors it ran on, the
  clock at the start and after each batch, and the histogram view of the workload.
\<close>

record trial_obs =
  ob_cold_ns :: u64
  ob_pre_ns :: u64
  ob_cpu_start :: int
  ob_t0 :: int
  ob_nows :: "int list"
  ob_cpu_end :: int

text \<open>The part of a worker between the two barriers; \<open>ok\<close> says whether its set-up succeeded.\<close>

definition worker_trial ::
  "('w \<Rightarrow> ('w \<times> u64) option) \<Rightarrow> ('w \<Rightarrow> (u32 list \<times> nat) option) \<Rightarrow> bool \<Rightarrow> int \<Rightarrow> trial_obs \<Rightarrow> 'w \<Rightarrow> Slot \<Rightarrow>
   ('w \<times> Slot) option" where
  "worker_trial run_batch hist ok trial_ms ob w slot =
     (case (if ok then trial_loop run_batch (trial_ms * 1000000) (ob_t0 ob) w 0 0 (ob_nows ob)
            else Some (w, 0, 0, ob_t0 ob)) of
        None \<Rightarrow> None
      | Some (w', ops, batches, now) \<Rightarrow>
          Some (w', slot\<lparr>sl_cold_ns := ob_cold_ns ob, sl_pre_ns := ob_pre_ns ob, sl_cpu_start := ob_cpu_start ob,
            sl_start := ob_t0 ob, sl_end := now, sl_ops := ops, sl_batches := batches,
            sl_hist := (case hist w' of None \<Rightarrow> sl_hist slot | Some (h, u) \<Rightarrow> Some h),
            sl_hist_used := (case hist w' of None \<Rightarrow> sl_hist_used slot | Some (h, u) \<Rightarrow> u),
            sl_cpu_end := ob_cpu_end ob\<rparr>))"

section \<open>Latencies\<close>

record LatencySummary =
  ls_p99_us :: real
  ls_samples :: u64
  ls_overflow :: u64
  ls_min_us :: real
  ls_max_us :: real

definition no_latencies :: LatencySummary where
  "no_latencies = \<lparr>ls_p99_us = 0, ls_samples = 0, ls_overflow = 0, ls_min_us = 0, ls_max_us = 0\<rparr>"

text \<open>The histograms of the slots that have one.\<close>

definition slot_hists :: "Slot list \<Rightarrow> u32 list list" where
  "slot_hists slots = concat (map (\<lambda>s. case sl_hist s of None \<Rightarrow> [] | Some h \<Rightarrow> [h]) slots)"

definition hist_used :: "Slot list \<Rightarrow> nat" where
  "hist_used slots = foldl (\<lambda>u s. if sl_hist s \<noteq> None then max u (sl_hist_used s) else u) 0 slots"

definition bucket_count :: "u32 list list \<Rightarrow> nat \<Rightarrow> u64" where
  "bucket_count hs b = foldl (\<lambda>n h. n + ucast (h ! b)) 0 hs"

definition p99_rank :: "fp \<Rightarrow> u64 \<Rightarrow> nat" where
  "p99_rank A samples =
     nat \<lceil>madd A (rnd A (99 / 100)) (rnd A (real (unat samples))) (- rnd A (1 / 10 ^ 9))\<rceil>"

text \<open>The scan over the buckets: the locals are \<open>cum\<close>, \<open>have_min\<close> and the summary.\<close>

fun latency_scan ::
  "u32 list list \<Rightarrow> nat \<Rightarrow> nat list \<Rightarrow> u64 \<Rightarrow> bool \<Rightarrow> LatencySummary \<Rightarrow> LatencySummary" where
  "latency_scan hs rank [] cum have_min out = out"
| "latency_scan hs rank (b # bs) cum have_min out =
     (let here = bucket_count hs b in
      if here = 0 then latency_scan hs rank bs cum have_min out
      else
        let out = (if have_min then out else out\<lparr>ls_min_us := real b + 1\<rparr>);
            out = out\<lparr>ls_max_us := real b + 1\<rparr>;
            cum = cum + here;
            out = (if ls_p99_us out = 0 \<and> rank \<le> unat cum then out\<lparr>ls_p99_us := real b + 1\<rparr> else out)
        in latency_scan hs rank bs cum True out)"

definition merge_latencies :: "fp \<Rightarrow> Slot list \<Rightarrow> LatencySummary" where
  "merge_latencies A slots =
     (let hs = slot_hists slots; used = hist_used slots in
      if used = 0 then no_latencies
      else
        let samples = foldl (\<lambda>n b. n + bucket_count hs b) 0 [0..<used] in
        if samples = 0 then no_latencies
        else
          let overflow = (if kLatencyBuckets < used then bucket_count hs kLatencyOverflowBucket else 0) in
          latency_scan hs (p99_rank A samples) [0..<used] 0 False
            (no_latencies\<lparr>ls_samples := samples, ls_overflow := overflow\<rparr>))"

section \<open>The session\<close>

definition kLateTrialUs :: real where
  "kLateTrialUs = 1000"

text \<open>
  \<open>sn_extra\<close> is what the first worker's \<open>describe()\<close> returned; \<open>sn_effect\<close>, \<open>sn_cold_bytes\<close>,
  \<open>sn_huge_bytes\<close> and \<open>sn_batch_units\<close> its report.
\<close>

record 'j ConfigSession =
  sn_kind :: Workload
  sn_metrics :: "Metric list"
  sn_n_threads :: int
  sn_working_set :: u64
  sn_park :: bool
  sn_assigned :: "int list"
  sn_effect :: ColdEffect
  sn_cold_bytes :: u64
  sn_huge_bytes :: u64
  sn_batch_units :: u64
  sn_extra :: "(string \<times> 'j) list"
  sn_warmups_done :: int
  sn_timed_done :: int
  sn_late_trials :: int
  sn_active_ns :: u64
  sn_values :: "real list list"
  sn_results :: "'j Result list"

text \<open>What the main thread sees of a trial after the end barrier.\<close>

record trial_outcome =
  to_slots :: "Slot list"
  to_release :: int
  to_done :: int
  to_clock_ns :: nat

definition assigned_cpu :: "RunConfig \<Rightarrow> int list \<Rightarrow> nat \<Rightarrow> int" where
  "assigned_cpu cfg cpu_list i = (if rc_pin cfg then cpu_list ! (i mod length cpu_list) else -1)"

definition in_warmup :: "RunConfig \<Rightarrow> 'j ConfigSession \<Rightarrow> bool" where
  "in_warmup cfg s \<longleftrightarrow>
     sn_warmups_done s < rc_warmup_trials cfg \<or> sn_active_ns s < word_of_int (rc_warmup_ms cfg) * 1000000"

definition wants_more_trials :: "RunConfig \<Rightarrow> 'j ConfigSession \<Rightarrow> bool" where
  "wants_more_trials cfg s \<longleftrightarrow> in_warmup cfg s \<or> sn_timed_done s < rc_trials cfg"

text \<open>\<open>static_cast<double>\<close> of an unsigned integer, and division by a constant.\<close>

definition u64_real :: "fp \<Rightarrow> u64 \<Rightarrow> real" where
  "u64_real A n = rnd A (real (unat n))"

definition us_of_ns :: "fp \<Rightarrow> u64 \<Rightarrow> real" where
  "us_of_ns A ns = rnd A (u64_real A ns / 10 ^ 3)"

definition first_start :: "Slot list \<Rightarrow> int" where
  "first_start slots = foldl (\<lambda>t s. min t (sl_start s)) (sl_start (hd slots)) slots"

definition last_start :: "Slot list \<Rightarrow> int" where
  "last_start slots = foldl (\<lambda>t s. max t (sl_start s)) (sl_start (hd slots)) slots"

definition start_spread_us :: "fp \<Rightarrow> Slot list \<Rightarrow> real" where
  "start_spread_us A slots = us_of_ns A (ns_between (first_start slots) (last_start slots))"

definition per_thread_rate :: "fp \<Rightarrow> Slot \<Rightarrow> real" where
  "per_thread_rate A s =
     (let own_ns = ns_between (sl_start s) (sl_end s) in
      if own_ns \<noteq> 0 then rnd A (u64_real A (sl_ops s) / rnd A (u64_real A own_ns / 10 ^ 9)) else 0)"

definition pin_failures :: "Slot list \<Rightarrow> int" where
  "pin_failures slots = int (length (filter (\<lambda>s. 0 \<le> sl_assigned_cpu s \<and> sl_pin_errno s \<noteq> 0) slots))"

definition pin_violations :: "Slot list \<Rightarrow> int" where
  "pin_violations slots = int (length (filter (\<lambda>s. 0 \<le> sl_assigned_cpu s \<and> sl_pin_errno s = 0
     \<and> (sl_cpu_start s \<noteq> sl_assigned_cpu s \<or> sl_cpu_end s \<noteq> sl_assigned_cpu s)) slots))"

definition total_ops :: "Slot list \<Rightarrow> u64" where
  "total_ops slots = foldl (\<lambda>n s. n + sl_ops s) 0 slots"

definition trial_params ::
  "'j json_lib \<Rightarrow> fp \<Rightarrow> RunConfig \<Rightarrow> ClockCheck \<Rightarrow> 'j ConfigSession \<Rightarrow> trial_outcome \<Rightarrow> LatencySummary \<Rightarrow> (string \<times> 'j) list" where
  "trial_params L A cfg clock s t lat =
     (let slots = to_slots t;
          str = js_of_string L; u64 = js_of_u64 L; int' = js_of_int L; dbl = (\<lambda>x. js_of_double L (Num x));
          bool' = js_of_bool L; arr = js_array L;
          cold_sum = foldl (\<lambda>n sl. n + sl_cold_ns sl) 0 slots;
          cold_max = foldl (\<lambda>n sl. max n (sl_cold_ns sl)) 0 slots;
          pre_max = foldl (\<lambda>n sl. max n (sl_pre_ns sl)) 0 slots;
          spread = start_spread_us A slots;
          params =
            [(''cold'', str (coldeffect_to_string (sn_effect s))),
             (''cold_requested'', str (coldmode_to_string (rc_cold cfg))),
             (''cold_bytes'', u64 (sn_cold_bytes s)),
             (''cold_prep_mean_us'', dbl (rnd A (rnd A (u64_real A cold_sum / rnd A (of_int (sn_n_threads s))) / 10 ^ 3))),
             (''cold_prep_max_us'', dbl (us_of_ns A cold_max)),
             (''pre_trial_prep_max_us'', dbl (us_of_ns A pre_max)),
             (''huge_pages'', bool' (0 < sn_huge_bytes s)),
             (''huge_page_bytes'', u64 (sn_huge_bytes s)),
             (''pinned'', bool' (rc_pin cfg)),
             (''cpus'', arr (map int' (sn_assigned s))),
             (''interleaved'', bool' (sn_park s)),
             (''warmup_trials'', int' (rc_warmup_trials cfg)),
             (''warmup_ms'', int' (rc_warmup_ms cfg)),
             (''warmups_run'', int' (sn_warmups_done s)),
             (''trial_ms'', int' (rc_trial_ms cfg)),
             (''spin_ms'', int' (rc_spin_ms cfg)),
             (''seed'', u64 (rc_seed cfg)),
             (''ops'', u64 (total_ops slots)),
             (''unit_of_work'', str (workunit_to_string (work_unit_of (hd (sn_metrics s))))),
             (''batch_ops'', u64 (sn_batch_units s)),
             (''clock_res_ns'', u64 (cc_resolution_ns clock)),
             (''clock_call_ns'', dbl (cc_mean_call_ns clock)),
             (''start_spread_us'', dbl spread),
             (''late_start'', bool' (kLateTrialUs < spread)),
             (''release_to_first_start_us'', dbl (us_of_ns A (ns_between (to_release t) (first_start slots)))),
             (''per_thread_ops_per_s'', arr (map (\<lambda>sl. dbl (per_thread_rate A sl)) slots)),
             (''per_thread_cpu'', arr (map (\<lambda>sl. int' (sl_cpu_end sl)) slots)),
             (''per_thread_start_us'', arr (map (\<lambda>sl. dbl (us_of_ns A (ns_between (to_release t) (sl_start sl)))) slots)),
             (''pin_violations'', int' (pin_violations slots)),
             (''pin_failures'', int' (pin_failures slots))];
          params = foldl (\<lambda>ps (k, v). AList.update k v ps) params (sn_extra s)
      in if 0 < ls_samples lat then
           AList.update ''latency_overflow'' (u64 (ls_overflow lat))
             (AList.update ''latency_max_us'' (dbl (ls_max_us lat))
               (AList.update ''latency_min_us'' (dbl (ls_min_us lat))
                 (AList.update ''latency_samples'' (u64 (ls_samples lat)) params)))
         else params)"

text \<open>One trial: the new state of the session and the results handed to the progress callback.\<close>

definition trial_value :: "fp \<Rightarrow> Metric \<Rightarrow> LatencySummary \<Rightarrow> u64 \<Rightarrow> u64 \<Rightarrow> int \<Rightarrow> real" where
  "trial_value A m lat ops ns n_threads =
     (if value_rule_of m = latency_p99_us then ls_p99_us lat else value_from_units A m ops ns n_threads)"

definition run_one_trial ::
  "'j json_lib \<Rightarrow> fp \<Rightarrow> RunConfig \<Rightarrow> ClockCheck \<Rightarrow> trial_outcome \<Rightarrow> 'j ConfigSession \<Rightarrow> 'j ConfigSession \<times> 'j Result list" where
  "run_one_trial L A cfg clock t s =
     (let warmup = in_warmup cfg s;
          s1 = (if warmup then s\<lparr>sn_warmups_done := sn_warmups_done s + 1\<rparr> else s\<lparr>sn_timed_done := sn_timed_done s + 1\<rparr>);
          slots = to_slots t;
          ns = ns_between (to_release t) (to_done t);
          s2 = s1\<lparr>sn_active_ns := sn_active_ns s1 + ns\<rparr>;
          lat = merge_latencies A slots;
          params = js_object L (trial_params L A cfg clock s2 t lat);
          stamp = utc_now_rfc3339 (to_clock_ns t);
          value = (\<lambda>m. trial_value A m lat (total_ops slots) ns (sn_n_threads s));
          results = map (\<lambda>m. \<lparr>r_workload = sn_kind s, r_thread_count = sn_n_threads s,
            r_working_set_bytes = sn_working_set s, r_metric = m, r_value = Num (value m),
            r_trial = (if warmup then - sn_warmups_done s2 else sn_timed_done s2 - 1), r_timestamp = stamp,
            r_duration_ns = (if ns = 0 then 1 else ns), r_params = params\<rparr>) (sn_metrics s);
          s3 = (if warmup then s2
                else s2\<lparr>sn_values := map2 (\<lambda>vs m. vs @ [value m]) (sn_values s2) (sn_metrics s),
                        sn_results := sn_results s2 @ results\<rparr>);
          s4 = (if \<not> warmup \<and> kLateTrialUs < start_spread_us A slots then s3\<lparr>sn_late_trials := sn_late_trials s3 + 1\<rparr> else s3)
      in (s4, results))"

definition session_summary :: "fp \<Rightarrow> 'j ConfigSession \<Rightarrow> ClockCheck \<Rightarrow> ClockCheck \<Rightarrow> int \<Rightarrow> Metric \<Rightarrow> real list \<Rightarrow> Summary" where
  "session_summary A s canary_start canary_end attempts m vs =
     (let st = summarize A vs in
      \<lparr>s_workload = sn_kind s, s_metric = m, s_thread_count = sn_n_threads s, s_working_set_bytes = sn_working_set s,
       s_n = sint (ucast (ss_n st) :: 32 word), s_mean = Num (ss_mean st), s_median = ss_median st,
       s_stddev = Num (ss_stddev st), s_cov = Num (ss_cov st), s_min = Num (ss_min st), s_p5 = ss_p5 st, s_p95 = ss_p95 st,
       s_max = Num (ss_max st), s_mad = ss_mad st, s_late_trials = sn_late_trials s, s_canary_attempts = attempts,
       s_clock_call_ns_start = Num (cc_mean_call_ns canary_start), s_clock_call_ns_end = Num (cc_mean_call_ns canary_end)\<rparr>)"

definition emit ::
  "fp \<Rightarrow> ClockCheck \<Rightarrow> ClockCheck \<Rightarrow> int \<Rightarrow> 'j ConfigSession \<Rightarrow> 'j RunEnvelope \<Rightarrow> 'j ConfigSession \<times> 'j RunEnvelope" where
  "emit A canary_start canary_end attempts s out =
     (if sn_results s = [] then (s, out)
      else
        (s\<lparr>sn_results := []\<rparr>,
         out\<lparr>e_results := e_results out @ sn_results s,
            e_summary := e_summary out @ concat (map2 (\<lambda>m vs. if vs = [] then []
              else [session_summary A s canary_start canary_end attempts m vs]) (sn_metrics s) (sn_values s))\<rparr>))"

section \<open>The 99th percentile is the nearest rank\<close>

lemma rnd64_error:
  assumes "0 < x" "x < 2 powi (e + 1)" "- 1022 \<le> e"
  shows "\<bar>rnd64 x - x\<bar> \<le> 2 powi (e - 53)"
proof -
  have u: "ulp x \<le> 2 powi (e - 52)"
    unfolding ulp_def using expo_le [OF assms] by (intro power_int_increasing) simp_all
  have "rnd64 x - x = (of_int (rne (x / ulp x)) - x / ulp x) * ulp x"
    using assms(1) by (simp add: rnd64_def field_simps)
  then have "\<bar>rnd64 x - x\<bar> = \<bar>of_int (rne (x / ulp x)) - x / ulp x\<bar> * ulp x" by (simp add: abs_mult abs_of_pos)
  also have "\<dots> \<le> 1 / 2 * ulp x" by (intro mult_right_mono rne_error less_imp_le ulp_pos)
  also have "\<dots> \<le> 2 powi (e - 52) / 2" using u by simp
  also have "\<dots> = 2 powi (e - 53)" using power_int_add [of "2 :: real" "e - 53" 1] by simp
  finally show ?thesis .
qed

lemma ceiling_near:
  fixes n :: nat
  assumes "\<bar>v - (99 * real n / 100 - 1 / 10 ^ 9)\<bar> < 1 / 10 ^ 9"
  shows "nat \<lceil>v\<rceil> = (99 * n + 99) div 100"
proof -
  define m where "m = (99 * n + 99) div 100"
  have "99 * n \<le> 100 * m" "100 * m + 1 \<le> 99 * n + 100" unfolding m_def by linarith+
  then have "real (99 * n) \<le> real (100 * m)" "real (100 * m + 1) \<le> real (99 * n + 100)" by (simp_all only: of_nat_le_iff)
  then have m: "99 * real n \<le> 100 * real m" "100 * real m + 1 \<le> 99 * real n + 100" by simp_all
  have "v - (99 * real n / 100 - 1 / 10 ^ 9) < 1 / 10 ^ 9" "- (v - (99 * real n / 100 - 1 / 10 ^ 9)) < 1 / 10 ^ 9"
    using assms by (simp_all only: abs_less_iff)
  then have "real m - 1 < v" "v \<le> real m" using m by (simp_all add: field_simps)
  then have "\<lceil>v\<rceil> = int m" by (intro ceiling_unique) simp_all
  then show ?thesis by (simp add: m_def)
qed

lemma p99_rank_exact:
  assumes "0 < n" "n \<le> 1000000"
  shows "p99_rank (ieee64 c) (of_nat n) = (99 * n + 99) div 100"
proof -
  have n: "unat (of_nat n :: u64) = n" "rnd64 (real n) = real n"
    using assms by (simp_all add: u64_of_nat rnd64_nat)
  define a e where "a = rnd64 (99 / 100)" and "e = rnd64 (1 / 10 ^ 9)"
  define t :: real where "t = 1 / 10 ^ 16"
  have t: "(2 :: real) powi (- 54) \<le> t" "(2 :: real) powi (- 82) \<le> t" "(2 :: real) powi (- 34) \<le> 1 / 10 ^ 10"
    by (simp_all add: t_def power_int_minus)
  have a: "\<bar>a - 99 / 100\<bar> \<le> t" unfolding a_def using rnd64_error [of "99 / 100" "- 1"] t(1) by simp
  have e: "\<bar>e - 1 / 10 ^ 9\<bar> \<le> t" unfolding e_def using rnd64_error [of "1 / 10 ^ 9" "- 29"] t(2) by (simp add: power_int_minus)
  have a': "1 / 2 \<le> a" "a \<le> 1" using a unfolding abs_le_iff by (simp_all add: t_def)
  have e': "0 \<le> e" "e \<le> 1 / 4" using e unfolding abs_le_iff by (simp_all add: t_def)
  define p where "p = a * real n"
  have n': "1 \<le> real n" "real n \<le> 1000000" using assms by simp_all
  have p: "1 / 2 \<le> p" "p \<le> 1000000"
    using mult_mono [OF a'(1) n'(1)] mult_mono [OF a'(2) n'(2)] a' n' by (simp_all add: p_def)
  have "p - 99 / 100 * real n = (a - 99 / 100) * real n" by (simp add: p_def left_diff_distrib)
  then have "\<bar>p - 99 / 100 * real n\<bar> = \<bar>a - 99 / 100\<bar> * real n" by (simp add: abs_mult)
  also have "\<dots> \<le> t * 1000000" by (intro mult_mono a n'(2)) (simp_all add: t_def)
  finally have pe: "\<bar>p - 99 / 100 * real n\<bar> \<le> 1 / 10 ^ 10" by (simp add: t_def)
  have r: "\<bar>rnd64 x - x\<bar> \<le> 1 / 10 ^ 10" if "0 < x" "x \<le> 1000000" for x
    using rnd64_error [of x 19] that t(3) by simp
  have r1: "\<bar>rnd64 p - p\<bar> \<le> 1 / 10 ^ 10" using r p by simp
  have r2: "\<bar>rnd64 (p - e) - (p - e)\<bar> \<le> 1 / 10 ^ 10" using r [of "p - e"] p e' by simp
  have r3: "\<bar>rnd64 (rnd64 p - e) - (rnd64 p - e)\<bar> \<le> 1 / 10 ^ 10"
  proof (rule r)
    have "rnd64 (1 / 2) \<le> rnd64 p" "rnd64 p \<le> rnd64 (real 1000000)" using p by (auto intro: rnd64_mono)
    then have "1 / 2 \<le> rnd64 p" "rnd64 p \<le> 1000000" using rnd64_quarters(2) rnd64_nat [of 1000000] by simp_all
    then show "0 < rnd64 p - e" "rnd64 p - e \<le> 1000000" using e' by linarith+
  qed
  have t10: "t \<le> 1 / 10 ^ 10" by (simp add: t_def)
  have "\<bar>madd (ieee64 c) a (real n) (- e) - (99 * real n / 100 - 1 / 10 ^ 9)\<bar> \<le> 4 / 10 ^ 10"
    using r1 r2 r3 pe e t10 unfolding madd_def p_def [symmetric] abs_le_iff by (simp add: field_simps)
  then have "\<bar>madd (ieee64 c) a (real n) (- e) - (99 * real n / 100 - 1 / 10 ^ 9)\<bar> < 1 / 10 ^ 9" by (rule le_less_trans) simp
  then have "nat \<lceil>madd (ieee64 c) a (real n) (- e)\<rceil> = (99 * n + 99) div 100" by (rule ceiling_near)
  then show ?thesis unfolding p99_rank_def rnd_ieee64 n a_def e_def .
qed

text \<open>The counts as natural numbers.\<close>

definition bucket_nat :: "u32 list list \<Rightarrow> nat \<Rightarrow> nat" where
  "bucket_nat hs b = sum_list (map (\<lambda>h. unat (h ! b)) hs)"

lemma foldl_u64_sum: "foldl (\<lambda>n x. n + f x) (of_nat a) xs = (of_nat (a + sum_list (map g xs)) :: u64)"
  if "\<And>x. x \<in> set xs \<Longrightarrow> f x = of_nat (g x)"
  using that by (induction xs arbitrary: a) (simp_all add: add.assoc flip: of_nat_add)

lemma bucket_count_nat: "bucket_count hs b = of_nat (bucket_nat hs b)"
  using foldl_u64_sum [of hs "\<lambda>h. ucast (h ! b)" "\<lambda>h. unat (h ! b)" 0]
  by (simp add: bucket_count_def bucket_nat_def of_nat_unat)

definition below :: "u32 list list \<Rightarrow> nat \<Rightarrow> nat" where
  "below hs b = sum_list (map (bucket_nat hs) [0..<b])"

lemma below_Suc: "below hs (Suc b) = below hs b + bucket_nat hs b"
  by (simp add: below_def)

lemma below_mono: "a \<le> b \<Longrightarrow> below hs a \<le> below hs b"
  by (induction b) (auto simp: below_Suc le_Suc_eq)

lemma scan_keeps: "ls_p99_us out \<noteq> 0 \<Longrightarrow> ls_p99_us (latency_scan hs rank bs cum hm out) = ls_p99_us out"
  by (induction bs arbitrary: cum hm out) (simp_all add: Let_def)

lemma scan_p99:
  assumes "below hs used < 2 ^ 64" "below hs k < rank" "rank \<le> below hs used" "k \<le> used" "ls_p99_us out = 0"
  shows "\<exists>b\<ge>k. b < used \<and> ls_p99_us (latency_scan hs rank [k..<used] (of_nat (below hs k)) hm out) = real b + 1
    \<and> below hs b < rank \<and> rank \<le> below hs (Suc b)"
  using assms(2-5)
proof (induction "used - k" arbitrary: k hm out)
  case 0
  then show ?case by simp
next
  case (Suc d)
  then have ku: "k < used" by simp
  have upt: "[k..<used] = k # [Suc k..<used]" using ku by (simp add: upt_conv_Cons)
  have le: "below hs (Suc k) < 2 ^ 64" using below_mono [of "Suc k" used hs] ku assms(1) by simp
  have bk: "bucket_nat hs k < 2 ^ 64" using le by (simp add: below_Suc)
  have here: "bucket_count hs k = 0 \<longleftrightarrow> bucket_nat hs k = 0"
    using bk by (simp add: bucket_count_nat u64_of_nat_0)
  have cum: "of_nat (below hs k) + bucket_count hs k = (of_nat (below hs (Suc k)) :: u64)"
    by (simp add: bucket_count_nat below_Suc)
  have ucum: "unat (of_nat (below hs (Suc k)) :: u64) = below hs (Suc k)" using le by (simp add: u64_of_nat)
  define out' where "out' = (if hm then out else out\<lparr>ls_min_us := real k + 1\<rparr>)\<lparr>ls_max_us := real k + 1\<rparr>"
  have out': "ls_p99_us out' = 0" using Suc.prems(4) by (simp add: out'_def)
  show ?case
  proof (cases "rank \<le> below hs (Suc k)")
    case True
    then have "bucket_nat hs k \<noteq> 0" using Suc.prems(1) by (auto simp: below_Suc)
    then have "latency_scan hs rank [k..<used] (of_nat (below hs k)) hm out =
        latency_scan hs rank [Suc k..<used] (of_nat (below hs (Suc k))) True (out'\<lparr>ls_p99_us := real k + 1\<rparr>)"
      using True out' here cum ucum by (simp add: upt Let_def out'_def)
    then show ?thesis using True ku Suc.prems(1) by (intro exI [of _ k]) (simp add: scan_keeps)
  next
    case False
    have IH: "\<exists>b\<ge>Suc k. b < used \<and> ls_p99_us (latency_scan hs rank [Suc k..<used] (of_nat (below hs (Suc k))) hm' o') = real b + 1
        \<and> below hs b < rank \<and> rank \<le> below hs (Suc b)" if "ls_p99_us o' = 0" for hm' o'
      using Suc.hyps(1) [of "Suc k" o' hm'] Suc.hyps(2) Suc.prems(2) False ku that by simp
    show ?thesis
    proof (cases "bucket_nat hs k = 0")
      case True
      then have "below hs (Suc k) = below hs k" by (simp add: below_Suc)
      then show ?thesis using IH [OF Suc.prems(4), of hm] here True by (auto simp: upt Let_def intro: Suc_leD)
    next
      case nz: False
      then have "latency_scan hs rank [k..<used] (of_nat (below hs k)) hm out =
          latency_scan hs rank [Suc k..<used] (of_nat (below hs (Suc k))) True out'"
        using False here cum ucum by (simp add: upt Let_def out'_def)
      then show ?thesis using IH [OF out', of True] by (auto intro: Suc_leD)
    qed
  qed
qed

text \<open>
  The reported 99th percentile is the nearest rank over all threads: with up to a million
  recorded calls, under IEEE arithmetic, it is the upper edge of the one bucket in which the
  cumulative count of the merged histograms reaches \<open>\<lceil>0.99 n\<rceil>\<close>: fewer calls than that are in the
  buckets before it, and at least that many up to and including it.
\<close>

theorem p99_nearest_rank:
  fixes slots :: "Slot list" and n :: nat
  defines "hs \<equiv> slot_hists slots" and "used \<equiv> hist_used slots"
  assumes "n = below hs used" "0 < n" "n \<le> 1000000"
  shows "\<exists>b<used. ls_p99_us (merge_latencies (ieee64 c) slots) = real b + 1
      \<and> below hs b < (99 * n + 99) div 100 \<and> (99 * n + 99) div 100 \<le> below hs (Suc b)
    \<and> ls_samples (merge_latencies (ieee64 c) slots) = of_nat n"
proof -
  have used: "0 < used" using assms(3,4) by (cases used) (simp_all add: below_def)
  have samples: "foldl (\<lambda>n b. n + bucket_count hs b) 0 [0..<used] = (of_nat n :: u64)"
    using foldl_u64_sum [of "[0..<used]" "bucket_count hs" "bucket_nat hs" 0] assms(3)
    by (simp add: bucket_count_nat below_def)
  have nz: "(of_nat n :: u64) \<noteq> 0" using assms(4,5) by (simp add: u64_of_nat_0)
  define out where "out = no_latencies\<lparr>ls_samples := of_nat n,
    ls_overflow := (if kLatencyBuckets < used then bucket_count hs kLatencyOverflowBucket else 0)\<rparr>"
  have m: "merge_latencies (ieee64 c) slots = latency_scan hs ((99 * n + 99) div 100) [0..<used] 0 False out"
    using used nz samples unfolding merge_latencies_def Let_def hs_def [symmetric] used_def [symmetric]
    by (simp add: p99_rank_exact [OF assms(4,5)] out_def)
  have "ls_samples (latency_scan hs r bs cum hm o') = ls_samples o'" for r bs cum hm o'
    by (induction bs arbitrary: cum hm o') (simp_all add: Let_def)
  moreover have "(99 * n + 99) div 100 \<le> n" "0 < (99 * n + 99) div 100" using assms(4) by linarith+
  then have "\<exists>b\<ge>0. b < used \<and> ls_p99_us (latency_scan hs ((99 * n + 99) div 100) [0..<used] (of_nat (below hs 0)) False out) = real b + 1
      \<and> below hs b < (99 * n + 99) div 100 \<and> (99 * n + 99) div 100 \<le> below hs (Suc b)"
    using assms(3,5) by (intro scan_p99) (simp_all add: below_def out_def no_latencies_def)
  ultimately show ?thesis unfolding m by (auto simp: below_def out_def)
qed

theorem p99_nearest_rank_witness:
  "\<exists>b<2. ls_p99_us (merge_latencies (ieee64 True) [empty_slot\<lparr>sl_hist := Some [3, 1], sl_hist_used := 2\<rparr>]) = real b + 1
    \<and> below [[3, 1]] b < 4 \<and> 4 \<le> below [[3, 1]] (Suc b)"
proof -
  have "slot_hists [empty_slot\<lparr>sl_hist := Some [3, 1], sl_hist_used := 2\<rparr>] = [[3, 1]]"
    "hist_used [empty_slot\<lparr>sl_hist := Some [3, 1], sl_hist_used := 2\<rparr>] = 2"
    by (simp_all add: slot_hists_def hist_used_def)
  moreover have "[0..<2] = [0, Suc 0]" by (simp add: numeral_2_eq_2)
  then have "below [[3, 1]] 2 = 4" by (simp add: below_def bucket_nat_def)
  ultimately show ?thesis
    using p99_nearest_rank [of 4 "[empty_slot\<lparr>sl_hist := Some [3, 1], sl_hist_used := 2\<rparr>]" True] by auto
qed

section \<open>Trials are counted and kept\<close>

text \<open>
  A session between trials: one list of values per metric, all of the length of the timed trials;
  the buffered results are, trial by trial and metric by metric, those values; warm-up trials
  leave no result.
\<close>

definition session_results :: "Metric list \<Rightarrow> real list list \<Rightarrow> nat \<Rightarrow> (int \<times> Metric \<times> fpval) list" where
  "session_results ms vss n = concat (map (\<lambda>t. map2 (\<lambda>m vs. (int t, m, Num (vs ! t))) ms vss) [0..<n])"

definition session_inv :: "'j ConfigSession \<Rightarrow> bool" where
  "session_inv s \<longleftrightarrow> 0 \<le> sn_warmups_done s \<and> 0 \<le> sn_late_trials s \<and> sn_late_trials s \<le> sn_timed_done s
     \<and> length (sn_values s) = length (sn_metrics s) \<and> list_all (\<lambda>vs. int (length vs) = sn_timed_done s) (sn_values s)
     \<and> map (\<lambda>r. (r_trial r, r_metric r, r_value r)) (sn_results s) =
         session_results (sn_metrics s) (sn_values s) (nat (sn_timed_done s))"

lemma session_results_snoc:
  assumes "length vss = length ms" "length ys = length ms" "list_all (\<lambda>vs. length vs = n) vss"
  shows "session_results ms (map2 (\<lambda>vs y. vs @ [y]) vss ys) (Suc n) =
    session_results ms vss n @ map2 (\<lambda>m y. (int n, m, Num y)) ms ys"
proof -
  have len: "length (vss ! i) = n" if "i < length ms" for i using assms that by (simp add: list_all_length)
  have "map2 (\<lambda>m vs. (int t, m, Num (vs ! t))) ms (map2 (\<lambda>vs y. vs @ [y]) vss ys) =
      map2 (\<lambda>m vs. (int t, m, Num (vs ! t))) ms vss" if "t < n" for t
    using that assms(1,2) len by (intro nth_equalityI) (simp_all add: nth_append)
  moreover have "map2 (\<lambda>m vs. (int n, m, Num (vs ! n))) ms (map2 (\<lambda>vs y. vs @ [y]) vss ys) = map2 (\<lambda>m y. (int n, m, Num y)) ms ys"
    using assms(1,2) len by (intro nth_equalityI) (simp_all add: nth_append)
  moreover have "map (\<lambda>t. map2 (\<lambda>m vs. (int t, m, Num (vs ! t))) ms (map2 (\<lambda>vs y. vs @ [y]) vss ys)) [0..<n] =
      map (\<lambda>t. map2 (\<lambda>m vs. (int t, m, Num (vs ! t))) ms vss) [0..<n]"
    by (rule map_cong [OF refl], rule calculation(1)) simp
  ultimately show ?thesis unfolding session_results_def by (simp del: map_eq_conv)
qed

lemma run_one_trial_inv:
  assumes "session_inv s"
  shows "session_inv (fst (run_one_trial L A cfg clock t s))"
proof (cases "in_warmup cfg s")
  case True
  then show ?thesis using assms by (auto simp: run_one_trial_def Let_def session_inv_def)
next
  case False
  define n where "n = nat (sn_timed_done s)"
  have n: "sn_timed_done s = int n" using assms by (simp add: session_inv_def n_def)
  define v where "v = (\<lambda>m. trial_value A m (merge_latencies A (to_slots t)) (total_ops (to_slots t))
    (ns_between (to_release t) (to_done t)) (sn_n_threads s))"
  have lens: "length (sn_values s) = length (sn_metrics s)" "list_all (\<lambda>vs. length vs = n) (sn_values s)"
    using assms n by (simp_all add: session_inv_def list_all_iff)
  have vals: "map2 (\<lambda>vs m. vs @ [v m]) (sn_values s) (sn_metrics s) = map2 (\<lambda>vs y. vs @ [y]) (sn_values s) (map v (sn_metrics s))"
    using lens(1) by (intro nth_equalityI) simp_all
  have "map2 (\<lambda>m y. (int n, m, Num y)) (sn_metrics s) (map v (sn_metrics s)) = map (\<lambda>m. (int n, m, Num (v m))) (sn_metrics s)"
    by (intro nth_equalityI) simp_all
  then have res: "session_results (sn_metrics s) (map2 (\<lambda>vs m. vs @ [v m]) (sn_values s) (sn_metrics s)) (Suc n) =
      session_results (sn_metrics s) (sn_values s) n @ map (\<lambda>m. (int n, m, Num (v m))) (sn_metrics s)"
    using session_results_snoc [of "sn_values s" "sn_metrics s" "map v (sn_metrics s)" n] lens vals by simp
  have "list_all (\<lambda>vs. length vs = Suc n) (map2 (\<lambda>vs m. vs @ [v m]) (sn_values s) (sn_metrics s))"
    using lens by (simp add: list_all_length)
  moreover have "nat (1 + int n) = Suc n" by simp
  ultimately show ?thesis
    using assms False res lens n
    by (auto simp: run_one_trial_def Let_def session_inv_def v_def comp_def list_all_iff add.commute)
qed

section \<open>A trial measures whole batches\<close>

text \<open>
  What the slot of a worker says after a trial of \<open>ms\<close> milliseconds: some whole number \<open>k\<close> of batches,
  the operations of exactly these, and as end the first reading of the clock at which the length of
  the trial has passed.
\<close>

definition whole_batches :: "('w \<Rightarrow> ('w \<times> u64) option) \<Rightarrow> u64 \<Rightarrow> int \<Rightarrow> trial_obs \<Rightarrow> Slot \<Rightarrow> 'w \<Rightarrow> bool" where
  "whole_batches run_batch units ms ob slot w \<longleftrightarrow>
     (\<exists>w' slot' k. worker_trial run_batch (\<lambda>_. None) True ms ob w slot = Some (w', slot') \<and> 0 < k \<and> k \<le> length (ob_nows ob)
       \<and> sl_batches slot' = of_nat k \<and> sl_ops slot' = of_nat k * units
       \<and> sl_start slot' = ob_t0 ob \<and> sl_end slot' = ob_nows ob ! (k - 1) \<and> ms * 1000000 \<le> sl_end slot' - sl_start slot'
       \<and> (\<forall>j<k - 1. ob_nows ob ! j - ob_t0 ob < ms * 1000000))"

context workload_impl
begin

lemma worker_trial_whole:
  assumes "env_ok e" "init e = Inr w" "\<exists>now\<in>set (ob_nows ob). ms * 1000000 \<le> now - ob_t0 ob"
  shows "whole_batches run_batch (batch_units w) ms ob slot w"
proof -
  obtain w' k where "trial_loop run_batch (ms * 1000000) (ob_t0 ob) w 0 0 (ob_nows ob) =
      Some (w', of_nat k * batch_units w, of_nat k, ob_nows ob ! (k - 1))"
    "0 < k" "k \<le> length (ob_nows ob)" "ms * 1000000 \<le> ob_nows ob ! (k - 1) - ob_t0 ob"
    "\<forall>j<k - 1. ob_nows ob ! j - ob_t0 ob < ms * 1000000"
    using trial_loop_counts [OF init_ready [OF assms(1,2)] assms(3), of 0 0] by auto
  then show ?thesis by (simp add: whole_batches_def worker_trial_def) (rule exI [of _ k], simp)
qed

end

text \<open>The buffer a workload asks for has as many words as it asked for.\<close>

abbreviation alloc_exact :: "(u64 \<Rightarrow> u64 list result) \<Rightarrow> bool" where
  "alloc_exact alloc \<equiv> \<forall>bytes words. alloc bytes = Inr words \<longrightarrow> length words = unat bytes div 8"

text \<open>
  (C8) A trial measures whole batches: for every workload of the processor and the memory, set up by
  its own code, and every sequence of clock readings in which the length of the trial is reached,
  the worker's trial ends, its slot counts exactly the batches that ran and all their operations, it
  ends with the first reading past the length, and no load leaves a buffer on the way.
\<close>

theorem trial_counts_batches:
  assumes "\<exists>now\<in>set (ob_nows ob). ms * 1000000 \<le> now - ob_t0 ob" "alloc_exact alloc"
    "unat (bw_buffer_bytes_for (wc_working_set_bytes ctx)) < 2 ^ 63"
  shows "(cpu_int_setup ctx = Inr w1 \<longrightarrow> whole_batches (\<lambda>w. Some (cpu_int_run_batch w)) kBatchOps ms ob slot w1)
    \<and> (cpu_fp_setup (ieee64 c) ctx = Inr w2 \<longrightarrow> whole_batches (\<lambda>w. Some (cpu_fp_run_batch (ieee64 c) w)) kBatchOps ms ob slot w2)
    \<and> (cpu_hash_setup (alloc, ctx) = Inr w3 \<longrightarrow> whole_batches cpu_hash_run_batch (of_nat kHashBatchOps) ms ob slot w3)
    \<and> (bw_setup nt (alloc, ctx) = Inr w4 \<longrightarrow> whole_batches bw_run_batch (bw_batch_bytes w4) ms ob slot w4)
    \<and> (ml_setup alloc (wc_working_set_bytes ctx) (wc_seed ctx) (wc_thread_index ctx) = Inr w5 \<longrightarrow>
        whole_batches (\<lambda>w. map_option (\<lambda>(w', n). (w', of_nat n)) (ml_run_batch w)) (of_nat kBatchLoads) ms ob slot w5)"
  using assms cpu_int.worker_trial_whole [of ctx w1 ob ms slot] cpu_fp.worker_trial_whole [of c ctx w2 ob ms slot]
    cpu_hash.worker_trial_whole [of "(alloc, ctx)" w3 ob ms slot] mem_bw.worker_trial_whole [of "(alloc, ctx)" nt w4 ob ms slot]
    mem_latency.worker_trial_whole [of "(alloc, ctx)" w5 ob ms slot]
  by (simp add: ml_batch_units_def)

theorem trial_counts_batches_witness:
  "\<exists>w w' slot'. cpu_int_setup \<lparr>wc_thread_index = 0, wc_thread_count = 1, wc_working_set_bytes = 64, wc_seed = 7,
        wc_metric = M_cpu_int_ops, wc_options = None\<rparr> = Inr w
    \<and> worker_trial (\<lambda>w. Some (cpu_int_run_batch w)) (\<lambda>_. None) True 1
        \<lparr>ob_cold_ns = 0, ob_pre_ns = 0, ob_cpu_start = 0, ob_t0 = 10, ob_nows = [500000, 1000010], ob_cpu_end = 0\<rparr> w empty_slot = Some (w', slot')
    \<and> sl_batches slot' = 2 \<and> sl_end slot' = 1000010"
proof -
  define ctx where "ctx = \<lparr>wc_thread_index = 0, wc_thread_count = 1, wc_working_set_bytes = 64, wc_seed = 7,
        wc_metric = M_cpu_int_ops, wc_options = None\<rparr>"
  define ob where "ob = \<lparr>ob_cold_ns = 0, ob_pre_ns = 0, ob_cpu_start = 0, ob_t0 = 10, ob_nows = [500000, 1000010], ob_cpu_end = 0\<rparr>"
  obtain w where w: "cpu_int_setup ctx = Inr w" by (simp add: cpu_int_setup_def Let_def)
  have "whole_batches (\<lambda>w. Some (cpu_int_run_batch w)) kBatchOps 1 ob empty_slot w"
    using trial_counts_batches [of ob 1 "\<lambda>bytes. Inr (replicate (unat bytes div 8) 0)" ctx w] w
    by (simp add: ob_def ctx_def bw_buffer_bytes_for_def)
  then obtain w' slot' k where k: "worker_trial (\<lambda>w. Some (cpu_int_run_batch w)) (\<lambda>_. None) True 1 ob w empty_slot = Some (w', slot')"
      "0 < k" "k \<le> 2" "sl_batches slot' = of_nat k" "sl_end slot' = [500000, 1000010] ! (k - 1)" "1000000 \<le> sl_end slot' - 10"
    by (auto simp: whole_batches_def ob_def worker_trial_def split: option.splits)
  have "k = 2"
  proof (rule ccontr)
    assume "k \<noteq> 2"
    then have "k = 1" using k(2,3) by simp
    then show False using k(5,6) by simp
  qed
  then show ?thesis using w k unfolding ctx_def ob_def by (intro exI [of _ w] exI [of _ w'] exI [of _ slot']) simp
qed

end
