(* ===== verification/Describe.thy ===== *)
theory Describe
  imports Session
begin

text \<open>
  What a workload says about itself: the \<open>describe()\<close> functions of \<^verbatim>\<open>mem_bw.cpp\<close>,
  \<^verbatim>\<open>mem_latency.cpp\<close> and \<^verbatim>\<open>disk_io.cpp\<close>, as the entries of the JSON object they return. What the
  allocator granted is an argument (the buffer record of the theory \<open>Cache\<close>).
\<close>

definition mem_bw_describe :: "'j json_lib \<Rightarrow> Buffer \<Rightarrow> MemBwWorkload \<Rightarrow> (string \<times> 'j) list" where
  "mem_bw_describe L buf w =
     [(''mem_mode'', js_of_string L (case bw_mode w of Mode_read \<Rightarrow> ''read'' | Mode_write \<Rightarrow> ''write'' | Mode_copy \<Rightarrow> ''copy'')),
      (''buffer_bytes'', js_of_u64 L (b_size buf)),
      (''working_set_bytes'', js_of_u64 L (bw_bytes w)),
      (''passes_per_batch'', js_of_u64 L (bw_passes w)),
      (''nt'', js_of_bool L (bw_nt_requested w)),
      (''nt_effective'', js_of_bool L (bw_nt w)),
      (''huge_pages_requested'', js_of_bool L (b_huge_requested buf))]"

definition mem_latency_describe ::
  "'j json_lib \<Rightarrow> Buffer \<Rightarrow> string option \<Rightarrow> MemLatencyWorkload \<Rightarrow> (string \<times> 'j) list" where
  "mem_latency_describe L buf thp_file w =
     [(''chase_lines'', js_of_u64 L (ml_lines w)),
      (''buffer_bytes'', js_of_u64 L (b_size buf)),
      (''line_bytes'', js_of_u64 L kCacheLine),
      (''batch_loads'', js_of_u64 L (of_nat kBatchLoads)),
      (''huge_pages_requested'', js_of_bool L (b_huge_requested buf)),
      (''buffer_huge_page_bytes'', js_of_u64 L (b_huge_granted buf)),
      (''buffer_huge_pages'', js_of_bool L (0 < b_huge_granted buf)),
      (''thp_policy'', js_of_string L (thp_policy thp_file))]"

definition base_describe :: "'j json_lib \<Rightarrow> 'a disk_base_scheme \<Rightarrow> (string \<times> 'j) list" where
  "base_describe L d =
     [(''disk_path'', js_of_string L (d_path d)),
      (''file_bytes'', js_of_u64 L (d_file_bytes d)),
      (''block_bytes'', js_of_u64 L (d_block d)),
      (''queue_depth'', js_of_int L (d_thread_count d)),
      (''o_direct'', js_of_bool L True),
      (''o_dsync'', js_of_bool L (d_dsync d)),
      (''fadvise_dontneed'', js_of_bool L True)]"

definition disk_seq_describe :: "'j json_lib \<Rightarrow> disk_seq \<Rightarrow> (string \<times> 'j) list" where
  "disk_seq_describe L d = base_describe L d @
     [(''blocks_per_batch'', js_of_u64 L (of_nat kBlocksPerBatch)),
      (''fdatasync_per_batch'', js_of_bool L (d_writing d)),
      (''region_offset'', js_of_u64 L (ds_region_off d)),
      (''region_bytes'', js_of_u64 L (ds_region_len d))]"

definition disk_rand_describe :: "'j json_lib \<Rightarrow> disk_rand \<Rightarrow> (string \<times> 'j) list" where
  "disk_rand_describe L d = base_describe L d @
     [(''ios_per_batch'', js_of_u64 L (of_nat kIosPerBatch)),
      (''blocks_in_file'', js_of_u64 L (dr_blocks d)),
      (''latency_bucket_us'', js_of_int L 1),
      (''latency_bucket_count'', js_of_u64 L (of_nat kLatencyHistogramSize))]"

text \<open>The keys the runner itself writes into \<open>params\<close>, before and after it merges the description.\<close>

definition runner_keys :: "string list" where
  "runner_keys =
     [''cold'', ''cold_requested'', ''cold_bytes'', ''cold_prep_mean_us'', ''cold_prep_max_us'',
      ''pre_trial_prep_max_us'', ''huge_pages'', ''huge_page_bytes'', ''pinned'', ''cpus'', ''interleaved'',
      ''warmup_trials'', ''warmup_ms'', ''warmups_run'', ''trial_ms'', ''spin_ms'', ''seed'', ''ops'',
      ''unit_of_work'', ''batch_ops'', ''clock_res_ns'', ''clock_call_ns'', ''start_spread_us'', ''late_start'',
      ''release_to_first_start_us'', ''per_thread_ops_per_s'', ''per_thread_cpu'', ''per_thread_start_us'',
      ''pin_violations'', ''pin_failures'', ''latency_samples'', ''latency_min_us'', ''latency_max_us'',
      ''latency_overflow'']"

definition extra_ok :: "(string \<times> 'j) list \<Rightarrow> bool" where
  "extra_ok kvs \<longleftrightarrow> list_all (\<lambda>kv. fst kv \<notin> set runner_keys) kvs"

text \<open>No workload overwrites an entry of the runner.\<close>

lemma describe_extra_ok:
  "extra_ok (mem_bw_describe L buf w)" "extra_ok (mem_latency_describe L buf f w')"
  "extra_ok (disk_seq_describe L ds)" "extra_ok (disk_rand_describe L dr)" "extra_ok []"
  by (simp_all add: extra_ok_def runner_keys_def mem_bw_describe_def mem_latency_describe_def base_describe_def
      disk_seq_describe_def disk_rand_describe_def)

end
