(* ===== verification/Runner.thy ===== *)
theory Runner
  imports Describe
begin

text \<open>
  \<open>run_benchmarks\<close> of \<^verbatim>\<open>engine/src/runner.cpp\<close>: the checks of the configuration, the list of
  configurations to measure, the conditions that stop a run, and the two ways to walk the list
  (one configuration after the other with re-runs on a contended host, or trial by trial in
  rounds). What the run observes (clocks, trials, set-up of the workers) is an argument. An
  observation list that ends too early gives \<open>None\<close>; an exception is on the left of the result.
  Warnings on the error stream are not modelled; the progress line is in \<open>Progress\<close>.
\<close>

section \<open>Stopping\<close>

datatype StopReason = stop_none | aborted | timed_out | write_budget

record stop_obs =
  so_abort :: bool
  so_bytes_written :: u64
  so_now :: int

text \<open>\<open>deadline\<close> 0 is the zero time point, which means no deadline.\<close>

definition should_stop :: "RunConfig \<Rightarrow> int \<Rightarrow> stop_obs \<Rightarrow> StopReason" where
  "should_stop cfg deadline obs =
     (if so_abort obs then aborted
      else if 0 < wo_write_budget_bytes (rc_opts cfg) \<and> wo_write_budget_bytes (rc_opts cfg) \<le> so_bytes_written obs
      then write_budget
      else if deadline \<noteq> 0 \<and> deadline \<le> so_now obs then timed_out
      else stop_none)"

text \<open>
  \<open>duration_cast\<close> from seconds in \<open>double\<close> to nanoseconds in 64 bits. A value out of range is
  undefined behaviour of the source; the instruction of the target yields the smallest integer.
\<close>

definition cast_i64 :: "real \<Rightarrow> int" where
  "cast_i64 x =
     (let i = (if 0 \<le> x then \<lfloor>x\<rfloor> else \<lceil>x\<rceil>) in if - (2 ^ 63) \<le> i \<and> i < 2 ^ 63 then i else - (2 ^ 63))"

definition run_deadline :: "fp \<Rightarrow> RunConfig \<Rightarrow> int \<Rightarrow> int" where
  "run_deadline A cfg now =
     (case rc_max_seconds cfg of
        Num x \<Rightarrow> if 0 < x then now + cast_i64 (rnd A (x * 10 ^ 9)) else 0
      | _ \<Rightarrow> 0)"

abbreviation kCanaryMaxSamples :: int where
  "kCanaryMaxSamples \<equiv> 2000000"

text \<open>In microseconds.\<close>

abbreviation kCanaryWindow :: int where
  "kCanaryWindow \<equiv> 8000"

abbreviation kCanaryMaxRatio :: real where
  "kCanaryMaxRatio \<equiv> 3"

type_synonym clock_obs = "clock \<times> (u64 \<times> u64) option"

definition canary :: "fp \<Rightarrow> clock_obs \<Rightarrow> ClockCheck" where
  "canary A = (\<lambda>(clk, getres). clock_selftest A clk getres kCanaryMaxSamples kCanaryWindow)"

definition canary_clean :: "fp \<Rightarrow> ClockCheck \<Rightarrow> bool" where
  "canary_clean A c \<longleftrightarrow> cc_monotonic c \<and> contention_ratio A c \<le> kCanaryMaxRatio"

section \<open>Configurations\<close>

record ConfigSpec =
  sp_kind :: Workload
  sp_metrics :: "Metric list"
  sp_threads :: int
  sp_working_set :: u64

definition validate_config :: "RunConfig \<Rightarrow> unit result" where
  "validate_config cfg =
     (if rc_trials cfg < 1 then Inl (Invalid_argument ''trials must be >= 1'')
      else if rc_warmup_trials cfg < 0 then Inl (Invalid_argument ''warmup_trials must be >= 0'')
      else if rc_warmup_ms cfg < 0 then Inl (Invalid_argument ''warmup_ms must be >= 0'')
      else if rc_trial_ms cfg < 1 then Inl (Invalid_argument ''trial_ms must be >= 1'')
      else if fp_gt (Num 0) (rc_max_seconds cfg) \<or> \<not> isfinite (rc_max_seconds cfg) then
        Inl (Invalid_argument ''max_seconds must be >= 0 and finite'')
      else if \<not> list_all (\<lambda>n. 1 \<le> n) (rc_thread_counts cfg) then Inl (Invalid_argument ''thread_count must be >= 1'')
      else if \<not> list_all (\<lambda>c. 0 \<le> c) (rc_cpus cfg) then Inl (Invalid_argument ''cpu ids must be >= 0'')
      else Inr ())"

definition run_metrics :: "RunConfig \<Rightarrow> Metric list" where
  "run_metrics cfg = (if rc_metrics cfg = [] then concat (map metrics_of (rc_workloads cfg)) else rc_metrics cfg)"

definition metric_specs :: "RunConfig \<Rightarrow> Metric \<Rightarrow> ConfigSpec list result" where
  "metric_specs cfg metric =
     (let kind = workload_of metric in
      if \<not> is_implemented kind then
        Inl (Runtime_error (''workload '' @ quoted (workload_to_string kind) @ '' is not implemented yet''))
      else
        let grp = metric # riders_of metric in
        Inr (concat (map (\<lambda>threads. map (\<lambda>ws.
          \<lparr>sp_kind = kind, sp_metrics = grp, sp_threads = threads, sp_working_set = effective_working_set kind ws\<rparr>)
            (rc_working_sets cfg)) (rc_thread_counts cfg))))"

definition run_specs :: "RunConfig \<Rightarrow> ConfigSpec list result" where
  "run_specs cfg = rbind (rmap (metric_specs cfg) (run_metrics cfg)) (\<lambda>sps. Inr (concat sps))"

section \<open>Sessions\<close>

record 'j WorkerReport =
  wr_effect :: ColdEffect
  wr_bytes :: u64
  wr_huge_bytes :: u64
  wr_batch_units :: u64
  wr_extra :: "(string \<times> 'j) list"

text \<open>
  What starting a pool observes: an exception of \<open>prepare_config\<close>; the workers whose set-up
  failed, with the text of the exception, in the order in which they take the lock; and the
  report of worker 0.
\<close>

record 'j pool_env =
  pe_prepare :: "exn option"
  pe_failures :: "(int \<times> string) list"
  pe_report :: "'j WorkerReport"

definition new_session :: "RunConfig \<Rightarrow> int list \<Rightarrow> bool \<Rightarrow> ConfigSpec \<Rightarrow> 'j WorkerReport \<Rightarrow> 'j ConfigSession" where
  "new_session cfg cpu_list park sp rep =
     \<lparr>sn_kind = sp_kind sp, sn_metrics = sp_metrics sp, sn_n_threads = sp_threads sp,
      sn_working_set = sp_working_set sp, sn_park = park,
      sn_assigned = (if rc_pin cfg then map (assigned_cpu cfg cpu_list) [0..<nat (sp_threads sp)] else []),
      sn_effect = wr_effect rep, sn_cold_bytes = wr_bytes rep, sn_huge_bytes = wr_huge_bytes rep,
      sn_batch_units = wr_batch_units rep, sn_extra = wr_extra rep,
      sn_warmups_done = 0, sn_timed_done = 0, sn_late_trials = 0, sn_active_ns = 0,
      sn_values = replicate (length (sp_metrics sp)) [], sn_results = []\<rparr>"

text \<open>\<open>make_session\<close>, \<open>prepare\<close> and \<open>start\<close>.\<close>

definition start_session ::
  "RunConfig \<Rightarrow> int list \<Rightarrow> bool \<Rightarrow> ConfigSpec \<Rightarrow> 'j pool_env \<Rightarrow> 'j ConfigSession result" where
  "start_session cfg cpu_list park sp env =
     (case pe_prepare env of
        Some e \<Rightarrow> Inl e
      | None \<Rightarrow>
          (case pe_failures env of
             (i, what) # _ \<Rightarrow> Inl (Runtime_error (''worker '' @ int_to_dec i @ '': setup failed: '' @ what))
           | [] \<Rightarrow> Inr (new_session cfg cpu_list park sp (pe_report env))))"

section \<open>One configuration after the other\<close>

text \<open>\<open>while (sess->wants_more_trials() && !should_stop(stop)) sess->run_one_trial(progress)\<close>.\<close>

fun session_loop ::
  "'j json_lib \<Rightarrow> fp \<Rightarrow> RunConfig \<Rightarrow> int \<Rightarrow> ClockCheck \<Rightarrow> (stop_obs \<times> trial_outcome) list \<Rightarrow> 'j ConfigSession \<Rightarrow>
   ('j ConfigSession \<times> StopReason) option" where
  "session_loop L A cfg deadline clock [] s = (if wants_more_trials cfg s then None else Some (s, stop_none))"
| "session_loop L A cfg deadline clock ((obs, t) # rest) s =
     (if \<not> wants_more_trials cfg s then Some (s, stop_none)
      else if should_stop cfg deadline obs \<noteq> stop_none then Some (s, should_stop cfg deadline obs)
      else session_loop L A cfg deadline clock rest (fst (run_one_trial L A cfg clock t s)))"

record 'j attempt_env =
  ae_canary_start :: clock_obs
  ae_now :: int
  ae_pool :: "'j pool_env"
  ae_trials :: "(stop_obs \<times> trial_outcome) list"
  ae_canary_end :: clock_obs

text \<open>The back-off of 250 ms must end before the deadline.\<close>

definition room_to_retry :: "int \<Rightarrow> int \<Rightarrow> bool" where
  "room_to_retry deadline now \<longleftrightarrow> deadline = 0 \<or> now + 250000000 < deadline"

text \<open>The attempts at one configuration; \<open>attempt\<close> were made before.\<close>

fun run_attempts ::
  "'j json_lib \<Rightarrow> fp \<Rightarrow> RunConfig \<Rightarrow> int \<Rightarrow> ClockCheck \<Rightarrow> int list \<Rightarrow> ConfigSpec \<Rightarrow> 'j attempt_env list \<Rightarrow> int \<Rightarrow>
   'j RunEnvelope \<Rightarrow> ('j RunEnvelope \<times> StopReason) result option" where
  "run_attempts L A cfg deadline clock cpus sp [] attempt out = None"
| "run_attempts L A cfg deadline clock cpus sp (env # envs) attempt out =
     (let attempt = attempt + 1;
          last_attempt = rc_canary_retries cfg < attempt;
          canary_start = canary A (ae_canary_start env);
          room = room_to_retry deadline (ae_now env) in
      if \<not> canary_clean A canary_start \<and> \<not> last_attempt \<and> room then
        run_attempts L A cfg deadline clock cpus sp envs attempt out
      else
        case start_session cfg cpus False sp (ae_pool env) of
          Inl e \<Rightarrow> Some (Inl e)
        | Inr s \<Rightarrow>
            (case session_loop L A cfg deadline clock (ae_trials env) s of
               None \<Rightarrow> None
             | Some (s', stop) \<Rightarrow>
                 let canary_end = canary A (ae_canary_end env) in
                 if \<not> canary_clean A canary_end \<and> \<not> last_attempt \<and> stop = stop_none \<and> room then
                   run_attempts L A cfg deadline clock cpus sp envs attempt out
                 else Some (Inr (snd (emit A canary_start canary_end attempt s' out), stop))))"

fun run_sequential ::
  "'j json_lib \<Rightarrow> fp \<Rightarrow> RunConfig \<Rightarrow> int \<Rightarrow> ClockCheck \<Rightarrow> int list \<Rightarrow> ConfigSpec list \<Rightarrow> 'j attempt_env list list \<Rightarrow>
   'j RunEnvelope \<Rightarrow> ('j RunEnvelope \<times> StopReason) result option" where
  "run_sequential L A cfg deadline clock cpus [] envs out = Some (Inr (out, stop_none))"
| "run_sequential L A cfg deadline clock cpus (sp # sps) [] out = None"
| "run_sequential L A cfg deadline clock cpus (sp # sps) (env # envs) out =
     (case run_attempts L A cfg deadline clock cpus sp env 0 out of
        Some (Inr (out', stop)) \<Rightarrow>
          if stop \<noteq> stop_none then Some (Inr (out', stop))
          else run_sequential L A cfg deadline clock cpus sps envs out'
      | r \<Rightarrow> r)"

section \<open>Interleaved\<close>

text \<open>One round over the sessions: their new state, whether any trial ran, and the reason to stop.\<close>

fun round_trials ::
  "'j json_lib \<Rightarrow> fp \<Rightarrow> RunConfig \<Rightarrow> int \<Rightarrow> ClockCheck \<Rightarrow> (stop_obs \<times> trial_outcome) list \<Rightarrow> 'j ConfigSession list \<Rightarrow>
   ('j ConfigSession list \<times> bool \<times> StopReason) option" where
  "round_trials L A cfg deadline clock obs [] = Some ([], False, stop_none)"
| "round_trials L A cfg deadline clock [] (s # ss) = None"
| "round_trials L A cfg deadline clock ((obs, t) # rest) (s # ss) =
     (if should_stop cfg deadline obs \<noteq> stop_none then Some (s # ss, False, should_stop cfg deadline obs)
      else
        let more = wants_more_trials cfg s; s' = (if more then fst (run_one_trial L A cfg clock t s) else s) in
        case round_trials L A cfg deadline clock rest ss of
          None \<Rightarrow> None
        | Some (ss', any, stop) \<Rightarrow> Some (s' # ss', more \<or> any, stop))"

fun round_loop ::
  "'j json_lib \<Rightarrow> fp \<Rightarrow> RunConfig \<Rightarrow> int \<Rightarrow> ClockCheck \<Rightarrow> (stop_obs \<times> trial_outcome) list list \<Rightarrow>
   'j ConfigSession list \<Rightarrow> ('j ConfigSession list \<times> StopReason) option" where
  "round_loop L A cfg deadline clock [] ss = None"
| "round_loop L A cfg deadline clock (obs # rest) ss =
     (case round_trials L A cfg deadline clock obs ss of
        None \<Rightarrow> None
      | Some (ss', any, stop) \<Rightarrow>
          if any \<and> stop = stop_none then round_loop L A cfg deadline clock rest ss' else Some (ss', stop))"

record 'j interleave_env =
  ie_canary_start :: clock_obs
  ie_pools :: "'j pool_env list"
  ie_rounds :: "(stop_obs \<times> trial_outcome) list list"
  ie_canary_end :: clock_obs

definition emit_all :: "fp \<Rightarrow> ClockCheck \<Rightarrow> ClockCheck \<Rightarrow> 'j ConfigSession list \<Rightarrow> 'j RunEnvelope \<Rightarrow> 'j RunEnvelope" where
  "emit_all A canary_start canary_end ss out = foldl (\<lambda>out s. snd (emit A canary_start canary_end 1 s out)) out ss"

definition run_interleaved ::
  "'j json_lib \<Rightarrow> fp \<Rightarrow> RunConfig \<Rightarrow> int \<Rightarrow> ClockCheck \<Rightarrow> int list \<Rightarrow> ConfigSpec list \<Rightarrow> 'j interleave_env \<Rightarrow>
   'j RunEnvelope \<Rightarrow> ('j RunEnvelope \<times> StopReason) result option" where
  "run_interleaved L A cfg deadline clock cpus sps env out =
     (if length (ie_pools env) < length sps then None
      else
        case rmap (\<lambda>(sp, pool). start_session cfg cpus True sp pool) (zip sps (ie_pools env)) of
          Inl e \<Rightarrow> Some (Inl e)
        | Inr ss \<Rightarrow>
            (case round_loop L A cfg deadline clock (ie_rounds env) ss of
               None \<Rightarrow> None
             | Some (ss', stop) \<Rightarrow>
                 Some (Inr (emit_all A (canary A (ie_canary_start env)) (canary A (ie_canary_end env)) ss' out, stop))))"

section \<open>The run\<close>

record 'j run_env =
  re_id_seed :: u64
  re_id_index :: nat
  re_started_ns :: nat
  re_hardware_concurrency :: int
  re_clock :: clock_obs
  re_deadline_now :: int
  re_attempts :: "'j attempt_env list list"
  re_interleave :: "'j interleave_env"
  re_finished_ns :: nat

definition cpu_order :: "RunConfig \<Rightarrow> MachineInfo \<Rightarrow> int \<Rightarrow> int list" where
  "cpu_order cfg machine hardware =
     (let logical = (if 0 < m_logical_cpus machine then m_logical_cpus machine else hardware) in
      if rc_cpus cfg = [] then default_cpu_list (max logical 1) else rc_cpus cfg)"

definition run_benchmarks ::
  "'j json_lib \<Rightarrow> fp \<Rightarrow> RunConfig \<Rightarrow> MachineInfo \<Rightarrow> string list \<Rightarrow> 'j run_env \<Rightarrow> ('j RunEnvelope \<times> StopReason) result option" where
  "run_benchmarks L A cfg machine argv env =
     (case validate_config cfg of
        Inl e \<Rightarrow> Some (Inl e)
      | Inr _ \<Rightarrow>
          let run = \<lparr>e_schema_version = 1, e_run_id = new_run_id (re_id_seed env) (re_id_index env),
                e_started_at = utc_now_rfc3339 (re_started_ns env), e_finished_at = [], e_machine = machine,
                e_argv = argv, e_results = [], e_summary = []\<rparr>;
              cpus = cpu_order cfg machine (re_hardware_concurrency env);
              clock = canary A (re_clock env);
              deadline = run_deadline A cfg (re_deadline_now env) in
          case run_specs cfg of
            Inl e \<Rightarrow> Some (Inl e)
          | Inr sps \<Rightarrow>
              (case (if rc_interleave cfg then run_interleaved L A cfg deadline clock cpus sps (re_interleave env) run
                     else run_sequential L A cfg deadline clock cpus sps (re_attempts env) run) of
                 Some (Inr (run, stop)) \<Rightarrow>
                   Some (Inr (run\<lparr>e_finished_at := utc_now_rfc3339 (re_finished_ns env)\<rparr>, stop))
               | r \<Rightarrow> r))"

section \<open>A trial keeps a session in order\<close>

text \<open>What is known of a configuration, of an observed trial and of the state between two trials.\<close>

definition spec_ok :: "ConfigSpec \<Rightarrow> bool" where
  "spec_ok sp \<longleftrightarrow> sp_metrics sp \<noteq> [] \<and> list_all (\<lambda>m. workload_of m = sp_kind sp) (sp_metrics sp)
     \<and> 1 \<le> sp_threads sp \<and> sp_threads sp < 2 ^ 31"

definition trial_ok :: "trial_outcome \<Rightarrow> bool" where
  "trial_ok t \<longleftrightarrow> list_all (\<lambda>sl. sl_hist_used sl \<le> kLatencyHistogramSize) (to_slots t) \<and> to_clock_ns t < 240784704000000000000"

definition good_double :: "real \<Rightarrow> bool" where
  "good_double x \<longleftrightarrow> rnd64 x = x \<and> 0 \<le> x"

definition result_of_spec :: "ConfigSpec \<Rightarrow> 'j Result \<Rightarrow> bool" where
  "result_of_spec sp r \<longleftrightarrow> r_workload r = sp_kind sp \<and> r_thread_count r = sp_threads sp \<and> r_working_set_bytes r = sp_working_set sp"

definition session_good :: "'j json_lib \<Rightarrow> RunConfig \<Rightarrow> ConfigSpec \<Rightarrow> 'j ConfigSession \<Rightarrow> bool" where
  "session_good L cfg sp s \<longleftrightarrow> session_inv s \<and> sn_timed_done s \<le> rc_trials cfg
     \<and> sn_kind s = sp_kind sp \<and> sn_metrics s = sp_metrics sp \<and> sn_n_threads s = sp_threads sp \<and> sn_working_set s = sp_working_set sp
     \<and> list_all (list_all good_double) (sn_values s) \<and> extra_ok (sn_extra s)
     \<and> list_all (\<lambda>r. result_of_spec sp r \<and> result_ok r \<and> result_valid L r) (sn_results s)"

lemma good_double_nat: "n \<le> 2 ^ 53 \<Longrightarrow> good_double (real n)"
  by (simp add: good_double_def rnd64_nat)

lemma scan_p99_range:
  "ls_p99_us (latency_scan hs rank bs cum hm out) \<in> insert (ls_p99_us out) ((\<lambda>b. real b + 1) ` set bs)"
proof (induction bs arbitrary: cum hm out)
  case (Cons b bs)
  define out1 where "out1 = (if hm then out else out\<lparr>ls_min_us := real b + 1\<rparr>)\<lparr>ls_max_us := real b + 1\<rparr>"
  define cum' where "cum' = cum + bucket_count hs b"
  define out2 where "out2 = (if ls_p99_us out1 = 0 \<and> rank \<le> unat cum' then out1\<lparr>ls_p99_us := real b + 1\<rparr> else out1)"
  have "ls_p99_us out2 \<in> {ls_p99_us out, real b + 1}" by (simp add: out2_def out1_def)
  moreover have "latency_scan hs rank (b # bs) cum hm out =
      (if bucket_count hs b = 0 then latency_scan hs rank bs cum hm out else latency_scan hs rank bs cum' True out2)"
    by (simp add: Let_def out2_def out1_def cum'_def)
  ultimately show ?case using Cons [of cum hm out] Cons [of cum' True out2] by auto
qed simp

lemma hist_used_bound: "list_all (\<lambda>sl. sl_hist_used sl \<le> k) slots \<Longrightarrow> hist_used slots \<le> k"
proof -
  have "list_all (\<lambda>sl. sl_hist_used sl \<le> k) slots \<Longrightarrow> u \<le> k \<Longrightarrow>
      foldl (\<lambda>u s. if sl_hist s \<noteq> None then max u (sl_hist_used s) else u) u slots \<le> k" for u
    by (induction slots arbitrary: u) auto
  then show "list_all (\<lambda>sl. sl_hist_used sl \<le> k) slots \<Longrightarrow> hist_used slots \<le> k" by (simp add: hist_used_def)
qed

lemma merged_p99_double:
  assumes "list_all (\<lambda>sl. sl_hist_used sl \<le> kLatencyHistogramSize) slots"
  shows "good_double (ls_p99_us (merge_latencies A slots))"
proof -
  have u: "hist_used slots \<le> kLatencyHistogramSize" using assms by (rule hist_used_bound)
  have z: "good_double 0" using good_double_nat [of 0] by simp
  have b: "good_double (real b + 1)" if "b < hist_used slots" for b
    using good_double_nat [of "Suc b"] that u by (simp add: add.commute)
  have s: "good_double (ls_p99_us (latency_scan hs rank [0..<hist_used slots] 0 False out))" if "ls_p99_us out = 0" for hs rank out
    using scan_p99_range [of hs rank "[0..<hist_used slots]" 0 False out] that z b by auto
  show ?thesis unfolding merge_latencies_def Let_def using z s by (simp add: no_latencies_def)
qed

lemma trial_value_double:
  assumes "list_all (\<lambda>sl. sl_hist_used sl \<le> kLatencyHistogramSize) slots"
  shows "good_double (trial_value (ieee64 c) m (merge_latencies (ieee64 c) slots) units ns threads)"
proof -
  have "rnd64 (value_from_units (ieee64 c) m units ns threads) = value_from_units (ieee64 c) m units ns threads"
    by (cases "value_rule_of m") (simp_all add: value_from_units_def Let_def rnd64_idem)
  then have "good_double (value_from_units (ieee64 c) m units ns threads)"
    using machine.value_from_units_nonneg by (simp add: good_double_def)
  then show ?thesis using merged_p99_double [OF assms] by (simp add: trial_value_def)
qed

text \<open>The parameters keep the entries the validator checks.\<close>

lemma map_of_updates:
  "k \<notin> fst ` set kvs \<Longrightarrow> map_of (foldl (\<lambda>ps (k, v). AList.update k v ps) ps kvs) k = map_of ps k"
  by (induction kvs arbitrary: ps) (auto simp: update_conv')

lemma trial_params_checked:
  assumes "extra_ok (sn_extra s)"
  shows "map_of (trial_params L A cfg clock s t lat) ''cold'' = Some (js_of_string L (coldeffect_to_string (sn_effect s)))"
    and "map_of (trial_params L A cfg clock s t lat) ''huge_pages'' = Some (js_of_bool L (0 < sn_huge_bytes s))"
proof -
  have "''cold'' \<notin> fst ` set (sn_extra s)" "''huge_pages'' \<notin> fst ` set (sn_extra s)"
    using assms by (auto simp: extra_ok_def list_all_iff runner_keys_def)
  then show "map_of (trial_params L A cfg clock s t lat) ''cold'' = Some (js_of_string L (coldeffect_to_string (sn_effect s)))"
    "map_of (trial_params L A cfg clock s t lat) ''huge_pages'' = Some (js_of_bool L (0 < sn_huge_bytes s))"
    by (simp_all add: trial_params_def Let_def map_of_updates update_conv')
qed

context json_library
begin

lemma params_ok_trial:
  assumes "extra_ok (sn_extra s)"
  shows "params_ok L (js_object L (trial_params L A cfg clock s t lat))"
  using trial_params_checked [OF assms, of L A cfg clock t lat]
  by (cases "sn_effect s") (simp_all add: params_ok_def find_object kinds get_of)

end

lemma stamp_ok: "ns < 240784704000000000000 \<Longrightarrow> kTimestamp (utc_now_rfc3339 ns)"
  using timestamp_format [OF four_digit_before_9600, of "ns div 1000"]
  by (simp add: utc_now_rfc3339_def less_mult_imp_div_less)

lemma new_session_good:
  "spec_ok sp \<Longrightarrow> extra_ok (wr_extra rep) \<Longrightarrow> 1 \<le> rc_trials cfg \<Longrightarrow> session_good L cfg sp (new_session cfg cpus park sp rep)"
  by (simp add: session_good_def new_session_def session_inv_def session_results_def list_all_iff)

lemma trial_good:
  assumes lib: "json_library L" and good: "session_good L cfg sp s" and more: "wants_more_trials cfg s"
    and t: "trial_ok t" and sp: "spec_ok sp" and trials: "rc_trials cfg < 2 ^ 31"
  shows "session_good L cfg sp (fst (run_one_trial L (ieee64 c) cfg clock t s))"
proof (cases "in_warmup cfg s")
  case True
  then show ?thesis
    using good run_one_trial_inv [of s L "ieee64 c" cfg clock t] by (auto simp: session_good_def run_one_trial_def Let_def)
next
  case False
  define s2 where "s2 = s\<lparr>sn_timed_done := sn_timed_done s + 1,
    sn_active_ns := sn_active_ns s + ns_between (to_release t) (to_done t)\<rparr>"
  define lat where "lat = merge_latencies (ieee64 c) (to_slots t)"
  define params where "params = js_object L (trial_params L (ieee64 c) cfg clock s2 t lat)"
  define ns where "ns = ns_between (to_release t) (to_done t)"
  define v where "v = (\<lambda>m. trial_value (ieee64 c) m lat (total_ops (to_slots t)) ns (sn_n_threads s))"
  define r where "r = (\<lambda>m. \<lparr>r_workload = sn_kind s, r_thread_count = sn_n_threads s,
    r_working_set_bytes = sn_working_set s, r_metric = m, r_value = Num (v m),
    r_trial = sn_timed_done s, r_timestamp = utc_now_rfc3339 (to_clock_ns t),
    r_duration_ns = (if ns = 0 then 1 else ns), r_params = params\<rparr>)"
  define s' where "s' = fst (run_one_trial L (ieee64 c) cfg clock t s)"
  have timed: "0 \<le> sn_timed_done s" "sn_timed_done s < rc_trials cfg"
    using good more False by (auto simp: session_good_def session_inv_def wants_more_trials_def)
  have "extra_ok (sn_extra s2)" using good by (simp add: s2_def session_good_def)
  then have params: "params_ok L params" unfolding params_def by (rule json_library.params_ok_trial [OF lib])
  have dbl: "good_double (v m)" for m
    using t trial_value_double unfolding v_def lat_def trial_ok_def by blast
  have res: "result_of_spec sp (r m) \<and> result_ok (r m) \<and> result_valid L (r m)" if "m \<in> set (sn_metrics s)" for m
    using that good sp timed trials params t stamp_ok
    by (auto simp: r_def session_good_def spec_ok_def result_of_spec_def result_ok_def result_valid_def int32_def
        isfinite_def list_all_iff trial_ok_def)
  have s': "sn_results s' = sn_results s @ map r (sn_metrics s)"
    "sn_values s' = map2 (\<lambda>vs m. vs @ [v m]) (sn_values s) (sn_metrics s)" "sn_timed_done s' = sn_timed_done s + 1"
    "sn_kind s' = sn_kind s" "sn_metrics s' = sn_metrics s" "sn_n_threads s' = sn_n_threads s"
    "sn_working_set s' = sn_working_set s" "sn_extra s' = sn_extra s"
    using False by (simp_all add: s'_def run_one_trial_def Let_def r_def v_def lat_def params_def s2_def ns_def comp_def)
  have "list_all (list_all good_double) (sn_values s')"
    using good dbl by (auto simp: s'(2) session_good_def list_all_iff set_zip)
  moreover have "session_inv s'" using good run_one_trial_inv by (auto simp: session_good_def s'_def)
  ultimately show ?thesis
    using good res timed unfolding s'_def [symmetric] by (auto simp: session_good_def s' list_all_iff)
qed

text \<open>The summary of a session is one the validator accepts.\<close>

lemma selftest_mean_nonneg: "0 \<le> cc_mean_call_ns (canary (ieee64 c) obs)"
  by (cases obs) (simp add: canary_def clock_selftest_def Let_def rnd64_nonneg)

lemma summary_good:
  assumes "vs \<noteq> []" "list_all good_double vs" "length vs < 2 ^ 31" "0 \<le> sn_late_trials s" "sn_late_trials s \<le> int (length vs)"
    "1 \<le> attempts" "attempts < 2 ^ 31" "0 \<le> cc_mean_call_ns c1" "0 \<le> cc_mean_call_ns c2"
    "sn_kind s = workload_of m" "int32 (sn_n_threads s)"
  shows "summary_ok (session_summary (ieee64 c) s c1 c2 attempts m vs) \<and> summary_valid (session_summary (ieee64 c) s c1 c2 attempts m vs)"
proof -
  obtain p5 med p95 md where st: "ss_p5 (summarize (ieee64 c) vs) = Num p5" "ss_median (summarize (ieee64 c) vs) = Num med"
      "ss_p95 (summarize (ieee64 c) vs) = Num p95" "ss_mad (summarize (ieee64 c) vs) = Num md"
      "ss_min (summarize (ieee64 c) vs) \<le> p5" "p5 \<le> med" "med \<le> p95" "p95 \<le> ss_max (summarize (ieee64 c) vs)"
      "0 \<le> md" "0 \<le> ss_stddev (summarize (ieee64 c) vs)" "0 \<le> ss_cov (summarize (ieee64 c) vs)"
      "unat (ss_n (summarize (ieee64 c) vs)) = length vs"
    using summarize_order [OF assms(1), of c] assms(2,3) by (auto simp: list_all_iff good_double_def)
  have "ss_n (summarize (ieee64 c) vs) = of_nat (length vs)" by (simp flip: st(12))
  then have n: "sint (ucast (ss_n (summarize (ieee64 c) vs)) :: 32 word) = int (length vs)"
    using assms(3) by (simp add: sint_uint unsigned_of_nat signed_take_bit_int_eq_self take_bit_nat_eq_self take_bit_int_eq_self)
  show ?thesis
    using assms st(1-11) by (auto simp: session_summary_def Let_def n summary_ok_def summary_valid_def int32_def Suc_le_eq)
qed

section \<open>What a session hands over\<close>

text \<open>A result and a summary without the measured values.\<close>

type_synonym row = "Workload \<times> Metric \<times> int \<times> u64 \<times> int"

definition result_row :: "'j Result \<Rightarrow> row" where
  "result_row r = (r_workload r, r_metric r, r_thread_count r, r_working_set_bytes r, r_trial r)"

definition summary_row :: "Summary \<Rightarrow> row" where
  "summary_row s = (s_workload s, s_metric s, s_thread_count s, s_working_set_bytes s, s_n s)"

definition spec_row :: "ConfigSpec \<Rightarrow> int \<Rightarrow> Metric \<Rightarrow> row" where
  "spec_row sp i m = (sp_kind sp, m, sp_threads sp, sp_working_set sp, i)"

text \<open>The rows of a complete configuration: trial by trial, metric by metric; one summary per metric.\<close>

definition spec_results :: "RunConfig \<Rightarrow> ConfigSpec \<Rightarrow> row list" where
  "spec_results cfg sp = concat (map (\<lambda>t. map (spec_row sp (int t)) (sp_metrics sp)) [0..<nat (rc_trials cfg)])"

definition spec_summaries :: "RunConfig \<Rightarrow> ConfigSpec \<Rightarrow> row list" where
  "spec_summaries cfg sp = map (spec_row sp (rc_trials cfg)) (sp_metrics sp)"

definition envelope_good :: "'j json_lib \<Rightarrow> 'j RunEnvelope \<Rightarrow> 'j RunEnvelope \<Rightarrow> bool" where
  "envelope_good L run out \<longleftrightarrow> e_schema_version out = e_schema_version run \<and> e_run_id out = e_run_id run
     \<and> e_started_at out = e_started_at run \<and> e_machine out = e_machine run
     \<and> list_all (\<lambda>r. result_ok r \<and> result_valid L r) (e_results out)
     \<and> list_all (\<lambda>s. summary_ok s \<and> summary_valid s) (e_summary out)"

text \<open>\<open>out'\<close> has the rows of \<open>out\<close> and then those of the configurations \<open>sps\<close>.\<close>

definition extends :: "RunConfig \<Rightarrow> ConfigSpec list \<Rightarrow> 'j RunEnvelope \<Rightarrow> 'j RunEnvelope \<Rightarrow> bool" where
  "extends cfg sps out out' \<longleftrightarrow>
     map result_row (e_results out') = map result_row (e_results out) @ concat (map (spec_results cfg) sps)
     \<and> map summary_row (e_summary out') = map summary_row (e_summary out) @ concat (map (spec_summaries cfg) sps)"

lemma extends_Nil [simp]: "extends cfg [] out out"
  by (simp add: extends_def)

lemma extends_Cons: "extends cfg [sp] out out' \<Longrightarrow> extends cfg sps out' out'' \<Longrightarrow> extends cfg (sp # sps) out out''"
  by (simp add: extends_def)

lemma session_rows:
  assumes "session_good L cfg sp s"
  shows "map result_row (sn_results s) =
    concat (map (\<lambda>t. map (spec_row sp (int t)) (sp_metrics sp)) [0..<nat (sn_timed_done s)])"
proof -
  have inv: "map (\<lambda>r. (r_trial r, r_metric r, r_value r)) (sn_results s) =
      session_results (sp_metrics sp) (sn_values s) (nat (sn_timed_done s))"
    and len: "length (sn_values s) = length (sp_metrics sp)"
    and res: "\<forall>r\<in>set (sn_results s). result_of_spec sp r"
    using assms by (auto simp: session_good_def session_inv_def list_all_iff)
  have "map result_row (sn_results s) = map ((\<lambda>(t, m, v). spec_row sp t m) \<circ> (\<lambda>r. (r_trial r, r_metric r, r_value r))) (sn_results s)"
    using res by (simp add: result_row_def spec_row_def result_of_spec_def)
  also have "\<dots> = map (\<lambda>(t, m, v). spec_row sp t m) (session_results (sp_metrics sp) (sn_values s) (nat (sn_timed_done s)))"
    by (simp only: map_map [symmetric] inv)
  also have "map (\<lambda>(t, m, v). spec_row sp t m) (map2 (\<lambda>m vs. (int t, m, Num (vs ! t))) (sp_metrics sp) (sn_values s)) =
      map (spec_row sp (int t)) (sp_metrics sp)" for t
    using len by (intro nth_equalityI) simp_all
  then have "map (\<lambda>(t, m, v). spec_row sp t m) (session_results (sp_metrics sp) (sn_values s) (nat (sn_timed_done s))) =
      concat (map (\<lambda>t. map (spec_row sp (int t)) (sp_metrics sp)) [0..<nat (sn_timed_done s)])"
    by (simp add: session_results_def map_concat comp_def)
  finally show ?thesis .
qed

lemma session_values_length:
  assumes "session_good L cfg sp s" "vs \<in> set (sn_values s)"
  shows "int (length vs) = sn_timed_done s"
  using assms by (auto simp: session_good_def session_inv_def list_all_iff)

lemma emit_good:
  assumes "session_good L cfg sp s" "spec_ok sp" "rc_trials cfg < 2 ^ 31" "1 \<le> attempts" "attempts < 2 ^ 31"
    "0 \<le> cc_mean_call_ns c1" "0 \<le> cc_mean_call_ns c2" "envelope_good L run out"
  shows "envelope_good L run (snd (emit (ieee64 c) c1 c2 attempts s out))"
proof -
  have inv: "0 \<le> sn_late_trials s" "sn_late_trials s \<le> sn_timed_done s" "sn_timed_done s < 2 ^ 31" "int32 (sn_n_threads s)"
    using assms(1-3) by (auto simp: session_good_def session_inv_def spec_ok_def int32_def)
  have "summary_ok (session_summary (ieee64 c) s c1 c2 attempts m vs) \<and> summary_valid (session_summary (ieee64 c) s c1 c2 attempts m vs)"
    if "(m, vs) \<in> set (zip (sn_metrics s) (sn_values s))" "vs \<noteq> []" for m vs
  proof (rule summary_good)
    have "vs \<in> set (sn_values s)" "m \<in> set (sn_metrics s)" using that(1) by (auto dest: set_zip_rightD set_zip_leftD)
    then show "list_all good_double vs" "length vs < 2 ^ 31" "sn_late_trials s \<le> int (length vs)" "sn_kind s = workload_of m"
      using assms(1,2) session_values_length [OF assms(1), of vs] inv by (auto simp: session_good_def spec_ok_def list_all_iff)
  qed (use assms inv that in auto)
  then show ?thesis
    using assms(1,8) by (auto simp: emit_def envelope_good_def session_good_def list_all_iff)
qed

lemma emit_extends:
  assumes "session_good L cfg sp s" "\<not> wants_more_trials cfg s" "spec_ok sp" "1 \<le> rc_trials cfg" "rc_trials cfg < 2 ^ 31"
  shows "extends cfg [sp] out (snd (emit A c1 c2 attempts s out))"
proof -
  have timed: "sn_timed_done s = rc_trials cfg" using assms(1,2) by (auto simp: session_good_def wants_more_trials_def)
  have rows: "map result_row (sn_results s) = spec_results cfg sp"
    using session_rows [OF assms(1)] by (simp add: spec_results_def timed)
  have ne: "sn_results s \<noteq> []"
  proof
    assume "sn_results s = []"
    then have "spec_results cfg sp = []" using rows by simp
    moreover obtain n where "nat (rc_trials cfg) = Suc n" using assms(4) by (cases "nat (rc_trials cfg)") auto
    ultimately show False using assms(3) by (auto simp: spec_results_def spec_ok_def)
  qed
  have len: "length (sn_values s) = length (sn_metrics s)" and same: "sn_kind s = sp_kind sp" "sn_metrics s = sp_metrics sp"
      "sn_n_threads s = sp_threads sp" "sn_working_set s = sp_working_set sp"
    using assms(1) by (auto simp: session_good_def session_inv_def)
  have row: "summary_row (session_summary A s c1 c2 attempts m vs) = spec_row sp (rc_trials cfg) m \<and> vs \<noteq> []"
    if "vs \<in> set (sn_values s)" for m vs
  proof -
    have l: "int (length vs) = rc_trials cfg" using session_values_length [OF assms(1) that] timed by simp
    then have vs: "vs \<noteq> []" using assms(4) by auto
    then have "ss_n (summarize A vs) = of_nat (length vs)" by (simp add: summarize_def Let_def)
    then have "sint (ucast (ss_n (summarize A vs)) :: 32 word) = int (length vs)"
      using l assms(5) by (simp add: sint_uint unsigned_of_nat signed_take_bit_int_eq_self take_bit_nat_eq_self take_bit_int_eq_self)
    then show ?thesis using vs l same by (simp add: session_summary_def Let_def summary_row_def spec_row_def)
  qed
  have "map summary_row (concat (map2 (\<lambda>m vs. if vs = [] then [] else [session_summary A s c1 c2 attempts m vs]) ms vss)) =
      map (spec_row sp (rc_trials cfg)) ms" if "length vss = length ms" "set vss \<subseteq> set (sn_values s)" for ms vss
    using that
  proof (induction ms arbitrary: vss)
    case (Cons m ms)
    then obtain vs vss' where "vss = vs # vss'" by (cases vss) auto
    then show ?case using Cons row by auto
  qed simp
  then have "map summary_row (concat (map2 (\<lambda>m vs. if vs = [] then [] else [session_summary A s c1 c2 attempts m vs])
      (sn_metrics s) (sn_values s))) = spec_summaries cfg sp"
    using len by (simp add: spec_summaries_def same)
  then show ?thesis using rows ne by (simp add: emit_def extends_def)
qed

section \<open>Runs\<close>

text \<open>What a run is assumed to observe: well-formed trials, descriptions that leave the runner's own
  entries alone, and clocks before the year 9600.\<close>

definition trials_ok :: "(stop_obs \<times> trial_outcome) list \<Rightarrow> bool" where
  "trials_ok obs \<longleftrightarrow> list_all (\<lambda>(ob, t). trial_ok t) obs"

definition pool_ok :: "'j pool_env \<Rightarrow> bool" where
  "pool_ok env \<longleftrightarrow> extra_ok (wr_extra (pe_report env))"

definition attempt_ok :: "'j attempt_env \<Rightarrow> bool" where
  "attempt_ok env \<longleftrightarrow> pool_ok (ae_pool env) \<and> trials_ok (ae_trials env)"

definition env_ok :: "'j run_env \<Rightarrow> bool" where
  "env_ok env \<longleftrightarrow> list_all (list_all attempt_ok) (re_attempts env)
     \<and> list_all pool_ok (ie_pools (re_interleave env)) \<and> list_all trials_ok (ie_rounds (re_interleave env))
     \<and> re_started_ns env < 240784704000000000000 \<and> re_finished_ns env < 240784704000000000000"

definition config_int32 :: "RunConfig \<Rightarrow> bool" where
  "config_int32 cfg \<longleftrightarrow> rc_trials cfg < 2 ^ 31 \<and> list_all (\<lambda>n. n < 2 ^ 31) (rc_thread_counts cfg) \<and> rc_canary_retries cfg < 2 ^ 31 - 1"

lemma should_stop_none: "should_stop cfg deadline obs \<noteq> stop_none \<Longrightarrow> r = should_stop cfg deadline obs \<Longrightarrow> r \<noteq> stop_none"
  by simp

lemma start_session_good:
  assumes "start_session cfg cpus park sp env = Inr s" "spec_ok sp" "pool_ok env" "1 \<le> rc_trials cfg"
  shows "session_good L cfg sp s"
  using assms new_session_good [of sp "pe_report env" cfg L cpus park]
  by (auto simp: start_session_def pool_ok_def split: option.splits list.splits)

lemma session_loop_good:
  assumes "session_loop L (ieee64 c) cfg deadline clock obs s = Some (s', stop)" "session_good L cfg sp s" "trials_ok obs"
    "json_library L" "spec_ok sp" "rc_trials cfg < 2 ^ 31"
  shows "session_good L cfg sp s' \<and> (stop = stop_none \<longrightarrow> \<not> wants_more_trials cfg s')"
  using assms(1-3)
proof (induction obs arbitrary: s)
  case (Cons ob obs)
  obtain o' t where ob: "ob = (o', t)" by (cases ob)
  show ?case
    using Cons trial_good [OF assms(4) Cons.prems(2) _ _ assms(5,6), of t c clock]
    by (auto simp: ob trials_ok_def split: if_splits)
qed (auto split: if_splits)

lemma run_attempts_good:
  assumes "run_attempts L (ieee64 c) cfg deadline clock cpus sp envs attempt out = Some (Inr (out', stop))"
    "list_all attempt_ok envs" "envelope_good L run out" "0 \<le> attempt" "attempt = 0 \<or> attempt \<le> rc_canary_retries cfg"
    "json_library L" "spec_ok sp" "1 \<le> rc_trials cfg" "config_int32 cfg"
  shows "envelope_good L run out' \<and> (stop = stop_none \<longrightarrow> extends cfg [sp] out out')"
  using assms(1,2,4,5)
proof (induction envs arbitrary: attempt)
  case (Cons env envs)
  define last where "last = (rc_canary_retries cfg < attempt + 1)"
  have IH: "envelope_good L run out' \<and> (stop = stop_none \<longrightarrow> extends cfg [sp] out out')"
    if "run_attempts L (ieee64 c) cfg deadline clock cpus sp envs (attempt + 1) out = Some (Inr (out', stop))" "\<not> last"
    using Cons.IH [OF that(1)] Cons.prems that(2) by (simp add: last_def)
  define again where "again = (\<not> canary_clean (ieee64 c) (canary (ieee64 c) (ae_canary_start env)) \<and> \<not> last
    \<and> room_to_retry deadline (ae_now env))"
  define c1 c2 where "c1 = canary (ieee64 c) (ae_canary_start env)" and "c2 = canary (ieee64 c) (ae_canary_end env)"
  have step: "run_attempts L (ieee64 c) cfg deadline clock cpus sp (env # envs) attempt out =
      (if again then run_attempts L (ieee64 c) cfg deadline clock cpus sp envs (attempt + 1) out
       else case start_session cfg cpus False sp (ae_pool env) of
          Inl e \<Rightarrow> Some (Inl e)
        | Inr s \<Rightarrow>
            (case session_loop L (ieee64 c) cfg deadline clock (ae_trials env) s of
               None \<Rightarrow> None
             | Some (s', r) \<Rightarrow>
                 if \<not> canary_clean (ieee64 c) c2 \<and> \<not> last \<and> r = stop_none \<and> room_to_retry deadline (ae_now env) then
                   run_attempts L (ieee64 c) cfg deadline clock cpus sp envs (attempt + 1) out
                 else Some (Inr (snd (emit (ieee64 c) c1 c2 (attempt + 1) s' out), r))))"
    unfolding run_attempts.simps Let_def again_def last_def c1_def c2_def by (rule refl)
  show ?case
  proof (cases again)
    case True
    then have "\<not> last" by (simp add: again_def)
    then show ?thesis using IH Cons.prems(1) [unfolded step if_P [OF True]] by blast
  next
    case False
    note run = Cons.prems(1) [unfolded step if_not_P [OF False]]
    obtain s where s: "start_session cfg cpus False sp (ae_pool env) = Inr s"
      using run by (cases "start_session cfg cpus False sp (ae_pool env)") simp_all
    obtain s' r where lp: "session_loop L (ieee64 c) cfg deadline clock (ae_trials env) s = Some (s', r)"
      using run by (cases "session_loop L (ieee64 c) cfg deadline clock (ae_trials env) s") (auto simp: s)
    have ok: "pool_ok (ae_pool env)" "trials_ok (ae_trials env)" using Cons.prems(2) by (simp_all add: attempt_ok_def)
    have g: "session_good L cfg sp s'" "r = stop_none \<longrightarrow> \<not> wants_more_trials cfg s'"
      using session_loop_good [OF lp start_session_good [OF s assms(7) ok(1) assms(8)] ok(2) assms(6,7)] assms(9)
      by (auto simp: config_int32_def)
    have att: "1 \<le> attempt + 1" "attempt + 1 < 2 ^ 31" "rc_trials cfg < 2 ^ 31"
      using Cons.prems(3,4) assms(9) by (auto simp: config_int32_def)
    note run = run [unfolded s sum.case lp option.case prod.case]
    show ?thesis
    proof (cases "\<not> canary_clean (ieee64 c) c2 \<and> \<not> last \<and> r = stop_none \<and> room_to_retry deadline (ae_now env)")
      case True
      then have "\<not> last" by simp
      then show ?thesis using IH run [unfolded if_P [OF True]] by blast
    next
      case False
      have "out' = snd (emit (ieee64 c) c1 c2 (attempt + 1) s' out)" "stop = r"
        using run [unfolded if_not_P [OF False]] by simp_all
      then show ?thesis
        using emit_good [OF g(1) assms(7) att(3,1,2) selftest_mean_nonneg selftest_mean_nonneg assms(3)]
          emit_extends [OF g(1) _ assms(7,8) att(3)] g(2) by (simp add: c1_def c2_def)
    qed
  qed
qed simp

lemma run_sequential_good:
  assumes "run_sequential L (ieee64 c) cfg deadline clock cpus sps envs out = Some (Inr (out', stop))"
    "list_all (list_all attempt_ok) envs" "envelope_good L run out" "list_all spec_ok sps"
    "json_library L" "1 \<le> rc_trials cfg" "config_int32 cfg"
  shows "envelope_good L run out' \<and> (stop = stop_none \<longrightarrow> extends cfg sps out out')"
  using assms(1-4)
proof (induction sps arbitrary: envs out)
  case (Cons sp sps)
  obtain env envs' where envs: "envs = env # envs'" using Cons.prems(1) by (cases envs) auto
  obtain mid r where mid: "run_attempts L (ieee64 c) cfg deadline clock cpus sp env 0 out = Some (Inr (mid, r))"
    and rest: "if r \<noteq> stop_none then mid = out' \<and> r = stop
      else run_sequential L (ieee64 c) cfg deadline clock cpus sps envs' mid = Some (Inr (out', stop))"
    using Cons.prems(1) by (auto simp: envs split: option.splits sum.splits if_splits)
  have g: "envelope_good L run mid" "r = stop_none \<longrightarrow> extends cfg [sp] out mid"
    using run_attempts_good [OF mid _ Cons.prems(3) _ _ assms(5) _ assms(6,7)] Cons.prems(2,4) by (auto simp: envs)
  show ?case
  proof (cases "r = stop_none")
    case True
    then show ?thesis using Cons.IH [of envs' mid] rest g Cons.prems(2,4) extends_Cons by (auto simp: envs)
  next
    case False
    then show ?thesis using rest g by auto
  qed
qed simp

lemma round_trials_good:
  assumes "round_trials L (ieee64 c) cfg deadline clock obs ss = Some (ss', any, stop)"
    "list_all2 (session_good L cfg) sps ss" "trials_ok obs" "list_all spec_ok sps" "json_library L" "rc_trials cfg < 2 ^ 31"
  shows "list_all2 (session_good L cfg) sps ss' \<and> (\<not> any \<and> stop = stop_none \<longrightarrow> list_all (\<lambda>s. \<not> wants_more_trials cfg s) ss')"
  using assms(1-4)
proof (induction ss arbitrary: obs sps ss' any)
  case (Cons s ss)
  obtain o' t obs' where obs: "obs = (o', t) # obs'" using Cons.prems(1) by (cases obs) auto
  obtain sp sps' where sps: "sps = sp # sps'" "session_good L cfg sp s" "list_all2 (session_good L cfg) sps' ss" "spec_ok sp" "list_all spec_ok sps'"
    using Cons.prems(2,4) by (cases sps) auto
  have t: "trial_ok t" "trials_ok obs'" using Cons.prems(3) by (simp_all add: obs trials_ok_def)
  define s' where "s' = (if wants_more_trials cfg s then fst (run_one_trial L (ieee64 c) cfg clock t s) else s)"
  have s': "session_good L cfg sp s'" using trial_good [OF assms(5) sps(2) _ t(1) sps(4) assms(6)] sps(2) by (simp add: s'_def)
  show ?case
  proof (cases "should_stop cfg deadline o' \<noteq> stop_none")
    case True
    then show ?thesis using Cons.prems(1,2) by (auto simp: obs)
  next
    case False
    then obtain rs any' where r: "round_trials L (ieee64 c) cfg deadline clock obs' ss = Some (rs, any', stop)"
        "ss' = s' # rs" "any = (wants_more_trials cfg s \<or> any')"
      using Cons.prems(1) by (auto simp: obs s'_def Let_def split: option.splits)
    then show ?thesis using Cons.IH [OF r(1) sps(3) t(2) sps(5)] s' by (auto simp: sps(1) s'_def)
  qed
qed auto

lemma round_loop_good:
  assumes "round_loop L (ieee64 c) cfg deadline clock rounds ss = Some (ss', stop)"
    "list_all2 (session_good L cfg) sps ss" "list_all trials_ok rounds" "list_all spec_ok sps" "json_library L" "rc_trials cfg < 2 ^ 31"
  shows "list_all2 (session_good L cfg) sps ss' \<and> (stop = stop_none \<longrightarrow> list_all (\<lambda>s. \<not> wants_more_trials cfg s) ss')"
  using assms(1-3)
proof (induction rounds arbitrary: ss)
  case (Cons obs rounds)
  obtain rs any r where r: "round_trials L (ieee64 c) cfg deadline clock obs ss = Some (rs, any, r)"
    using Cons.prems(1) by (auto split: option.splits)
  note g = round_trials_good [OF r Cons.prems(2) _ assms(4-6)]
  show ?case
  proof (cases "any \<and> r = stop_none")
    case True
    then show ?thesis using Cons.IH [of rs] Cons.prems(1,3) g by (simp add: r)
  next
    case False
    then have "rs = ss'" "r = stop" using Cons.prems(1) by (auto simp: r)
    then show ?thesis using g Cons.prems(3) False by auto
  qed
qed simp

lemma emit_all_good:
  assumes "list_all2 (session_good L cfg) sps ss" "list_all spec_ok sps" "1 \<le> rc_trials cfg" "rc_trials cfg < 2 ^ 31"
    "0 \<le> cc_mean_call_ns c1" "0 \<le> cc_mean_call_ns c2" "envelope_good L run out"
  shows "envelope_good L run (emit_all (ieee64 c) c1 c2 ss out)
    \<and> (list_all (\<lambda>s. \<not> wants_more_trials cfg s) ss \<longrightarrow> extends cfg sps out (emit_all (ieee64 c) c1 c2 ss out))"
  using assms(1,2,7)
proof (induction ss arbitrary: sps out rule: list.induct)
  case (Cons s ss)
  obtain sp sps' where sps: "sps = sp # sps'" "session_good L cfg sp s" "list_all2 (session_good L cfg) sps' ss" "spec_ok sp" "list_all spec_ok sps'"
    using Cons.prems(1,2) by (cases sps) auto
  define mid where "mid = snd (emit (ieee64 c) c1 c2 1 s out)"
  have mid: "envelope_good L run mid" "\<not> wants_more_trials cfg s \<longrightarrow> extends cfg [sp] out mid"
    unfolding mid_def using emit_good [OF sps(2,4) assms(4) _ _ assms(5,6) Cons.prems(3), of 1] emit_extends [OF sps(2) _ sps(4) assms(3,4)]
    by auto
  have "emit_all (ieee64 c) c1 c2 (s # ss) out = emit_all (ieee64 c) c1 c2 ss mid" by (simp add: emit_all_def mid_def)
  then show ?case using Cons.IH [OF sps(3,5) mid(1)] mid(2) extends_Cons by (auto simp: sps(1))
qed (simp add: emit_all_def)

lemma start_sessions_good:
  assumes "rmap (\<lambda>(sp, pool). start_session cfg cpus True sp pool) (zip sps pools) = Inr ss" "length sps \<le> length pools"
    "list_all pool_ok pools" "list_all spec_ok sps" "1 \<le> rc_trials cfg"
  shows "list_all2 (session_good L cfg) sps ss"
  using assms(1-4)
proof (induction sps arbitrary: pools ss)
  case (Cons sp sps)
  then obtain pool pools' where "pools = pool # pools'" by (cases pools) auto
  then show ?case using Cons start_session_good [OF _ _ _ assms(5)] by (auto simp: rbind_eq_Inr)
qed simp

lemma run_interleaved_good:
  assumes "run_interleaved L (ieee64 c) cfg deadline clock cpus sps env out = Some (Inr (out', stop))"
    "list_all pool_ok (ie_pools env)" "list_all trials_ok (ie_rounds env)" "envelope_good L run out" "list_all spec_ok sps"
    "json_library L" "1 \<le> rc_trials cfg" "config_int32 cfg"
  shows "envelope_good L run out' \<and> (stop = stop_none \<longrightarrow> extends cfg sps out out')"
proof -
  have trials: "rc_trials cfg < 2 ^ 31" using assms(8) by (simp add: config_int32_def)
  have len: "length sps \<le> length (ie_pools env)" using assms(1) by (auto simp: run_interleaved_def split: if_splits)
  obtain ss where ss: "rmap (\<lambda>(sp, pool). start_session cfg cpus True sp pool) (zip sps (ie_pools env)) = Inr ss"
    using assms(1) by (auto simp: run_interleaved_def split: if_splits sum.splits)
  obtain ss' where lp: "round_loop L (ieee64 c) cfg deadline clock (ie_rounds env) ss = Some (ss', stop)"
    and out': "out' = emit_all (ieee64 c) (canary (ieee64 c) (ie_canary_start env)) (canary (ieee64 c) (ie_canary_end env)) ss' out"
    using assms(1) by (auto simp: run_interleaved_def ss split: if_splits option.splits)
  note g = round_loop_good [OF lp start_sessions_good [OF ss len assms(2,5,7)] assms(3,5,6) trials]
  show ?thesis
    using emit_all_good [OF conjunct1 [OF g] assms(5,7) trials selftest_mean_nonneg selftest_mean_nonneg assms(4)] g
    unfolding out' by blast
qed

lemma specs_good:
  assumes "run_specs cfg = Inr sps" "list_all (\<lambda>n. 1 \<le> n) (rc_thread_counts cfg)" "config_int32 cfg"
  shows "list_all spec_ok sps"
proof -
  have rid: "workload_of r = workload_of m" if "r \<in> set (riders_of m)" for r m using that by (auto simp: riders_of_def split: if_splits)
  have "metric_specs cfg m = Inr ys \<Longrightarrow> list_all spec_ok ys" for m ys
    using assms(2,3) rid by (auto simp: metric_specs_def Let_def spec_ok_def list_all_iff config_int32_def split: if_splits)
  then have "rmap (metric_specs cfg) ms = Inr yss \<Longrightarrow> list_all spec_ok (concat yss)" for ms yss
    by (induction ms arbitrary: yss) (auto simp: rbind_eq_Inr)
  then show ?thesis using assms(1) by (auto simp: run_specs_def rbind_eq_Inr)
qed

lemma run_benchmarks_good:
  assumes "json_library L" "run_benchmarks L (ieee64 c) cfg machine argv env = Some (Inr (run, stop))"
    "machine_ok machine" "kMachineId (m_id machine)" "config_int32 cfg" "env_ok env"
  shows "run_ok run \<and> run_valid L run \<and> (\<exists>sps. run_specs cfg = Inr sps \<and> (stop = stop_none \<longrightarrow>
    map result_row (e_results run) = concat (map (spec_results cfg) sps)
    \<and> map summary_row (e_summary run) = concat (map (spec_summaries cfg) sps)))"
proof -
  define run0 :: "'a RunEnvelope" where "run0 = \<lparr>e_schema_version = 1, e_run_id = new_run_id (re_id_seed env) (re_id_index env),
    e_started_at = utc_now_rfc3339 (re_started_ns env), e_finished_at = [], e_machine = machine,
    e_argv = argv, e_results = [], e_summary = []\<rparr>"
  define cpus where "cpus = cpu_order cfg machine (re_hardware_concurrency env)"
  define clock where "clock = canary (ieee64 c) (re_clock env)"
  define deadline where "deadline = run_deadline (ieee64 c) cfg (re_deadline_now env)"
  have v: "validate_config cfg = Inr ()" using assms(2) by (cases "validate_config cfg") (simp_all add: run_benchmarks_def)
  then have cfg: "1 \<le> rc_trials cfg" "list_all (\<lambda>n. 1 \<le> n) (rc_thread_counts cfg)"
    by (auto simp: validate_config_def split: if_splits)
  note r = assms(2) [unfolded run_benchmarks_def v sum.case Let_def, folded run0_def cpus_def clock_def deadline_def]
  obtain sps where sps: "run_specs cfg = Inr sps" using r by (cases "run_specs cfg") simp_all
  obtain out where out: "(if rc_interleave cfg then run_interleaved L (ieee64 c) cfg deadline clock cpus sps (re_interleave env) run0
       else run_sequential L (ieee64 c) cfg deadline clock cpus sps (re_attempts env) run0) = Some (Inr (out, stop))"
    and run: "run = out\<lparr>e_finished_at := utc_now_rfc3339 (re_finished_ns env)\<rparr>"
    using r by (auto simp: sps split: option.splits sum.splits)
  have ok: "list_all spec_ok sps" by (rule specs_good [OF sps cfg(2) assms(5)])
  have e0: "envelope_good L run0 run0" by (simp add: envelope_good_def run0_def)
  have g: "envelope_good L run0 out \<and> (stop = stop_none \<longrightarrow> extends cfg sps run0 out)"
    using out run_interleaved_good [OF _ _ _ e0 ok assms(1) cfg(1) assms(5)] run_sequential_good [OF _ _ e0 ok assms(1) cfg(1) assms(5)] assms(6)
    unfolding env_ok_def by (auto split: if_splits)
  then have "run_ok run" "run_valid L run"
    using assms(3,4,6) stamp_ok run_id_uuid
    by (auto simp: run envelope_good_def run_ok_def run_valid_def run0_def env_ok_def new_run_id_def list_all_iff)
  then show ?thesis using g sps by (auto simp: run extends_def run0_def)
qed

text \<open>
  (C1) What the engine writes, the engine accepts: for every JSON library with the documented
  behaviour, every configuration of 32-bit integers, every machine record as \<open>collect_machine_info\<close>
  returns it, and everything a run can observe (clock readings before the year 9600, any
  interleaving of stops, re-runs and host contention, sequential or interleaved), when the run
  returns an envelope the validator finds no problem in its JSON, and reading the JSON back gives
  that envelope.
\<close>

theorem run_document_valid:
  assumes "json_library L" "run_benchmarks L (ieee64 c) cfg machine argv env = Some (Inr (run, stop))"
    "machine_ok machine" "kMachineId (m_id machine)" "config_int32 cfg" "env_ok env"
  shows "validate_run L (run_to_json L run) = [] \<and> run_from_json L (run_to_json L run) = Inr run"
  using run_benchmarks_good [OF assms] json_library.validate_run_valid [OF assms(1)] json_library.run_roundtrip [OF assms(1)]
  by blast

text \<open>
  (C2) A run that was not stopped is complete and in order: its results are, configuration by
  configuration in the order of the request, exactly \<open>trials\<close> timed trials numbered from 0 with one
  result per metric (riders next to their host), and its summaries one per configuration and
  metric over all \<open>trials\<close> values; warm-up trials and discarded attempts leave nothing behind, and
  interleaving does not change the order.
\<close>

theorem run_complete:
  assumes "json_library L" "run_benchmarks L (ieee64 c) cfg machine argv env = Some (Inr (run, stop_none))"
    "machine_ok machine" "kMachineId (m_id machine)" "config_int32 cfg" "env_ok env"
  shows "\<exists>sps. run_specs cfg = Inr sps
    \<and> map result_row (e_results run) = concat (map (\<lambda>sp. concat (map (\<lambda>t. map (spec_row sp (int t)) (sp_metrics sp)) [0..<nat (rc_trials cfg)])) sps)
    \<and> map summary_row (e_summary run) = concat (map (\<lambda>sp. map (spec_row sp (rc_trials cfg)) (sp_metrics sp)) sps)"
proof -
  have rows: "spec_results cfg = (\<lambda>sp. concat (map (\<lambda>t. map (spec_row sp (int t)) (sp_metrics sp)) [0..<nat (rc_trials cfg)]))"
    "spec_summaries cfg = (\<lambda>sp. map (spec_row sp (rc_trials cfg)) (sp_metrics sp))"
    by (simp_all add: fun_eq_iff spec_results_def spec_summaries_def)
  show ?thesis using run_benchmarks_good [OF assms] unfolding rows by simp
qed

text \<open>An example: one timed trial of the integer workload on one thread.\<close>

definition example_options :: WorkloadOptions where
  "example_options = \<lparr>wo_non_temporal = False, wo_huge_pages = True, wo_disk_path = [], wo_allow_writes = False,
     wo_allow_9p = False, wo_write_budget_bytes = 0\<rparr>"

definition example_config :: RunConfig where
  "example_config = \<lparr>rc_workloads = [W_cpu_int], rc_metrics = [], rc_thread_counts = [1], rc_working_sets = [0],
     rc_trials = 1, rc_warmup_trials = 0, rc_warmup_ms = 0, rc_trial_ms = 1, rc_spin_ms = 0, rc_max_seconds = Num 0,
     rc_seed = 7, rc_cold = CM_none, rc_pin = False, rc_cpus = [], rc_interleave = False, rc_canary_retries = 0,
     rc_opts = example_options, rc_verbose = False\<rparr>"

definition example_pool :: "json pool_env" where
  "example_pool = \<lparr>pe_prepare = None, pe_failures = [],
     pe_report = \<lparr>wr_effect = CE_none, wr_bytes = 0, wr_huge_bytes = 0, wr_batch_units = kBatchOps, wr_extra = []\<rparr>\<rparr>"

definition example_trial :: trial_outcome where
  "example_trial = \<lparr>to_slots = [empty_slot\<lparr>sl_ops := 1048576, sl_batches := 1, sl_start := 10, sl_end := 1000010\<rparr>],
     to_release = 5, to_done = 1000020, to_clock_ns = 1700000000000000000\<rparr>"

definition example_env :: "json run_env" where
  "example_env = \<lparr>re_id_seed = 1, re_id_index = 0, re_started_ns = 1700000000000000000, re_hardware_concurrency = 4,
     re_clock = (int, None), re_deadline_now = 0,
     re_attempts = [[\<lparr>ae_canary_start = (int, None), ae_now = 1, ae_pool = example_pool,
       ae_trials = [(\<lparr>so_abort = False, so_bytes_written = 0, so_now = 2\<rparr>, example_trial)], ae_canary_end = (int, None)\<rparr>]],
     re_interleave = \<lparr>ie_canary_start = (int, None), ie_pools = [], ie_rounds = [], ie_canary_end = (int, None)\<rparr>,
     re_finished_ns = 1700000001000000000\<rparr>"

lemma example_run_returns:
  "\<exists>run. run_benchmarks json_values (ieee64 c) example_config example_machine [''bench''] example_env = Some (Inr (run, stop_none))"
proof -
  have v: "validate_config example_config = Inr ()"
    by (simp add: validate_config_def example_config_def isfinite_def)
  have sps: "run_specs example_config = Inr [\<lparr>sp_kind = W_cpu_int, sp_metrics = [M_cpu_int_ops], sp_threads = 1, sp_working_set = 0\<rparr>]"
    by (simp add: run_specs_def run_metrics_def metric_specs_def Let_def example_config_def metrics_of_table riders_of_def
        is_implemented_all)
  have st: "start_session example_config cpus False sp example_pool = Inr (new_session example_config cpus False sp (pe_report example_pool))" for cpus sp
    by (simp add: start_session_def example_pool_def)
  define s0 where "s0 = (\<lambda>cpus sp. new_session example_config cpus False sp (pe_report example_pool))"
  have nw: "\<not> in_warmup example_config (s0 cpus sp)" for cpus sp
    by (simp add: in_warmup_def example_config_def new_session_def s0_def)
  have w0: "wants_more_trials example_config (s0 cpus sp)" for cpus sp
    by (simp add: wants_more_trials_def example_config_def new_session_def s0_def)
  have w1: "\<not> wants_more_trials example_config (fst (run_one_trial json_values (ieee64 c) example_config clock example_trial (s0 cpus sp)))" for clock cpus sp
    using nw [of cpus sp]
    by (simp add: wants_more_trials_def in_warmup_def run_one_trial_def Let_def)
      (simp add: s0_def new_session_def example_config_def)
  have ss: "should_stop example_config 0 \<lparr>so_abort = False, so_bytes_written = 0, so_now = 2\<rparr> = stop_none"
    by (simp add: should_stop_def example_config_def example_options_def)
  have dl: "run_deadline (ieee64 c) example_config n = 0" for n by (simp add: run_deadline_def example_config_def)
  have last: "rc_canary_retries example_config < 1" "\<not> rc_interleave example_config" by (simp_all add: example_config_def)
  show ?thesis
    unfolding run_benchmarks_def v sum.case Let_def sps dl
    using last w0 [unfolded s0_def] w1 [unfolded s0_def] ss by (simp add: example_env_def st Let_def)
qed

lemma example_assumptions:
  "machine_ok example_machine" "kMachineId (m_id example_machine)" "config_int32 example_config" "env_ok example_env"
proof -
  show "kMachineId (m_id example_machine)"
    by (simp add: example_machine_def kMachineId_def matches_replicate list_all_iff hex_char_def)
  show "env_ok example_env"
    by (simp add: env_ok_def example_env_def attempt_ok_def pool_ok_def example_pool_def trials_ok_def trial_ok_def example_trial_def
        empty_slot_def extra_ok_def)
qed (simp_all add: machine_ok_def example_machine_def int32_def config_int32_def example_config_def)

theorem run_document_valid_witness:
  "\<exists>run. run_benchmarks json_values (ieee64 True) example_config example_machine [''bench''] example_env = Some (Inr (run, stop_none))
    \<and> validate_run json_values (run_to_json json_values run) = []"
proof -
  obtain run where r: "run_benchmarks json_values (ieee64 True) example_config example_machine [''bench''] example_env = Some (Inr (run, stop_none))"
    using example_run_returns by blast
  have "validate_run json_values (run_to_json json_values run) = []"
    using run_document_valid [OF json_val.json_library_axioms r example_assumptions] by (rule conjunct1)
  with r show ?thesis by (intro exI [of _ run] conjI)
qed

theorem run_complete_witness:
  "\<exists>run. run_benchmarks json_values (ieee64 False) example_config example_machine [''bench''] example_env = Some (Inr (run, stop_none))
    \<and> map result_row (e_results run) = [(W_cpu_int, M_cpu_int_ops, 1, 0, 0)]"
proof -
  obtain run where r: "run_benchmarks json_values (ieee64 False) example_config example_machine [''bench''] example_env = Some (Inr (run, stop_none))"
    using example_run_returns by blast
  have "run_specs example_config = Inr [\<lparr>sp_kind = W_cpu_int, sp_metrics = [M_cpu_int_ops], sp_threads = 1, sp_working_set = 0\<rparr>]"
    by (simp add: run_specs_def run_metrics_def metric_specs_def Let_def example_config_def metrics_of_table riders_of_def
        is_implemented_all)
  then have "map result_row (e_results run) = [(W_cpu_int, M_cpu_int_ops, 1, 0, 0)]"
    using run_complete [OF json_val.json_library_axioms r example_assumptions] by (simp add: example_config_def spec_row_def)
  with r show ?thesis by (intro exI [of _ run] conjI)
qed

section \<open>A session ends\<close>

text \<open>The most warm-up trials a session can need when no trial is shorter than \<open>trial_ms\<close>.\<close>

definition max_warmups :: "RunConfig \<Rightarrow> int" where
  "max_warmups cfg = max (rc_warmup_trials cfg) ((rc_warmup_ms cfg + rc_trial_ms cfg - 1) div rc_trial_ms cfg)"

definition trial_ns :: "trial_outcome \<Rightarrow> nat" where
  "trial_ns t = unat (ns_between (to_release t) (to_done t))"

lemma run_one_trial_counts:
  "in_warmup cfg s \<Longrightarrow> sn_warmups_done (fst (run_one_trial L A cfg clock t s)) = sn_warmups_done s + 1
     \<and> sn_timed_done (fst (run_one_trial L A cfg clock t s)) = sn_timed_done s"
  "\<not> in_warmup cfg s \<Longrightarrow> sn_warmups_done (fst (run_one_trial L A cfg clock t s)) = sn_warmups_done s
     \<and> sn_timed_done (fst (run_one_trial L A cfg clock t s)) = sn_timed_done s + 1"
  "sn_active_ns (fst (run_one_trial L A cfg clock t s)) = sn_active_ns s + of_nat (trial_ns t)"
  by (simp_all add: run_one_trial_def Let_def trial_ns_def)

lemma warmup_needed:
  assumes "in_warmup cfg s" "(sn_warmups_done s + sn_timed_done s) * rc_trial_ms cfg * 1000000 \<le> int (unat (sn_active_ns s))"
    "0 \<le> sn_timed_done s" "1 \<le> rc_trial_ms cfg" "0 \<le> rc_warmup_ms cfg" "rc_warmup_ms cfg < 2 ^ 31"
  shows "sn_warmups_done s < max_warmups cfg"
proof (cases "sn_warmups_done s < rc_warmup_trials cfg")
  case False
  then have "sn_active_ns s < word_of_int (rc_warmup_ms cfg) * 1000000" using assms(1) by (simp add: in_warmup_def)
  moreover have "uint (word_of_int (rc_warmup_ms cfg * 1000000) :: u64) = rc_warmup_ms cfg * 1000000"
    using assms(5,6) unfolding uint_word_of_int by simp
  then have "uint (word_of_int (rc_warmup_ms cfg) * 1000000 :: u64) = rc_warmup_ms cfg * 1000000" by simp
  ultimately have "int (unat (sn_active_ns s)) < rc_warmup_ms cfg * 1000000" by (simp add: word_less_def)
  moreover have "sn_warmups_done s * rc_trial_ms cfg \<le> (sn_warmups_done s + sn_timed_done s) * rc_trial_ms cfg"
    using assms(3,4) by (intro mult_right_mono) auto
  ultimately have "sn_warmups_done s * rc_trial_ms cfg < rc_warmup_ms cfg" using assms(2) by linarith
  then have "(sn_warmups_done s + 1) * rc_trial_ms cfg \<le> rc_warmup_ms cfg + rc_trial_ms cfg - 1" by (simp add: distrib_right)
  then have "(sn_warmups_done s + 1) * rc_trial_ms cfg div rc_trial_ms cfg \<le> (rc_warmup_ms cfg + rc_trial_ms cfg - 1) div rc_trial_ms cfg"
    using assms(4) by (intro zdiv_mono1) simp_all
  then have "sn_warmups_done s + 1 \<le> (rc_warmup_ms cfg + rc_trial_ms cfg - 1) div rc_trial_ms cfg" using assms(4) by simp
  then show ?thesis by (simp add: max_warmups_def)
qed (simp add: max_warmups_def)

text \<open>The observations of trials that are long enough, short enough together, and not stopped.\<close>

definition undisturbed :: "RunConfig \<Rightarrow> int \<Rightarrow> (stop_obs \<times> trial_outcome) list \<Rightarrow> bool" where
  "undisturbed cfg deadline obs \<longleftrightarrow>
     list_all (\<lambda>(ob, t). should_stop cfg deadline ob = stop_none \<and> rc_trial_ms cfg * 1000000 \<le> int (trial_ns t)) obs
     \<and> sum_list (map (\<lambda>(ob, t). trial_ns t) obs) < 2 ^ 64"

lemma session_loop_ends:
  assumes "undisturbed cfg deadline obs" "1 \<le> rc_trial_ms cfg" "0 \<le> rc_warmup_ms cfg" "rc_warmup_ms cfg < 2 ^ 31"
    "0 \<le> sn_timed_done s" "sn_timed_done s \<le> rc_trials cfg" "sn_warmups_done s \<le> max_warmups cfg"
    "(sn_warmups_done s + sn_timed_done s) * rc_trial_ms cfg * 1000000 \<le> int (unat (sn_active_ns s))"
    "unat (sn_active_ns s) + sum_list (map (\<lambda>(ob, t). trial_ns t) obs) < 2 ^ 64"
    "max_warmups cfg - sn_warmups_done s + (rc_trials cfg - sn_timed_done s) \<le> int (length obs)"
  shows "\<exists>s'. session_loop L A cfg deadline clock obs s = Some (s', stop_none) \<and> sn_timed_done s' = rc_trials cfg
    \<and> sn_warmups_done s' \<le> max_warmups cfg \<and> \<not> in_warmup cfg s'"
  using assms(1,5-10)
proof (induction obs arbitrary: s)
  case Nil
  then have "sn_warmups_done s = max_warmups cfg" "sn_timed_done s = rc_trials cfg" by auto
  then have "\<not> in_warmup cfg s" using warmup_needed [of cfg s] Nil.prems(5,2) assms(2-4) by auto
  then show ?case using Nil.prems by (auto simp: wants_more_trials_def)
next
  case (Cons ob obs)
  obtain o' t where ob: "ob = (o', t)" by (cases ob)
  have go: "should_stop cfg deadline o' = stop_none" and len: "rc_trial_ms cfg * 1000000 \<le> int (trial_ns t)"
    and rest: "undisturbed cfg deadline obs"
    using Cons.prems(1) by (auto simp: undisturbed_def ob)
  show ?case
  proof (cases "wants_more_trials cfg s")
    case False
    then show ?thesis using Cons.prems by (auto simp: ob wants_more_trials_def)
  next
    case True
    define s' where "s' = fst (run_one_trial L A cfg clock t s)"
    note n = run_one_trial_counts [where cfg = cfg and s = s and L = L and A = A and clock = clock and t = t, folded s'_def]
    have bound: "unat (sn_active_ns s) + trial_ns t < 2 ^ 64" using Cons.prems(6) by (simp add: ob)
    then have "unat (sn_active_ns s') = unat (sn_active_ns s) + trial_ns t"
      unfolding n(3) by (subst unat_add_lt) (simp_all add: u64_of_nat)
    moreover have "sn_warmups_done s' + sn_timed_done s' = sn_warmups_done s + sn_timed_done s + 1"
      using n(1,2) by (cases "in_warmup cfg s") auto
    ultimately have act: "(sn_warmups_done s' + sn_timed_done s') * rc_trial_ms cfg * 1000000 \<le> int (unat (sn_active_ns s'))"
      "unat (sn_active_ns s') + sum_list (map (\<lambda>(ob, t). trial_ns t) obs) < 2 ^ 64"
      using Cons.prems(5,6) len by (simp_all add: ob distrib_right)
    have cnt: "0 \<le> sn_timed_done s'" "sn_timed_done s' \<le> rc_trials cfg" "sn_warmups_done s' \<le> max_warmups cfg"
      "max_warmups cfg - sn_warmups_done s' + (rc_trials cfg - sn_timed_done s') \<le> int (length obs)"
      using n(1,2) True warmup_needed [of cfg s] Cons.prems(2-5,7) assms(2-4)
      by (cases "in_warmup cfg s"; auto simp: wants_more_trials_def)+
    show ?thesis using Cons.IH [OF rest cnt(1-3) act cnt(4)] True go by (simp add: ob s'_def)
  qed
qed

text \<open>
  (C6) A session ends: when no trial is shorter than \<open>trial_ms\<close> (the workers run whole batches until
  that much time has passed) and nothing asks it to stop, a new session has all its timed trials
  after at most \<open>max(warmup_trials, ceil(warmup_ms / trial_ms)) + trials\<close> trials, of which no more
  than the first number are warm-up trials, and it ended only after both warm-up floors (the number
  of trials and the time spent) were reached.
\<close>

theorem session_ends:
  assumes "validate_config cfg = Inr ()" "rc_warmup_ms cfg < 2 ^ 31" "undisturbed cfg deadline obs"
    "max_warmups cfg + rc_trials cfg \<le> int (length obs)"
  shows "\<exists>s'. session_loop L A cfg deadline clock obs (new_session cfg cpus park sp rep) = Some (s', stop_none)
    \<and> sn_timed_done s' = rc_trials cfg \<and> rc_warmup_trials cfg \<le> sn_warmups_done s' \<and> sn_warmups_done s' \<le> max_warmups cfg
    \<and> word_of_int (rc_warmup_ms cfg) * 1000000 \<le> sn_active_ns s'"
proof -
  have cfg: "1 \<le> rc_trials cfg" "1 \<le> rc_trial_ms cfg" "0 \<le> rc_warmup_ms cfg" "0 \<le> rc_warmup_trials cfg"
    using assms(1) by (auto simp: validate_config_def split: if_splits)
  have new: "sn_timed_done (new_session cfg cpus park sp rep) = 0" "sn_warmups_done (new_session cfg cpus park sp rep) = 0"
    "sn_active_ns (new_session cfg cpus park sp rep) = 0" by (simp_all add: new_session_def)
  have m: "0 \<le> max_warmups cfg" using cfg(4) by (simp add: max_warmups_def le_max_iff_disj)
  have "sum_list (map (\<lambda>(ob, t). trial_ns t) obs) < 2 ^ 64" using assms(3) by (simp add: undisturbed_def)
  then obtain s' where "session_loop L A cfg deadline clock obs (new_session cfg cpus park sp rep) = Some (s', stop_none)"
      "sn_timed_done s' = rc_trials cfg" "sn_warmups_done s' \<le> max_warmups cfg" "\<not> in_warmup cfg s'"
    using session_loop_ends [OF assms(3) cfg(2,3) assms(2), of "new_session cfg cpus park sp rep" L A clock] assms(4) cfg(1) m
    by (auto simp: new)
  then show ?thesis by (auto simp: in_warmup_def)
qed

theorem session_ends_witness:
  "\<exists>s'. session_loop json_values exact_fp example_config 0 (canary exact_fp (int, None)) [(\<lparr>so_abort = False, so_bytes_written = 0, so_now = 2\<rparr>, example_trial)]
      (new_session example_config [] False \<lparr>sp_kind = W_cpu_int, sp_metrics = [M_cpu_int_ops], sp_threads = 1, sp_working_set = 0\<rparr> (pe_report example_pool)) = Some (s', stop_none) \<and> sn_timed_done s' = 1"
proof -
  have "validate_config example_config = Inr ()"
    by (simp add: validate_config_def example_config_def isfinite_def)
  moreover have "undisturbed example_config 0 [(\<lparr>so_abort = False, so_bytes_written = 0, so_now = 2\<rparr>, example_trial)]"
    by (simp add: undisturbed_def should_stop_def example_config_def example_options_def trial_ns_def example_trial_def ns_between_def)
  ultimately show ?thesis
    using session_ends [of example_config 0 "[(\<lparr>so_abort = False, so_bytes_written = 0, so_now = 2\<rparr>, example_trial)]"]
    by (fastforce simp: max_warmups_def example_config_def)
qed

text \<open>
  The length of a run in nanoseconds must fit 64 bits: the conversion of ten billion seconds is
  undefined in the source, and on the target the deadline lies centuries in the past.
\<close>

lemma deadline_overflow: "run_deadline exact_fp (cfg\<lparr>rc_max_seconds := Num (10 ^ 10)\<rparr>) now = now - 2 ^ 63"
  by (simp add: run_deadline_def cast_i64_def exact_fp_def Let_def)

end
