(* ===== verification/Pool.thy ===== *)
theory Pool
  imports Runner
begin

text \<open>
  Starting the workers of a configuration (\<^verbatim>\<open>engine/src/runner.cpp\<close>: the part of \<open>worker\<close> before its
  first trial, and \<open>ConfigSession::start\<close>) and the disk workloads' \<open>prepare_config\<close>. The theory
  \<open>Runner\<close> sees a pool as the record \<open>pool_env\<close>: which workers failed, and the report of worker 0. Here
  the workers write the shared failure and report themselves, one after the other as they take the
  lock, and what \<open>start\<close> makes of it is shown to be what the abstract pool says.
\<close>

section \<open>Setting up a worker\<close>

text \<open>\<open>std::exception::what\<close>.\<close>

fun what :: "exn \<Rightarrow> string" where
  "what (Runtime_error s) = s"
| "what (Invalid_argument s) = s"
| "what (Out_of_range s) = s"
| "what Bad_alloc = ''std::bad_alloc''"
| "what (Json_error s) = s"
| "what (Validation_error a s) = a @ '': '' @ s"

text \<open>What a worker meets: the outcomes of pinning, of the workload's set-up and of the cold preparation's.\<close>

record 'w worker_env =
  we_pin_errno :: int
  we_workload :: "'w result"
  we_cold :: "ColdPrep result"

text \<open>The shared \<open>WorkerFailure\<close> and \<open>WorkerReport\<close>.\<close>

record 'j pool_state =
  ps_failure :: string
  ps_report :: "'j WorkerReport"

definition empty_report :: "'j WorkerReport" where
  "empty_report = \<lparr>wr_effect = CE_none, wr_bytes = 0, wr_huge_bytes = 0, wr_batch_units = 0, wr_extra = []\<rparr>"

definition report_of :: "('w \<Rightarrow> u64) \<Rightarrow> ('w \<Rightarrow> (string \<times> 'j) list) \<Rightarrow> 'w \<Rightarrow> ColdPrep \<Rightarrow> 'j WorkerReport" where
  "report_of units describe w cp =
     \<lparr>wr_effect = cp_effect cp, wr_bytes = cp_bytes cp, wr_huge_bytes = b_huge_granted (cp_scratch cp),
      wr_batch_units = units w, wr_extra = describe w\<rparr>"

definition failure_text :: "nat \<Rightarrow> exn \<Rightarrow> string" where
  "failure_text i e = ''worker '' @ int_to_dec (int i) @ '': setup failed: '' @ what e"

text \<open>Worker \<open>i\<close> up to \<open>ready.count_down()\<close>: its slot, whether it is ready, and the shared state.\<close>

definition worker_setup ::
  "('w \<Rightarrow> u64) \<Rightarrow> ('w \<Rightarrow> (string \<times> 'j) list) \<Rightarrow> nat \<Rightarrow> 'w worker_env \<Rightarrow> Slot \<Rightarrow> 'j pool_state \<Rightarrow>
   Slot \<times> bool \<times> 'j pool_state" where
  "worker_setup units describe i e slot st =
     (let slot = (if 0 \<le> sl_assigned_cpu slot then slot\<lparr>sl_pin_errno := we_pin_errno e\<rparr> else slot) in
      case rbind (we_workload e) (\<lambda>w. rbind (we_cold e) (\<lambda>cp. Inr (w, cp))) of
        Inr (w, cp) \<Rightarrow> (slot, True, if i = 0 then st\<lparr>ps_report := report_of units describe w cp\<rparr> else st)
      | Inl x \<Rightarrow> (slot, False, if ps_failure st = [] then st\<lparr>ps_failure := failure_text i x\<rparr> else st))"

text \<open>All workers, in the order in which they reach the lock.\<close>

definition setup_workers ::
  "('w \<Rightarrow> u64) \<Rightarrow> ('w \<Rightarrow> (string \<times> 'j) list) \<Rightarrow> (nat \<Rightarrow> 'w worker_env) \<Rightarrow> (nat \<Rightarrow> Slot) \<Rightarrow> nat list \<Rightarrow> 'j pool_state \<Rightarrow> 'j pool_state" where
  "setup_workers units describe env slots order st =
     foldl (\<lambda>st i. snd (snd (worker_setup units describe i (env i) (slots i) st))) st order"

text \<open>\<open>start\<close>: wait for all workers, then throw the first failure.\<close>

definition pool_start ::
  "('w \<Rightarrow> u64) \<Rightarrow> ('w \<Rightarrow> (string \<times> 'j) list) \<Rightarrow> (nat \<Rightarrow> 'w worker_env) \<Rightarrow> (nat \<Rightarrow> Slot) \<Rightarrow> nat list \<Rightarrow> 'j WorkerReport result" where
  "pool_start units describe env slots order =
     (let st = setup_workers units describe env slots order \<lparr>ps_failure = [], ps_report = empty_report\<rparr> in
      if ps_failure st \<noteq> [] then Inl (Runtime_error (ps_failure st)) else Inr (ps_report st))"

section \<open>Preparing the test file\<close>

text \<open>\<open>prepare_config\<close> of the disk workloads, on the main thread before the pool starts.\<close>

definition prepare_config ::
  "string option \<Rightarrow> string option \<Rightarrow> string option \<Rightarrow> file_env \<Rightarrow> WorkloadContext \<Rightarrow> nat result option" where
  "prepare_config home nrm mkdirs fenv ctx =
     (let path = (case wc_options ctx of
                    Some opts \<Rightarrow> if wo_disk_path opts \<noteq> [] then wo_disk_path opts else default_disk_path home
                  | None \<Rightarrow> default_disk_path home);
          allow_9p = (case wc_options ctx of Some opts \<Rightarrow> wo_allow_9p opts | None \<Rightarrow> False) in
      case check_disk_path nrm mkdirs path allow_9p of
        Inl e \<Rightarrow> Some (Inl e)
      | Inr _ \<Rightarrow>
          map_option (\<lambda>r. rbind r (\<lambda>(written, _). Inr written))
            (ensure_test_file fenv path (unat (wc_working_set_bytes ctx)) (wc_seed ctx)))"

section \<open>The abstract pool\<close>

definition set_up :: "'w worker_env \<Rightarrow> ('w \<times> ColdPrep) result" where
  "set_up e = rbind (we_workload e) (\<lambda>w. rbind (we_cold e) (\<lambda>cp. Inr (w, cp)))"

text \<open>The pool the runner sees, for workers that take the lock in this order.\<close>

definition pool_view ::
  "('w \<Rightarrow> u64) \<Rightarrow> ('w \<Rightarrow> (string \<times> 'j) list) \<Rightarrow> (nat \<Rightarrow> 'w worker_env) \<Rightarrow> nat list \<Rightarrow> 'j pool_env" where
  "pool_view units describe env order =
     \<lparr>pe_prepare = None,
      pe_failures = concat (map (\<lambda>i. case set_up (env i) of Inl x \<Rightarrow> [(int i, what x)] | Inr _ \<Rightarrow> []) order),
      pe_report = (case set_up (env 0) of Inl _ \<Rightarrow> empty_report | Inr (w, cp) \<Rightarrow> report_of units describe w cp)\<rparr>"

lemma failure_text_nonempty [simp]: "failure_text i e \<noteq> []"
  by (simp add: failure_text_def)

lemma worker_setup_state:
  "snd (snd (worker_setup units describe i e slot st)) =
    (case set_up e of
       Inl x \<Rightarrow> if ps_failure st = [] then st\<lparr>ps_failure := failure_text i x\<rparr> else st
     | Inr (w, cp) \<Rightarrow> if i = 0 then st\<lparr>ps_report := report_of units describe w cp\<rparr> else st)"
  by (simp add: worker_setup_def set_up_def Let_def split: sum.splits prod.splits)

text \<open>The first failure stays, and worker 0 is the only one that reports.\<close>

lemma setup_workers_Cons:
  "setup_workers units describe env slots (i # order) st =
    setup_workers units describe env slots order (snd (snd (worker_setup units describe i (env i) (slots i) st)))"
  by (simp add: setup_workers_def)

lemma setup_workers_failed:
  "ps_failure st \<noteq> [] \<Longrightarrow> ps_failure (setup_workers units describe env slots order st) = ps_failure st"
proof (induction order arbitrary: st)
  case (Cons i order)
  have "ps_failure (snd (snd (worker_setup units describe i (env i) (slots i) st))) = ps_failure st"
    using Cons.prems by (simp add: worker_setup_state split: sum.splits prod.splits)
  then show ?case using Cons by (simp add: setup_workers_Cons)
qed (simp add: setup_workers_def)

lemma setup_workers_failure:
  "ps_failure st = [] \<Longrightarrow> ps_failure (setup_workers units describe env slots order st) =
    (case pe_failures (pool_view units describe env order) of [] \<Rightarrow> []
     | (i, txt) # _ \<Rightarrow> ''worker '' @ int_to_dec i @ '': setup failed: '' @ txt)"
proof (induction order arbitrary: st)
  case (Cons i order)
  show ?case
  proof (cases "set_up (env i)")
    case (Inl x)
    then show ?thesis
      using Cons.prems setup_workers_failed [of "st\<lparr>ps_failure := failure_text i x\<rparr>"]
      by (simp add: setup_workers_Cons worker_setup_state pool_view_def failure_text_def)
  next
    case (Inr r)
    then show ?thesis using Cons by (cases r) (simp add: setup_workers_Cons worker_setup_state pool_view_def)
  qed
qed (simp add: setup_workers_def pool_view_def)

lemma setup_workers_report:
  "ps_report (setup_workers units describe env slots order st) =
    (if 0 \<in> set order \<and> (\<exists>r. set_up (env 0) = Inr r) then pe_report (pool_view units describe env order) else ps_report st)"
proof (induction order arbitrary: st)
  case (Cons i order)
  show ?case
  proof (cases "set_up (env i)")
    case (Inl x)
    then show ?thesis
      using Cons by (cases "i = 0") (auto simp: setup_workers_Cons worker_setup_state pool_view_def)
  next
    case (Inr r)
    then show ?thesis using Cons
      by (cases r; cases "i = 0") (auto simp: setup_workers_Cons worker_setup_state pool_view_def)
  qed
qed (simp add: setup_workers_def)

lemma no_failure: "pe_failures (pool_view units describe env order) = [] \<Longrightarrow> i \<in> set order \<Longrightarrow> \<exists>r. set_up (env i) = Inr r"
  by (cases "set_up (env i)") (auto simp: pool_view_def)

text \<open>
  (C17) Starting a pool does what the runner assumes of it: for every order in which the workers reach
  the lock, \<open>start\<close> throws exactly when some worker could not set up, with the message of the first
  one in that order, and otherwise the session gets the report of worker 0 and of no other; and a
  report that comes from a description by one of the workloads leaves the runner's own entries alone.
\<close>

theorem pool_start_refines:
  assumes "0 \<in> set order"
  shows "rbind (pool_start units describe env slots order) (\<lambda>rep. Inr (new_session cfg cpus park sp rep)) =
      start_session cfg cpus park sp (pool_view units describe env order)
    \<and> ((\<exists>rep. pool_start units describe env slots order = Inr rep) \<longleftrightarrow> (\<forall>i\<in>set order. \<exists>r. set_up (env i) = Inr r))
    \<and> ((\<forall>w. extra_ok (describe w)) \<longrightarrow> pool_ok (pool_view units describe env order))"
proof (intro conjI impI)
  define st where "st = setup_workers units describe env slots order \<lparr>ps_failure = [], ps_report = empty_report\<rparr>"
  define view where "view = pool_view units describe env order"
  have failure: "ps_failure st = (case pe_failures view of [] \<Rightarrow> []
     | (i, txt) # _ \<Rightarrow> ''worker '' @ int_to_dec i @ '': setup failed: '' @ txt)"
    unfolding st_def view_def by (rule setup_workers_failure) simp
  have start: "pool_start units describe env slots order = (if ps_failure st \<noteq> [] then Inl (Runtime_error (ps_failure st)) else Inr (ps_report st))"
    by (simp add: pool_start_def st_def Let_def)
  have prep: "pe_prepare view = None" by (simp add: view_def pool_view_def)
  show "rbind (pool_start units describe env slots order) (\<lambda>rep. Inr (new_session cfg cpus park sp rep)) =
      start_session cfg cpus park sp view"
  proof (cases "pe_failures view")
    case Nil
    then obtain r where "set_up (env 0) = Inr r" using no_failure [OF _ assms(1)] unfolding view_def by blast
    then have "ps_report st = pe_report view" using assms(1) by (auto simp: st_def view_def setup_workers_report)
    then show ?thesis using Nil failure by (simp add: start start_session_def prep)
  next
    case (Cons f fs)
    then show ?thesis using failure by (cases f) (simp add: start start_session_def prep)
  qed
  have "pe_failures view = [] \<longleftrightarrow> (\<forall>i\<in>set order. \<exists>r. set_up (env i) = Inr r)"
  proof
    show "\<forall>i\<in>set order. \<exists>r. set_up (env i) = Inr r" if "pe_failures view = []"
      using no_failure that unfolding view_def by blast
    show "pe_failures view = []" if "\<forall>i\<in>set order. \<exists>r. set_up (env i) = Inr r"
      using that by (fastforce simp: view_def pool_view_def)
  qed
  moreover have "ps_failure st = [] \<longleftrightarrow> pe_failures view = []" using failure by (simp split: list.splits prod.splits)
  ultimately show "(\<exists>rep. pool_start units describe env slots order = Inr rep) \<longleftrightarrow> (\<forall>i\<in>set order. \<exists>r. set_up (env i) = Inr r)"
    by (simp add: start)
  show "pool_ok view" if "\<forall>w. extra_ok (describe w)"
    using that by (simp add: pool_ok_def view_def pool_view_def report_of_def empty_report_def extra_ok_def split: sum.splits prod.splits)
qed

definition example_workers :: "nat \<Rightarrow> CpuIntWorkload worker_env" where
  "example_workers i = \<lparr>we_pin_errno = 0,
     we_workload = (if i = 2 then Inl Bad_alloc else if i = 1 then Inl (Runtime_error ''no memory'')
       else cpu_int_setup \<lparr>wc_thread_index = int i, wc_thread_count = 3, wc_working_set_bytes = 0, wc_seed = 7,
         wc_metric = M_cpu_int_ops, wc_options = None\<rparr>),
     we_cold = Inr \<lparr>cp_requested = CM_none, cp_effect = CE_none, cp_bytes = 0, cp_scratch = empty_buffer, cp_sink = 0\<rparr>\<rparr>"

definition example_spec :: ConfigSpec where
  "example_spec = \<lparr>sp_kind = W_cpu_int, sp_metrics = [M_cpu_int_ops], sp_threads = 3, sp_working_set = 0\<rparr>"

theorem pool_start_refines_witness:
  "\<exists>e. start_session example_config [0] False example_spec (pool_view (\<lambda>_. kBatchOps) (\<lambda>_. []) example_workers [0, 2, 1] :: json pool_env) = Inl e
    \<and> e = Runtime_error ''worker 2: setup failed: std::bad_alloc''"
proof -
  have "to_dec 2 = ''2''" by code_simp
  then have "pool_start (\<lambda>_. kBatchOps) (\<lambda>_. []) example_workers (\<lambda>_. empty_slot) [0, 2, 1] =
      (Inl (Runtime_error ''worker 2: setup failed: std::bad_alloc'') :: json WorkerReport result)"
    by (simp add: pool_start_def setup_workers_def worker_setup_def example_workers_def cpu_int_setup_def Let_def failure_text_def
        int_to_dec_def)
  moreover have "start_session example_config [0] False example_spec (pool_view (\<lambda>_. kBatchOps) (\<lambda>_. []) example_workers [0, 2, 1] :: json pool_env) =
      rbind (pool_start (\<lambda>_. kBatchOps) (\<lambda>_. []) example_workers (\<lambda>_. empty_slot) [0, 2, 1]) (\<lambda>rep. Inr (new_session example_config [0] False example_spec rep))"
    by (rule pool_start_refines [THEN conjunct1, symmetric]) simp
  ultimately show ?thesis by simp
qed

end
