(* ===== verification/Disk_Trial.thy ===== *)
theory Disk_Trial
  imports Session Disk_Io
begin

text \<open>
  The trial of a worker (\<^verbatim>\<open>worker\<close> in \<^verbatim>\<open>engine/src/runner.cpp\<close>) on the workloads whose batches
  can fail, the disk workloads of \<^verbatim>\<open>engine/src/workloads/disk_io.cpp\<close>: the timed loop with the
  outcomes of the system calls, what an exception in it does, the file ranges and the write
  budget of a whole trial, and the way of the latencies from the calls of all threads to the
  reported percentile.
\<close>

section \<open>The timed loop with failing batches\<close>

text \<open>
  Each element of the list is one iteration: the outcomes of the batch's system calls and the
  clock after it. An exception of \<open>run_batch\<close> leaves the loop, and the worker, at once.
\<close>

fun io_trial_loop ::
  "('w \<Rightarrow> 'o \<Rightarrow> ('w \<times> u64) result option) \<Rightarrow> int \<Rightarrow> int \<Rightarrow> 'w \<Rightarrow> u64 \<Rightarrow> u64 \<Rightarrow> ('o \<times> int) list
   \<Rightarrow> ('w \<times> u64 \<times> u64 \<times> int) result option" where
  "io_trial_loop run_batch trial_len t0 w ops batches [] = None"
| "io_trial_loop run_batch trial_len t0 w ops batches ((out, now) # obs) =
     (case run_batch w out of
        None \<Rightarrow> None
      | Some (Inl e) \<Rightarrow> Some (Inl e)
      | Some (Inr (w', n)) \<Rightarrow>
          if now - t0 < trial_len then io_trial_loop run_batch trial_len t0 w' (ops + n) (batches + 1) obs
          else Some (Inr (w', ops + n, batches + 1, now)))"

text \<open>The part of a worker between the two barriers, for a workload that is set up.\<close>

definition io_worker_trial ::
  "('w \<Rightarrow> 'o \<Rightarrow> ('w \<times> u64) result option) \<Rightarrow> ('w \<Rightarrow> (u32 list \<times> nat) option) \<Rightarrow> int \<Rightarrow> trial_obs \<Rightarrow> 'o list
   \<Rightarrow> 'w \<Rightarrow> Slot \<Rightarrow> ('w \<times> Slot) result option" where
  "io_worker_trial run_batch hist trial_ms ob outs w slot =
     (case io_trial_loop run_batch (trial_ms * 1000000) (ob_t0 ob) w 0 0 (zip outs (ob_nows ob)) of
        None \<Rightarrow> None
      | Some (Inl e) \<Rightarrow> Some (Inl e)
      | Some (Inr (w', ops, batches, now)) \<Rightarrow>
          Some (Inr (w', slot\<lparr>sl_cold_ns := ob_cold_ns ob, sl_pre_ns := ob_pre_ns ob, sl_cpu_start := ob_cpu_start ob,
            sl_start := ob_t0 ob, sl_end := now, sl_ops := ops, sl_batches := batches,
            sl_hist := (case hist w' of None \<Rightarrow> sl_hist slot | Some (h, u) \<Rightarrow> Some h),
            sl_hist_used := (case hist w' of None \<Rightarrow> sl_hist_used slot | Some (h, u) \<Rightarrow> u),
            sl_cpu_end := ob_cpu_end ob\<rparr>)))"

text \<open>Where no batch throws, this is the trial of \<open>Session\<close>.\<close>

lemma io_trial_loop_total:
  "io_trial_loop (\<lambda>w _. map_option Inr (run w)) len t0 w ops batches (zip (replicate (length nows) ()) nows) =
   map_option Inr (trial_loop run len t0 w ops batches nows)"
  by (induction nows arbitrary: w ops batches) (auto split: option.splits)

lemma io_worker_trial_total:
  "io_worker_trial (\<lambda>w _. map_option Inr (run w)) hist ms ob (replicate (length (ob_nows ob)) ()) w slot =
   map_option Inr (worker_trial run hist True ms ob w slot)"
  by (simp add: io_worker_trial_def worker_trial_def io_trial_loop_total split: option.splits)

text \<open>The state after batches that all returned.\<close>

fun run_batches :: "('w \<Rightarrow> 'o \<Rightarrow> ('w \<times> u64) result option) \<Rightarrow> 'w \<Rightarrow> 'o list \<Rightarrow> 'w option" where
  "run_batches run_batch w [] = Some w"
| "run_batches run_batch w (out # outs) =
     (case run_batch w out of Some (Inr (w', n)) \<Rightarrow> run_batches run_batch w' outs | _ \<Rightarrow> None)"

lemma io_trial_loop_runs:
  assumes "io_trial_loop run len t0 w ops batches obs = Some (Inr (w', ops', batches', now))"
  shows "\<exists>k. 0 < k \<and> k \<le> length obs \<and> run_batches run w (map fst (take k obs)) = Some w'
    \<and> batches' = batches + of_nat k \<and> now = snd (obs ! (k - 1)) \<and> len \<le> now - t0
    \<and> (\<forall>j<k - 1. snd (obs ! j) - t0 < len)"
  using assms
proof (induction run len t0 w ops batches obs rule: io_trial_loop.induct)
  case (2 run len t0 w ops batches out last obs)
  from 2(2) obtain v n where v: "run w out = Some (Inr (v, n))"
    by (auto split: option.splits sum.splits)
  show ?case
  proof (cases "last - t0 < len")
    case True
    with 2(2) v have "io_trial_loop run len t0 v (ops + n) (batches + 1) obs = Some (Inr (w', ops', batches', now))"
      by simp
    from 2(1) [OF v refl refl True this] obtain k where k: "0 < k" "k \<le> length obs"
        "run_batches run v (map fst (take k obs)) = Some w'" "batches' = batches + 1 + of_nat k"
        "now = snd (obs ! (k - 1))" "len \<le> now - t0" "\<forall>j<k - 1. snd (obs ! j) - t0 < len"
      by blast
    have "snd (((out, last) # obs) ! j) - t0 < len" if "j < Suc k - 1" for j
      using that k(7) True by (cases j) auto
    then show ?thesis using k v by (intro exI [of _ "Suc k"]) (simp add: nth_Cons')
  next
    case False
    then show ?thesis using 2(2) v by (intro exI [of _ 1]) auto
  qed
qed simp

text \<open>An exception ends the worker at the first batch that throws; nothing of the trial is kept.\<close>

lemma ex_nat_0_Suc: "(\<exists>k. Q k) \<longleftrightarrow> Q 0 \<or> (\<exists>k. Q (Suc k))"
  by (metis not0_implies_Suc)

lemma io_trial_loop_throws:
  "io_trial_loop run len t0 w ops batches obs = Some (Inl e) \<longleftrightarrow>
     (\<exists>k v. k < length obs \<and> run_batches run w (map fst (take k obs)) = Some v
       \<and> run v (fst (obs ! k)) = Some (Inl e) \<and> (\<forall>j<k. snd (obs ! j) - t0 < len))"
proof (induction obs arbitrary: w ops batches)
  case (Cons o_now obs)
  obtain out last where o: "o_now = (out, last)" by (cases o_now)
  note IH = Cons.IH
  consider "run w out = None" | x where "run w out = Some (Inl x)" | v n where "run w out = Some (Inr (v, n))"
    by (metis option.exhaust sum.exhaust surj_pair)
  then show ?case
  proof cases
    case 3
    show ?thesis
    proof (cases "last - t0 < len")
      case True
      then show ?thesis unfolding o by (subst ex_nat_0_Suc) (simp add: 3 IH All_less_Suc2)
    next
      case False
      then show ?thesis unfolding o by (subst ex_nat_0_Suc) (simp add: 3 All_less_Suc2)
    qed
  qed (unfold o, (subst ex_nat_0_Suc, simp)+)
qed simp

section \<open>What the trial loop relies on\<close>

text \<open>
  The contract of a workload whose batches may throw: a batch that returns has done
  \<open>batch_units\<close> units and leaves the workload ready; \<open>fits\<close> is what the kernel promises of the
  outcomes.
\<close>

locale io_workload =
  fixes run_batch :: "'w \<Rightarrow> 'o \<Rightarrow> ('w \<times> u64) result option"
    and batch_units :: "'w \<Rightarrow> u64"
    and ready :: "'w \<Rightarrow> bool"
    and fits :: "'w \<Rightarrow> 'o \<Rightarrow> bool"
  assumes batch_whole: "ready w \<Longrightarrow> fits w out \<Longrightarrow> run_batch w out = Some (Inr (w', n)) \<Longrightarrow>
      n = batch_units w \<and> ready w' \<and> batch_units w' = batch_units w \<and> fits w' = fits w"
begin

lemma run_batches_ready:
  "ready w \<Longrightarrow> \<forall>out\<in>set outs. fits w out \<Longrightarrow> run_batches run_batch w outs = Some w' \<Longrightarrow>
   ready w' \<and> batch_units w' = batch_units w \<and> fits w' = fits w"
proof (induction outs arbitrary: w)
  case (Cons out outs)
  then obtain v n where v: "run_batch w out = Some (Inr (v, n))" "run_batches run_batch v outs = Some w'"
    by (auto split: option.splits sum.splits)
  then show ?case using Cons.IH [of v] batch_whole [OF _ _ v(1)] Cons.prems by simp
qed simp

lemma io_trial_loop_units:
  assumes "io_trial_loop run_batch len t0 w ops batches obs = Some (Inr (w', ops', batches', now))"
    and "ready w" "\<forall>(out, t)\<in>set obs. fits w out" "ops = batches * batch_units w"
  shows "ops' = batches' * batch_units w \<and> ready w'"
  using assms
proof (induction obs arbitrary: w ops batches)
  case (Cons o_now obs)
  obtain out t where o: "o_now = (out, t)" by (cases o_now)
  from Cons.prems(1) o obtain v n where v: "run_batch w out = Some (Inr (v, n))"
    by (auto split: option.splits sum.splits)
  have law: "n = batch_units w" "ready v" "batch_units v = batch_units w" "fits v = fits w"
    using batch_whole [OF Cons.prems(2) _ v] Cons.prems(3) o by simp_all
  show ?case
  proof (cases "t - t0 < len")
    case True
    then show ?thesis
      using Cons.IH [of v "ops + n" "batches + 1"] Cons.prems v o law by (simp add: distrib_right)
  next
    case False
    then show ?thesis using Cons.prems v o law by (auto simp: distrib_right)
  qed
qed simp

end

text \<open>
  The rest of the contract: a batch whose calls are \<open>good\<close> returns. Then a trial on good calls ends
  once the clock has passed its length, with all its batches counted.
\<close>

locale io_workload_live = io_workload run_batch batch_units ready fits
  for run_batch :: "'w \<Rightarrow> 'o \<Rightarrow> ('w \<times> u64) result option" and batch_units ready fits +
  fixes good :: "'w \<Rightarrow> 'o \<Rightarrow> bool"
  assumes batch_returns: "ready w \<Longrightarrow> fits w out \<Longrightarrow> good w out \<Longrightarrow>
      \<exists>w' n. run_batch w out = Some (Inr (w', n)) \<and> good w' = good w"
begin

lemma io_trial_loop_returns:
  assumes "ready w" "\<forall>(out, t)\<in>set obs. fits w out \<and> good w out" "\<exists>(out, t)\<in>set obs. len \<le> t - t0"
  shows "\<exists>w' ops' batches' now. io_trial_loop run_batch len t0 w ops batches obs = Some (Inr (w', ops', batches', now))"
  using assms
proof (induction obs arbitrary: w ops batches)
  case (Cons o_now obs)
  obtain out t where o: "o_now = (out, t)" by (cases o_now)
  have fg: "fits w out" "good w out" using Cons.prems(2) by (simp_all add: o)
  obtain v n where v: "run_batch w out = Some (Inr (v, n))" "good v = good w"
    using batch_returns [OF Cons.prems(1) fg] by blast
  note law = batch_whole [OF Cons.prems(1) fg(1) v(1)]
  show ?case
  proof (cases "t - t0 < len")
    case True
    then have "\<exists>w' ops' batches' now. io_trial_loop run_batch len t0 v (ops + n) (batches + 1) obs
        = Some (Inr (w', ops', batches', now))"
      using Cons.prems o law v(2) by (intro Cons.IH) auto
    then show ?thesis using True v by (simp add: o)
  next
    case False
    then show ?thesis using v by (simp add: o)
  qed
qed simp

lemma io_worker_trial_returns:
  assumes "ready w" "\<forall>out\<in>set outs. fits w out \<and> good w out" "length outs = length (ob_nows ob)"
    and "\<exists>now\<in>set (ob_nows ob). ms * 1000000 \<le> now - ob_t0 ob"
  shows "\<exists>w' slot'. io_worker_trial run_batch hist ms ob outs w slot = Some (Inr (w', slot'))
    \<and> sl_ops slot' = sl_batches slot' * batch_units w \<and> ms * 1000000 \<le> sl_end slot' - sl_start slot' \<and> ready w'"
proof -
  let ?obs = "zip outs (ob_nows ob)"
  have fits: "\<forall>(out, t)\<in>set ?obs. fits w out \<and> good w out" using assms(2) by (auto dest: set_zip_leftD)
  have "\<exists>(out, t)\<in>set ?obs. ms * 1000000 \<le> t - ob_t0 ob"
    using assms(3,4) by (force simp: in_set_conv_nth set_zip)
  from io_trial_loop_returns [OF assms(1) fits this] obtain w' ops batches now where
    r: "io_trial_loop run_batch (ms * 1000000) (ob_t0 ob) w 0 0 ?obs = Some (Inr (w', ops, batches, now))"
    by blast
  have "ops = batches * batch_units w \<and> ready w'"
    using io_trial_loop_units [OF r assms(1)] fits by auto
  moreover have "ms * 1000000 \<le> now - ob_t0 ob" using io_trial_loop_runs [OF r] by blast
  ultimately show ?thesis using r by (simp add: io_worker_trial_def)
qed

end

section \<open>Sequential streams\<close>

text \<open>
  A worker's workload together with the shared budget counter and, as a ghost, the file
  ranges its calls have transferred.
\<close>

definition disk_seq_batch ::
  "disk_seq \<times> u64 option \<times> (nat \<times> nat) list \<Rightarrow> io list list \<times> (string \<times> int) option
   \<Rightarrow> ((disk_seq \<times> u64 option \<times> (nat \<times> nat) list) \<times> u64) result option" where
  "disk_seq_batch w out =
     (let (d, budget, touched) = w; (ios, sync) = out in
      case disk_seq_run_batch d budget ios sync of
        None \<Rightarrow> None
      | Some (Inl e) \<Rightarrow> Some (Inl e)
      | Some (Inr (moved, d', budget', segs)) \<Rightarrow> Some (Inr ((d', budget', touched @ segs), of_nat moved)))"

text \<open>The stream position stays in the region, one block before its end at the latest.\<close>

definition seq_ready :: "disk_seq \<Rightarrow> bool" where
  "seq_ready d \<longleftrightarrow> 0 < d_block d \<and> unat (ds_pos d) + unat (d_block d) \<le> unat (ds_region_len d)
     \<and> unat (ds_region_off d) + unat (ds_region_len d) < 2 ^ 63
     \<and> d_batch_units d = of_nat kBlocksPerBatch * d_block d"

definition stays_in :: "nat \<Rightarrow> nat \<Rightarrow> (nat \<times> nat) list \<Rightarrow> bool" where
  "stays_in lo hi segs \<longleftrightarrow> (\<forall>(off, n)\<in>set segs. lo \<le> off \<and> off + n \<le> hi)"

definition bytes_of :: "(nat \<times> nat) list \<Rightarrow> nat" where
  "bytes_of segs = sum_list (map snd segs)"

lemma stays_in_append [simp]: "stays_in lo hi (xs @ ys) \<longleftrightarrow> stays_in lo hi xs \<and> stays_in lo hi ys"
  by (auto simp: stays_in_def)

lemma bytes_append [simp]: "bytes_of (xs @ ys) = bytes_of xs + bytes_of ys"
  by (simp add: bytes_of_def)

lemma tiles_stays_in: "tiles a segs b \<Longrightarrow> a \<le> b \<and> bytes_of segs = b - a \<and> (lo \<le> a \<and> b \<le> hi \<longrightarrow> stays_in lo hi segs)"
  by (induction a segs b rule: tiles.induct) (auto simp: stays_in_def bytes_of_def)

text \<open>One block, whichever way it is transferred.\<close>

lemma block_io:
  assumes "(if wr then full_pwrite len off 0 [] io else full_pread len off 0 [] io) = Some (Inr (n, segs))"
    and "io_fits len io"
  shows "n = len" "bytes_of segs = len" "lo \<le> off \<Longrightarrow> off + len \<le> hi \<Longrightarrow> stays_in lo hi segs"
proof -
  have "n = len \<and> tiles off segs (off + len)"
    using assms(1) full_io [OF assms(2), of off n segs] by (cases wr) simp_all
  then show "n = len" "bytes_of segs = len" "lo \<le> off \<Longrightarrow> off + len \<le> hi \<Longrightarrow> stays_in lo hi segs"
    using tiles_stays_in [of off segs "off + len" lo hi] by auto
qed

lemma seq_blocks:
  assumes "disk_seq_blocks b d ios = Some (Inr (moved, d', segs))" "seq_ready d"
    and "list_all (io_fits (unat (d_block d))) ios"
  shows "moved = b * unat (d_block d) \<and> bytes_of segs = moved
    \<and> stays_in (unat (ds_region_off d)) (unat (ds_region_off d) + unat (ds_region_len d)) segs
    \<and> (\<exists>pos. d' = d\<lparr>ds_pos := pos\<rparr>) \<and> seq_ready d'"
  using assms
proof (induction b arbitrary: d ios moved d' segs)
  case 0
  then show ?case by (auto simp: bytes_of_def stays_in_def intro: exI [of _ "ds_pos d"])
next
  case (Suc b)
  let ?len = "unat (d_block d)" and ?lo = "unat (ds_region_off d)"
  obtain io rest where ios: "ios = io # rest" using Suc.prems(1) by (cases ios) auto
  define pos where "pos = ds_pos d + d_block d"
  define d1 where "d1 = d\<lparr>ds_pos := if ds_region_len d < pos + d_block d then 0 else pos\<rparr>"
  obtain n sg moved2 segs2 where
    n: "(if d_writing d then full_pwrite ?len (unat (ds_region_off d + ds_pos d)) 0 [] io
         else full_pread ?len (unat (ds_region_off d + ds_pos d)) 0 [] io) = Some (Inr (n, sg))"
    and rec: "disk_seq_blocks b d1 rest = Some (Inr (moved2, d', segs2))"
    and out: "moved = n + moved2" "segs = sg @ segs2"
    using Suc.prems(1)
    by (auto simp: ios Let_def d1_def pos_def split: option.splits sum.splits prod.splits if_splits)
  have r: "unat (ds_pos d) + ?len \<le> unat (ds_region_len d)" "?lo + unat (ds_region_len d) < 2 ^ 63"
      "0 < d_block d" "d_batch_units d = of_nat kBlocksPerBatch * d_block d"
    using Suc.prems(2) by (simp_all add: seq_ready_def)
  have off: "unat (ds_region_off d + ds_pos d) = ?lo + unat (ds_pos d)"
    using r(1,2) by (intro unat_add_lem [THEN iffD1]) simp
  have pos: "unat pos = unat (ds_pos d) + ?len"
    unfolding pos_def using r(1,2) by (intro unat_add_lem [THEN iffD1]) simp
  have next_pos: "unat (pos + d_block d) = unat pos + ?len"
    using r(1,2) pos by (intro unat_add_lem [THEN iffD1]) simp
  have d1: "d_block d1 = d_block d" "ds_region_off d1 = ds_region_off d" "ds_region_len d1 = ds_region_len d"
    by (simp_all add: d1_def)
  have "seq_ready d1"
    using r pos next_pos by (auto simp: seq_ready_def d1_def word_less_nat_alt not_less)
  note IH = Suc.IH [OF rec this, unfolded d1]
  have fits: "io_fits ?len io" "list_all (io_fits ?len) rest" using Suc.prems(3) by (simp_all add: ios)
  note io = block_io [OF n fits(1)]
  have "stays_in ?lo (?lo + unat (ds_region_len d)) sg" using io(3) off r(1) by simp
  moreover obtain p where "d' = d1\<lparr>ds_pos := p\<rparr>" using IH fits(2) by blast
  ultimately show ?case
    using IH fits(2) io(1,2) out by (auto simp: d1_def)
qed

lemma disk_seq_batch_returns:
  assumes "disk_seq_batch (d, budget, touched) (ios, sync) = Some (Inr ((d', budget', touched'), n))" "seq_ready d"
    and "list_all (io_fits (unat (d_block d))) ios"
  shows "\<exists>segs pos. touched' = touched @ segs \<and> d' = d\<lparr>ds_pos := pos\<rparr> \<and> seq_ready d' \<and> n = d_batch_units d
    \<and> bytes_of segs = kBlocksPerBatch * unat (d_block d)
    \<and> stays_in (unat (ds_region_off d)) (unat (ds_region_off d) + unat (ds_region_len d)) segs
    \<and> budget' = (if d_writing d then note_written (of_nat (bytes_of segs)) budget else budget)"
proof -
  obtain moved segs where run: "disk_seq_run_batch d budget ios sync = Some (Inr (moved, d', budget', segs))"
      "touched' = touched @ segs" "n = of_nat moved"
    using assms(1) by (auto simp: disk_seq_batch_def split: option.splits sum.splits)
  then have r: "disk_seq_blocks kBlocksPerBatch d ios = Some (Inr (moved, d', segs))"
      "budget' = (if d_writing d then note_written (of_nat moved) budget else budget)"
      "touched' = touched @ segs" "n = of_nat moved"
    by (auto simp: disk_seq_run_batch_def simp del: disk_seq_blocks.simps split: option.splits sum.splits if_splits)
  note b = seq_blocks [OF r(1) assms(2,3)]
  obtain pos where "d' = d\<lparr>ds_pos := pos\<rparr>" using b by blast
  moreover have "n = d_batch_units d" using b assms(2) r(4) by (simp add: seq_ready_def)
  ultimately show ?thesis using b r(2,3) by (intro exI [of _ segs] exI [of _ pos]) simp
qed

definition seq_fits :: "disk_seq \<times> u64 option \<times> (nat \<times> nat) list \<Rightarrow> io list list \<times> (string \<times> int) option \<Rightarrow> bool" where
  "seq_fits w out \<longleftrightarrow> list_all (io_fits (unat (d_block (fst w)))) (fst out)"

interpretation disk_seq: io_workload disk_seq_batch "\<lambda>(d, _, _). d_batch_units d" "\<lambda>(d, _, _). seq_ready d" seq_fits
proof unfold_locales
  fix w w' :: "disk_seq \<times> u64 option \<times> (nat \<times> nat) list" and out n
  assume a: "case w of (d, _, _) \<Rightarrow> seq_ready d" "seq_fits w out" "disk_seq_batch w out = Some (Inr (w', n))"
  obtain d budget touched where w: "w = (d, budget, touched)" by (cases w)
  obtain d' budget' touched' where w': "w' = (d', budget', touched')" by (cases w')
  obtain ios sync where out: "out = (ios, sync)" by (cases out)
  have "list_all (io_fits (unat (d_block d))) ios" using a(2) by (simp add: w out seq_fits_def)
  from disk_seq_batch_returns [OF a(3) [unfolded w w' out] _ this] a(1) obtain pos where
    "d' = d\<lparr>ds_pos := pos\<rparr>" "seq_ready d'" "n = d_batch_units d"
    by (auto simp: w)
  then show "n = (case w of (d, _, _) \<Rightarrow> d_batch_units d) \<and> (case w' of (d, _, _) \<Rightarrow> seq_ready d)
      \<and> (case w' of (d, _, _) \<Rightarrow> d_batch_units d) = (case w of (d, _, _) \<Rightarrow> d_batch_units d) \<and> seq_fits w' = seq_fits w"
    by (simp add: w w' seq_fits_def fun_eq_iff)
qed

text \<open>All batches of a worker: its ranges stay in its region, and the budget counts its bytes.\<close>

lemma seq_batches:
  assumes "run_batches disk_seq_batch (d, budget, touched) outs = Some (d', budget', touched')" "seq_ready d"
    and "\<forall>out\<in>set outs. list_all (io_fits (unat (d_block d))) (fst out)"
  shows "\<exists>segs. touched' = touched @ segs
    \<and> bytes_of segs = length outs * (kBlocksPerBatch * unat (d_block d))
    \<and> stays_in (unat (ds_region_off d)) (unat (ds_region_off d) + unat (ds_region_len d)) segs
    \<and> budget' = (if d_writing d then note_written (of_nat (bytes_of segs)) budget else budget)"
  using assms
proof (induction outs arbitrary: d budget touched)
  case Nil
  then show ?case by (auto simp: bytes_of_def stays_in_def note_written_def option.map_ident)
next
  case (Cons out outs)
  obtain ios sync where out: "out = (ios, sync)" by (cases out)
  obtain d1 b1 t1 n where one: "disk_seq_batch (d, budget, touched) (ios, sync) = Some (Inr ((d1, b1, t1), n))"
    and rest: "run_batches disk_seq_batch (d1, b1, t1) outs = Some (d', budget', touched')"
    using Cons.prems(1) by (auto simp: out split: option.splits sum.splits prod.splits)
  from disk_seq_batch_returns [OF one Cons.prems(2)] Cons.prems(3) obtain sg pos where
    s: "t1 = touched @ sg" "d1 = d\<lparr>ds_pos := pos\<rparr>" "seq_ready d1" "bytes_of sg = kBlocksPerBatch * unat (d_block d)"
      "stays_in (unat (ds_region_off d)) (unat (ds_region_off d) + unat (ds_region_len d)) sg"
      "b1 = (if d_writing d then note_written (of_nat (bytes_of sg)) budget else budget)"
    by (auto simp: out)
  from Cons.IH [OF rest s(3)] Cons.prems(3) obtain sg2 where
    t: "touched' = t1 @ sg2" "bytes_of sg2 = length outs * (kBlocksPerBatch * unat (d_block d))"
      "stays_in (unat (ds_region_off d)) (unat (ds_region_off d) + unat (ds_region_len d)) sg2"
      "budget' = (if d_writing d then note_written (of_nat (bytes_of sg2)) b1 else b1)"
    by (auto simp: s(2))
  have "note_written (of_nat (bytes_of sg2)) (note_written (of_nat (bytes_of sg)) budget)
      = note_written (of_nat (bytes_of (sg @ sg2))) budget"
    by (cases budget) (simp_all add: note_written_def)
  then show ?case using s t by (intro exI [of _ "sg @ sg2"]) simp
qed

text \<open>The base of worker \<open>i\<close> of \<open>n\<close> on a file of \<open>fsize\<close> bytes.\<close>

definition opened_as :: "u64 \<Rightarrow> u64 \<Rightarrow> int \<Rightarrow> int \<Rightarrow> disk_base \<Rightarrow> bool" where
  "opened_as fsize block i n b \<longleftrightarrow>
     d_file_bytes b = fsize \<and> d_block b = block \<and> d_thread_index b = i \<and> d_thread_count b = n"

lemma seq_setup_ready:
  assumes "disk_seq_setup metric (\<lambda>w. Inr (b w)) = Inr d" "\<And>w. opened_as fsize block i n (b w)"
    and "0 < block" "block \<le> fsize" "unat fsize < 2 ^ 63" "0 \<le> i" "i < n" "n < 2 ^ 31"
  shows "seq_ready d" "d_block d = block" "unat (ds_region_off d) = region_off fsize block i n"
    "unat (ds_region_len d) = region_len fsize block i n" "d_writing d = d_writing (b (metric = M_disk_seq_write_bw))"
proof -
  obtain off len where r: "seq_region fsize block i n = (off, len)" by fastforce
  have d: "d = disk_base.extend ((b (metric = M_disk_seq_write_bw))\<lparr>d_batch_units := of_nat kBlocksPerBatch * block\<rparr>)
      \<lparr>ds_region_off = off, ds_region_len = len, ds_pos = 0\<rparr>"
    using assms(1) assms(2) [of "metric = M_disk_seq_write_bw"] r by (simp add: disk_seq_setup_def opened_as_def)
  have inside: "unat block \<le> unat len" "unat off + unat len \<le> unat fsize"
    using seq_region_inside [OF assms(3,4,6-8)] r by simp_all
  show "d_block d = block" "unat (ds_region_off d) = region_off fsize block i n"
    "unat (ds_region_len d) = region_len fsize block i n" "d_writing d = d_writing (b (metric = M_disk_seq_write_bw))"
    using assms(2) r by (simp_all add: d disk_base.defs opened_as_def)
  then show "seq_ready d"
    using inside assms(3,5) r by (simp add: seq_ready_def d disk_base.defs)
qed


text \<open>Two workers on a file of 64 blocks, one batch each; the first writes in two calls per block.\<close>

definition example_base :: "int \<Rightarrow> bool \<Rightarrow> disk_base" where
  "example_base i w = \<lparr>d_path = ''f'', d_file_bytes = 0x40000, d_block = 4096, d_batch_units = 0, d_thread_index = i,
     d_thread_count = 2, d_writing = w, d_dsync = False, d_fadvise_calls = 0\<rparr>"

definition example_seq :: "int \<Rightarrow> disk_seq" where
  "example_seq i = disk_base.extend ((example_base i True)\<lparr>d_batch_units := 65536\<rparr>)
     \<lparr>ds_region_off = fst (seq_region 0x40000 4096 i 2), ds_region_len = snd (seq_region 0x40000 4096 i 2), ds_pos = 0\<rparr>"

lemma example_seq_setup: "disk_seq_setup M_disk_seq_write_bw (\<lambda>w. Inr (example_base i w)) = Inr (example_seq i)"
  by (simp add: disk_seq_setup_def example_base_def example_seq_def split: prod.splits)

lemma example_regions: "seq_region 0x40000 4096 0 2 = (0, 0x20000)" "seq_region 0x40000 4096 1 2 = (0x20000, 0x20000)"
  by (simp_all add: seq_region_def Let_def)

lemma example_seq_values [simp]:
  "d_block (example_seq i) = 4096" "d_writing (example_seq i) = True"
  "ds_pos (example_seq i) = 0" "ds_region_off (example_seq 0) = 0" "ds_region_len (example_seq 0) = 0x20000"
  "ds_region_off (example_seq 1) = 0x20000" "ds_region_len (example_seq 1) = 0x20000"
  by (simp_all add: example_seq_def example_base_def disk_base.defs example_regions)

definition example_ios :: "io list list" where
  "example_ios = replicate 16 [Transferred 1000, Transferred 3096]"

lemma example_batch:
  assumes "d_block d = 4096" "d_writing d"
  shows "\<exists>d' budget' xs n. disk_seq_batch (d, Some 0, []) (example_ios, None) = Some (Inr ((d', budget', xs), n))"
proof -
  have *: "\<exists>m d' xs. disk_seq_blocks k d (replicate k [Transferred 1000, Transferred 3096]) = Some (Inr (m, d', xs))"
    if "d_block d = 4096" "d_writing d" for k d
    using that
  proof (induction k arbitrary: d)
    case (Suc k)
    have "\<exists>m d' xs. disk_seq_blocks k (d\<lparr>ds_pos := p\<rparr>)
        (replicate k [Transferred 1000, Transferred 3096]) = Some (Inr (m, d', xs))" for p
      using Suc.IH [of "d\<lparr>ds_pos := p\<rparr>"] Suc.prems by simp
    from this [of 0] this [of "ds_pos d + 4096"] show ?case
      using Suc.prems by (auto simp: Let_def)
  qed simp
  obtain m d' xs where "disk_seq_blocks 16 d example_ios = Some (Inr (m, d', xs))"
    using * [OF assms(1,2), of 16] by (auto simp: example_ios_def)
  then show ?thesis using assms(2) by (simp add: disk_seq_batch_def disk_seq_run_batch_def)
qed


section \<open>Random calls and their latencies\<close>

definition disk_rand_batch ::
  "(nat \<Rightarrow> u64) \<Rightarrow> disk_rand \<times> u64 option \<times> (nat \<times> nat) list \<Rightarrow> (io list \<times> u64) list
   \<Rightarrow> ((disk_rand \<times> u64 option \<times> (nat \<times> nat) list) \<times> u64) result option" where
  "disk_rand_batch rs w ios =
     (let (d, budget, touched) = w in
      case disk_rand_run_batch rs d budget ios of
        None \<Rightarrow> None
      | Some (Inl e) \<Rightarrow> Some (Inl e)
      | Some (Inr (n, d', budget', segs)) \<Rightarrow> Some (Inr ((d', budget', touched @ segs), of_nat n)))"

text \<open>A trial: \<open>before_trial\<close>, the timed loop, and the publication of the current histogram.\<close>

definition disk_rand_trial ::
  "(nat \<Rightarrow> u64) \<Rightarrow> int \<Rightarrow> trial_obs \<Rightarrow> (io list \<times> u64) list list \<Rightarrow> disk_rand \<times> u64 option \<times> (nat \<times> nat) list \<Rightarrow> Slot
   \<Rightarrow> ((disk_rand \<times> u64 option \<times> (nat \<times> nat) list) \<times> Slot) result option" where
  "disk_rand_trial rs trial_ms ob outs w slot =
     (let (d, budget, touched) = w in
      io_worker_trial (disk_rand_batch rs) (\<lambda>(d, _, _). Some (dr_hist d (dr_cur d), dr_used d (dr_cur d)))
        trial_ms ob outs (disk_rand_before_trial d, budget, touched) slot)"

text \<open>The nanoseconds of the calls of one batch.\<close>

definition call_ns :: "(io list \<times> u64) list \<Rightarrow> u64 list" where
  "call_ns ios = map snd (take kIosPerBatch ios)"

lemma record_latency_draws: "record_latency (d\<lparr>dr_draws := x\<rparr>) ns = (record_latency d ns)\<lparr>dr_draws := x\<rparr>"
  by (simp add: record_latency_def Let_def)

lemma record_latencies_draws: "foldl record_latency (d\<lparr>dr_draws := x\<rparr>) ls = (foldl record_latency d ls)\<lparr>dr_draws := x\<rparr>"
  by (induction ls arbitrary: d) (simp_all add: record_latency_draws)

lemma rand_ios_record:
  assumes "disk_rand_ios rs k d ios = Some (Inr (written, d', segs))"
  shows "k \<le> length ios \<and> d' = (foldl record_latency d (map snd (take k ios)))\<lparr>dr_draws := dr_draws d + k\<rparr>"
  using assms
proof (induction k arbitrary: d ios written d' segs)
  case (Suc k)
  obtain io ns rest where ios: "ios = (io, ns) # rest" using Suc.prems by (cases ios) auto
  obtain w2 segs2 where "disk_rand_ios rs k (record_latency (d\<lparr>dr_draws := dr_draws d + 1\<rparr>) ns) rest = Some (Inr (w2, d', segs2))"
    using Suc.prems by (auto simp: ios Let_def split: option.splits sum.splits prod.splits if_splits)
  from Suc.IH [OF this] show ?case by (simp add: ios record_latency_draws record_latencies_draws)
qed simp

lemma rand_batch_records:
  assumes "disk_rand_batch rs (d, budget, touched) ios = Some (Inr ((d', budget', touched'), n))"
  shows "n = of_nat kIosPerBatch \<and> length (call_ns ios) = kIosPerBatch
    \<and> (\<exists>x. d' = (foldl record_latency d (call_ns ios))\<lparr>dr_draws := x\<rparr>)"
proof -
  obtain m segs where run: "disk_rand_run_batch rs d budget ios = Some (Inr (m, d', budget', segs))" "n = of_nat m"
    using assms by (auto simp: disk_rand_batch_def split: option.splits sum.splits)
  then obtain written where "disk_rand_ios rs kIosPerBatch d ios = Some (Inr (written, d', segs))" "m = kIosPerBatch"
    by (auto simp: disk_rand_run_batch_def simp del: disk_rand_ios.simps split: option.splits sum.splits if_splits)
  from rand_ios_record [OF this(1)] this(2) run(2) show ?thesis by (auto simp: call_ns_def)
qed

interpretation disk_rand: io_workload "disk_rand_batch rs" "\<lambda>_. of_nat kIosPerBatch" "\<lambda>_. True" "\<lambda>_ _. True"
  for rs
proof unfold_locales
  fix w w' :: "disk_rand \<times> u64 option \<times> (nat \<times> nat) list" and out n
  assume "disk_rand_batch rs w out = Some (Inr (w', n))"
  then show "n = of_nat kIosPerBatch \<and> True \<and> (of_nat kIosPerBatch :: u64) = of_nat kIosPerBatch
      \<and> (\<lambda>_ :: (io list \<times> u64) list. True) = (\<lambda>_. True)"
    using rand_batch_records by (cases w, cases w') blast
qed

lemma rand_batches_record:
  assumes "run_batches (disk_rand_batch rs) (d, budget, touched) outs = Some (d', budget', touched')"
  shows "length (concat (map call_ns outs)) = length outs * kIosPerBatch
    \<and> (\<exists>x. d' = (foldl record_latency d (concat (map call_ns outs)))\<lparr>dr_draws := x\<rparr>)"
  using assms
proof (induction outs arbitrary: d budget touched)
  case Nil
  then show ?case by (auto intro: exI [of _ "dr_draws d"])
next
  case (Cons out outs)
  obtain d1 b1 t1 n where one: "disk_rand_batch rs (d, budget, touched) out = Some (Inr ((d1, b1, t1), n))"
    and rest: "run_batches (disk_rand_batch rs) (d1, b1, t1) outs = Some (d', budget', touched')"
    using Cons.prems by (auto split: option.splits sum.splits prod.splits)
  from rand_batch_records [OF one] Cons.IH [OF rest] show ?case
    by (auto simp: record_latencies_draws)
qed

lemma record_used:
  "dr_used d (dr_cur d) \<le> dr_used (foldl record_latency d ls) (dr_cur d)
   \<and> (\<forall>ns\<in>set ls. latency_bucket ns < dr_used (foldl record_latency d ls) (dr_cur d))"
proof (induction ls arbitrary: d)
  case (Cons ns ls)
  have "dr_cur (record_latency d ns) = dr_cur d"
    "dr_used d (dr_cur d) \<le> dr_used (record_latency d ns) (dr_cur d)"
    "latency_bucket ns < dr_used (record_latency d ns) (dr_cur d)"
    by (simp_all add: record_latency_def Let_def)
  with Cons.IH [of "record_latency d ns"] show ?case by auto
qed simp

text \<open>The histogram of a slot counts the latencies \<open>ls\<close>, and its high-water mark is past them.\<close>

definition slot_counts :: "Slot \<Rightarrow> u64 list \<Rightarrow> bool" where
  "slot_counts sl ls \<longleftrightarrow> (\<exists>h. sl_hist sl = Some h \<and> sl_hist_used sl \<le> kLatencyHistogramSize
     \<and> (\<forall>b<kLatencyHistogramSize. unat (h ! b) = length (filter (\<lambda>ns. latency_bucket ns = b) ls))
     \<and> (\<forall>ns\<in>set ls. latency_bucket ns < sl_hist_used sl))"

lemma rand_trial_slot:
  assumes "disk_rand_trial rs ms ob outs (d, budget, touched) slot = Some (Inr (w', slot'))" "hist_inv d"
  shows "\<exists>k. 0 < k \<and> k \<le> length outs \<and> sl_batches slot' = of_nat k \<and> sl_ops slot' = of_nat (kIosPerBatch * k)
    \<and> length (concat (map call_ns (take k outs))) = kIosPerBatch * k
    \<and> ms * 1000000 \<le> sl_end slot' - sl_start slot'
    \<and> (kIosPerBatch * k < 2 ^ 32 \<longrightarrow> slot_counts slot' (concat (map call_ns (take k outs))))"
proof -
  let ?d0 = "disk_rand_before_trial d"
  let ?obs = "zip outs (ob_nows ob)"
  obtain d' b' t' where w': "w' = (d', b', t')" by (cases w')
  obtain ops batches now where loop: "io_trial_loop (disk_rand_batch rs) (ms * 1000000) (ob_t0 ob) (?d0, budget, touched) 0 0 ?obs
      = Some (Inr ((d', b', t'), ops, batches, now))"
    and slot': "sl_ops slot' = ops" "sl_batches slot' = batches" "sl_start slot' = ob_t0 ob" "sl_end slot' = now"
      "sl_hist slot' = Some (dr_hist d' (dr_cur d'))" "sl_hist_used slot' = dr_used d' (dr_cur d')"
    using assms(1) by (auto simp: disk_rand_trial_def io_worker_trial_def w' split: option.splits sum.splits prod.splits)
  obtain k where k: "0 < k" "k \<le> length ?obs" "batches = of_nat k" "ms * 1000000 \<le> now - ob_t0 ob"
      "run_batches (disk_rand_batch rs) (?d0, budget, touched) (take k outs) = Some (d', b', t')"
    using io_trial_loop_runs [OF loop] by (auto simp: take_zip)
  have ops: "ops = batches * of_nat kIosPerBatch"
    using disk_rand.io_trial_loop_units [OF loop] by simp
  let ?ls = "concat (map call_ns (take k outs))"
  have "length (take k outs) = k" using k(2) by simp
  with rand_batches_record [OF k(5)] obtain x where
    rec: "length ?ls = kIosPerBatch * k" "d' = (foldl record_latency ?d0 ?ls)\<lparr>dr_draws := x\<rparr>"
    by (metis mult.commute)
  note clear = before_trial_clears [OF assms(2)] and all = record_all [OF before_trial_clears(1) [OF assms(2)], of ?ls]
  have cur: "dr_cur d' = dr_cur ?d0" using all rec(2) by simp
  have h: "dr_hist d' (dr_cur d') ! b = of_nat (length (filter (\<lambda>ns. latency_bucket ns = b) ?ls))"
    if "b < kLatencyHistogramSize" for b
    using that all [of b] clear(3) [OF that] rec(2) cur by simp
  have le: "length (filter P ?ls) \<le> kIosPerBatch * k" for P using rec(1) length_filter_le by metis
  have "unat (dr_hist d' (dr_cur d') ! b) = length (filter (\<lambda>ns. latency_bucket ns = b) ?ls)"
    if "b < kLatencyHistogramSize" "kIosPerBatch * k < 2 ^ 32" for b
    unfolding h [OF that(1)] using le [of "\<lambda>ns. latency_bucket ns = b"] that(2)
    by (simp add: unat_of_nat take_bit_nat_eq_self)
  moreover have "dr_used d' (dr_cur d') \<le> kLatencyHistogramSize" using all rec(2) by (simp add: hist_inv_def)
  moreover have "\<forall>ns\<in>set ?ls. latency_bucket ns < dr_used d' (dr_cur d')"
    using record_used [of ?d0 ?ls] cur rec(2) by simp
  ultimately have "kIosPerBatch * k < 2 ^ 32 \<longrightarrow> slot_counts slot' ?ls"
    using slot' by (simp add: slot_counts_def)
  then show ?thesis
    using k slot' ops rec(1) by (intro exI [of _ k]) (simp add: mult.commute)
qed

section \<open>The merged percentile\<close>

lemma filter_less_Suc:
  "length (filter (\<lambda>x. f x < Suc b) xs) = length (filter (\<lambda>x. f x < b) xs) + length (filter (\<lambda>x. f x = b) xs)"
  by (induction xs) auto

lemma bucket_nat_merged:
  "list_all2 slot_counts slots lss \<Longrightarrow> b < kLatencyHistogramSize \<Longrightarrow>
   bucket_nat (slot_hists slots) b = length (filter (\<lambda>ns. latency_bucket ns = b) (concat lss))"
proof (induction rule: list_all2_induct)
  case (Cons sl slots ls lss)
  then obtain h where "sl_hist sl = Some h" "unat (h ! b) = length (filter (\<lambda>ns. latency_bucket ns = b) ls)"
    by (auto simp: slot_counts_def)
  with Cons show ?case by (simp add: bucket_nat_def slot_hists_def)
qed (simp add: bucket_nat_def slot_hists_def)

lemma below_merged:
  "list_all2 slot_counts slots lss \<Longrightarrow> b \<le> kLatencyHistogramSize \<Longrightarrow>
   below (slot_hists slots) b = length (filter (\<lambda>ns. latency_bucket ns < b) (concat lss))"
proof (induction b)
  case 0
  then show ?case by (simp add: below_def)
next
  case (Suc b)
  then show ?case by (simp add: below_Suc bucket_nat_merged filter_less_Suc)
qed

lemma used_fold:
  "u \<le> foldl (\<lambda>u s. if P s then max u (f s) else u) u xs
   \<and> (\<forall>x\<in>set xs. P x \<longrightarrow> f x \<le> foldl (\<lambda>u s. if P s then max u (f s) else u) u xs)
   \<and> ((\<forall>x\<in>set xs. f x \<le> m) \<and> u \<le> m \<longrightarrow> foldl (\<lambda>u s. if P s then max u (f s) else u) u xs \<le> (m :: nat))"
proof (induction xs arbitrary: u)
  case (Cons x xs)
  show ?case using Cons.IH [of "if P x then max u (f x) else u"] by auto
qed simp

lemma used_merged:
  assumes "list_all2 slot_counts slots lss"
  shows "hist_used slots \<le> kLatencyHistogramSize" "\<forall>ns\<in>set (concat lss). latency_bucket ns < hist_used slots"
proof -
  have each: "sl_hist_used sl \<le> kLatencyHistogramSize" "sl_hist sl \<noteq> None"
    if "sl \<in> set slots" for sl
    using assms that by (auto simp: slot_counts_def list_all2_conv_all_nth in_set_conv_nth)
  note u = used_fold [of 0 "\<lambda>s. sl_hist s \<noteq> None" sl_hist_used slots kLatencyHistogramSize, folded hist_used_def]
  show "hist_used slots \<le> kLatencyHistogramSize" using u each(1) by simp
  show "\<forall>ns\<in>set (concat lss). latency_bucket ns < hist_used slots"
  proof
    fix ns
    assume "ns \<in> set (concat lss)"
    then obtain ls where "ls \<in> set lss" "ns \<in> set ls" by auto
    then obtain i where i: "i < length lss" "ns \<in> set (lss ! i)" by (metis in_set_conv_nth)
    then have "i < length slots" "slot_counts (slots ! i) (lss ! i)"
      using assms by (auto simp: list_all2_conv_all_nth)
    then have "latency_bucket ns < sl_hist_used (slots ! i)" "slots ! i \<in> set slots"
      using i(2) by (auto simp: slot_counts_def)
    then show "latency_bucket ns < hist_used slots" using u each(2) by fastforce
  qed
qed

lemma bucket_less:
  assumes "b \<le> kLatencyBuckets"
  shows "latency_bucket ns < b \<longleftrightarrow> unat ns < 1000 * b"
proof -
  have us: "unat (ns div 1000) = unat ns div 1000" by (simp add: unat_div)
  have "latency_bucket ns = min kLatencyBuckets (unat ns div 1000)"
    using us by (auto simp: latency_bucket_def Let_def word_le_nat_alt)
  then have "latency_bucket ns < b \<longleftrightarrow> unat ns div 1000 < b" using assms by auto
  also have "\<dots> \<longleftrightarrow> unat ns < b * 1000" by (rule div_less_iff_less_mult) simp
  finally show ?thesis by (simp add: mult.commute)
qed

text \<open>
  (C9) The reported 99th percentile is that of the calls that were timed. Each of the \<open>m\<close>
  threads of a random I/O trial starts from any histograms an earlier trial left, and its trial
  returns; together they timed at most a million calls \<open>calls\<close>, 32 in each batch they counted.
  Then the merged latencies of their slots report a value of \<open>b + 1\<close> microseconds such that
  fewer than \<open>\<lceil>0.99 n\<rceil>\<close> of the \<open>n\<close> calls took less than \<open>b\<close> microseconds and at least that many
  less than \<open>b + 1\<close> (or \<open>b\<close> is the overflow bucket); and the number of samples is \<open>n\<close>. No call of
  an earlier trial and none of a batch that did not finish is counted.
\<close>

theorem disk_p99_of_calls:
  fixes m n :: nat and k :: "nat \<Rightarrow> nat" and outs :: "nat \<Rightarrow> (io list \<times> u64) list list"
  defines "calls \<equiv> concat (map (\<lambda>i. concat (map call_ns (take (k i) (outs i)))) [0..<m])"
  assumes "\<And>i. i < m \<Longrightarrow> hist_inv (d i)"
    and "\<And>i. i < m \<Longrightarrow>
      disk_rand_trial (rs i) ms (ob i) (outs i) (d i, budget i, touched i) (slot i) = Some (Inr (w i, slots ! i))"
    and "length slots = m" "\<And>i. i < m \<Longrightarrow> length (outs i) < 2 ^ 64" "k = (\<lambda>i. unat (sl_batches (slots ! i)))"
    and "0 < m" "n = length calls" "n \<le> 1000000"
  shows "\<exists>b. ls_p99_us (merge_latencies (ieee64 c) slots) = real b + 1
    \<and> length (filter (\<lambda>ns. unat ns < 1000 * b) calls) < (99 * n + 99) div 100
    \<and> (b < kLatencyBuckets \<longrightarrow> (99 * n + 99) div 100 \<le> length (filter (\<lambda>ns. unat ns < 1000 * (b + 1)) calls))
    \<and> ls_samples (merge_latencies (ieee64 c) slots) = of_nat n \<and> n = kIosPerBatch * sum k {..<m}"
proof -
  define L where "L i = concat (map call_ns (take (k i) (outs i)))" for i
  have calls: "calls = concat (map L [0..<m])" by (simp add: calls_def L_def [abs_def])
  have slot: "0 < k i" "length (L i) = kIosPerBatch * k i"
      "kIosPerBatch * k i < 2 ^ 32 \<longrightarrow> slot_counts (slots ! i) (L i)"
    if "i < m" for i
  proof -
    note i = that
    obtain j where j: "0 < j" "j \<le> length (outs i)" "sl_batches (slots ! i) = of_nat j"
        "length (concat (map call_ns (take j (outs i)))) = kIosPerBatch * j"
        "kIosPerBatch * j < 2 ^ 32 \<longrightarrow> slot_counts (slots ! i) (concat (map call_ns (take j (outs i))))"
      using rand_trial_slot [OF assms(3) [OF i] assms(2) [OF i]] by blast
    then have "k i = j" using assms(5) [OF i] assms(6) by (simp add: u64_of_nat)
    then show "0 < k i" "length (L i) = kIosPerBatch * k i"
      "kIosPerBatch * k i < 2 ^ 32 \<longrightarrow> slot_counts (slots ! i) (L i)"
      using j by (simp_all add: L_def)
  qed
  have n: "n = kIosPerBatch * sum k {..<m}"
    unfolding assms(8) calls using slot(2)
    by (simp add: length_concat sum_distrib_left sum_list_distinct_conv_sum_set interv_sum_list_conv_sum_set_nat
      comp_def atLeast0LessThan)
  have each: "kIosPerBatch * k i \<le> n" if "i < m" for i
    unfolding n using that by (intro mult_le_mono2 member_le_sum) auto
  have counts: "list_all2 slot_counts slots (map L [0..<m])"
    using slot(3) each assms(4,9) by (fastforce simp: list_all2_conv_all_nth)
  have pos: "0 < n" using slot(1) [OF assms(7)] each [OF assms(7)] by simp
  note used = used_merged [OF counts, folded calls]
  have all: "n = below (slot_hists slots) (hist_used slots)"
    using below_merged [OF counts used(1)] used(2) unfolding calls [symmetric] assms(8)
    by (metis filter_True)
  obtain b where b: "b < hist_used slots" "ls_p99_us (merge_latencies (ieee64 c) slots) = real b + 1"
      "below (slot_hists slots) b < (99 * n + 99) div 100" "(99 * n + 99) div 100 \<le> below (slot_hists slots) (Suc b)"
      "ls_samples (merge_latencies (ieee64 c) slots) = of_nat n"
    using p99_nearest_rank [OF all pos assms(9), of c] by blast
  have edge: "below (slot_hists slots) a = length (filter (\<lambda>ns. unat ns < 1000 * a) calls)"
    if "a \<le> kLatencyBuckets" for a
    using below_merged [OF counts, of a] that by (simp add: bucket_less flip: calls)
  have "b \<le> kLatencyBuckets" using b(1) used(1) by simp
  then show ?thesis
    using b(2-5) edge [of b] edge [of "b + 1"] n by (intro exI [of _ b]) auto
qed

text \<open>One thread, one batch of 32 reads of 2.5 microseconds each.\<close>

definition example_rand :: disk_rand where
  "example_rand = disk_base.extend ((example_base 0 False)\<lparr>d_batch_units := 32\<rparr>)
     \<lparr>dr_hist = (\<lambda>_. replicate kLatencyHistogramSize 0), dr_used = (\<lambda>_. 0), dr_cur = False, dr_blocks = 64, dr_draws = 0\<rparr>"

lemma example_rand_setup: "disk_rand_setup M_disk_rand_read_iops (\<lambda>w. Inr (example_base 0 w)) = Inr example_rand"
  by (simp add: disk_rand_setup_def example_rand_def example_base_def Let_def)

definition example_calls :: "(io list \<times> u64) list" where
  "example_calls = replicate 32 ([Transferred 4096], 2500)"

definition example_trial_obs :: trial_obs where
  "example_trial_obs = \<lparr>ob_cold_ns = 0, ob_pre_ns = 0, ob_cpu_start = 0, ob_t0 = 0, ob_nows = [2000000], ob_cpu_end = 0\<rparr>"

lemma example_rand_trial:
  "\<exists>w sl. disk_rand_trial rs 1 example_trial_obs [example_calls] (example_rand, None, []) empty_slot = Some (Inr (w, sl))
    \<and> sl_batches sl = 1"
proof -
  have *: "\<exists>m d' xs. disk_rand_ios rs k d (replicate k ([Transferred 4096], 2500)) = Some (Inr (m, d', xs))"
    if "d_block d = 4096" "\<not> d_writing d" for k d
    using that
  proof (induction k arbitrary: d)
    case (Suc k)
    let ?d = "record_latency (d\<lparr>dr_draws := dr_draws d + 1\<rparr>) 2500"
    have "d_block ?d = 4096" "\<not> d_writing ?d" using Suc.prems by (simp_all add: record_latency_def Let_def)
    from Suc.IH [OF this] show ?case using Suc.prems by (auto simp: Let_def)
  qed simp
  let ?d = "disk_rand_before_trial example_rand"
  have "d_block ?d = 4096" "\<not> d_writing ?d"
    by (simp_all add: disk_rand_before_trial_def example_rand_def example_base_def disk_base.defs)
  from * [OF this, of 32] obtain m d' xs where r: "disk_rand_ios rs 32 ?d example_calls = Some (Inr (m, d', xs))"
    by (auto simp: example_calls_def)
  have "disk_rand_batch rs (?d, None, []) example_calls = Some (Inr ((d', None, xs), 32))"
    using r by (simp add: disk_rand_batch_def disk_rand_run_batch_def note_written_def)
  then show ?thesis by (simp add: disk_rand_trial_def io_worker_trial_def example_trial_obs_def)
qed

theorem disk_p99_of_calls_witness:
  "\<exists>w sl. disk_rand_trial (\<lambda>_. 0) 1 example_trial_obs [example_calls] (example_rand, None, []) empty_slot = Some (Inr (w, sl))
    \<and> ls_samples (merge_latencies (ieee64 True) [sl]) = 32 \<and> ls_p99_us (merge_latencies (ieee64 True) [sl]) = 3"
proof -
  obtain w sl where t: "disk_rand_trial (\<lambda>_. 0) 1 example_trial_obs [example_calls] (example_rand, None, []) empty_slot = Some (Inr (w, sl))"
      "sl_batches sl = 1"
    using example_rand_trial by blast
  have calls: "concat (map (\<lambda>i. concat (map call_ns (take (unat (sl_batches ([sl] ! i))) [example_calls]))) [0..<1]) = replicate 32 2500"
    using t(2) by (simp add: call_ns_def example_calls_def)
  have "\<exists>b. ls_p99_us (merge_latencies (ieee64 True) [sl]) = real b + 1
    \<and> length (filter (\<lambda>ns. unat ns < 1000 * b) (replicate 32 (2500 :: u64))) < (99 * 32 + 99) div 100
    \<and> (b < kLatencyBuckets \<longrightarrow> (99 * 32 + 99) div 100 \<le> length (filter (\<lambda>ns. unat ns < 1000 * (b + 1)) (replicate 32 (2500 :: u64))))
    \<and> ls_samples (merge_latencies (ieee64 True) [sl]) = of_nat 32 \<and> 32 = kIosPerBatch * sum (\<lambda>i. unat (sl_batches ([sl] ! i))) {..<1}"
    by (rule disk_p99_of_calls [where m = 1 and n = 32 and k = "\<lambda>i. unat (sl_batches ([sl] ! i))" and outs = "\<lambda>_. [example_calls]"
          and d = "\<lambda>_. example_rand" and slots = "[sl]" and ms = 1 and ob = "\<lambda>_. example_trial_obs" and rs = "\<lambda>_ _. 0"
          and budget = "\<lambda>_. None" and touched = "\<lambda>_. []" and slot = "\<lambda>_. empty_slot" and w = "\<lambda>_. w", unfolded calls])
      (use t hist_inv_setup [OF example_rand_setup] in simp_all)
  then obtain b where b: "ls_p99_us (merge_latencies (ieee64 True) [sl]) = real b + 1"
      "ls_samples (merge_latencies (ieee64 True) [sl]) = 32"
      "length (filter (\<lambda>ns. unat ns < 1000 * b) (replicate 32 (2500 :: u64))) < 32"
      "b < kLatencyBuckets \<longrightarrow> 32 \<le> length (filter (\<lambda>ns. unat ns < 1000 * (b + 1)) (replicate 32 (2500 :: u64)))"
    by auto
  have "b \<le> 2" using b(3) by (cases "unat (2500 :: u64) < 1000 * b") auto
  moreover have "2 \<le> b"
    using b(4) calculation by (cases "unat (2500 :: u64) < 1000 * (b + 1)") auto
  ultimately have "b = 2" by simp
  then show ?thesis using t(1) b(1,2) by (intro exI [of _ w] exI [of _ sl]) simp
qed

section \<open>Only a failing call ends a trial\<close>

definition call_failed :: "io list \<Rightarrow> bool" where
  "call_failed io \<longleftrightarrow> Transferred 0 \<in> set io \<or> (\<exists>e. Io_error e \<in> set io)"

lemma block_fails:
  "(if wr then full_pwrite len off 0 [] io else full_pread len off 0 [] io) = Some (Inl e) \<Longrightarrow> call_failed io"
  using full_io_fails [of len off 0 "[]" io e] by (simp add: call_failed_def split: if_splits)

lemma seq_blocks_fail: "disk_seq_blocks b d ios = Some (Inl e) \<Longrightarrow> \<exists>io\<in>set ios. call_failed io"
proof (induction b d ios rule: disk_seq_blocks.induct)
  case (3 b d io ios)
  show ?case
  proof (cases "call_failed io")
    case False
    let ?off = "unat (ds_region_off d + ds_pos d)" and ?len = "unat (d_block d)"
    obtain n segs where one: "(if d_writing d then full_pwrite ?len ?off 0 [] io else full_pread ?len ?off 0 [] io) = Some (Inr (n, segs))"
      using 3(2) block_fails [of "d_writing d" ?len ?off io] False
      by (auto simp: Let_def split: option.splits sum.splits if_splits)
    then show ?thesis
      using 3 by (auto simp: Let_def split: option.splits sum.splits prod.splits if_splits)
  qed simp
qed simp_all

lemma rand_ios_fail: "disk_rand_ios rs k d ios = Some (Inl e) \<Longrightarrow> \<exists>io\<in>set (map fst ios). call_failed io"
proof (induction k arbitrary: d ios)
  case (Suc k)
  obtain io ns rest where ios: "ios = (io, ns) # rest" using Suc.prems by (cases ios) auto
  show ?case
  proof (cases "call_failed io")
    case True
    then show ?thesis by (simp add: ios)
  next
    case False
    let ?off = "unat ((rs (dr_draws d) mod dr_blocks d) * d_block d)" and ?len = "unat (d_block d)"
    obtain n segs where "(if d_writing d then full_pwrite ?len ?off 0 [] io else full_pread ?len ?off 0 [] io) = Some (Inr (n, segs))"
      using Suc.prems block_fails [of "d_writing d" ?len ?off io] False
      by (auto simp: ios Let_def split: option.splits sum.splits if_splits)
    then have "disk_rand_ios rs k (record_latency (d\<lparr>dr_draws := dr_draws d + 1\<rparr>) ns) rest = Some (Inl e)"
      using Suc.prems by (auto simp: ios Let_def split: option.splits sum.splits prod.splits if_splits)
    from Suc.IH [OF this] show ?thesis by (simp add: ios)
  qed
qed simp

lemma seq_batch_fails:
  assumes "disk_seq_batch w out = Some (Inl e)"
  shows "(\<exists>io\<in>set (fst out). call_failed io) \<or> snd out \<noteq> None"
proof -
  obtain d budget touched ios sync where w: "w = (d, budget, touched)" "out = (ios, sync)" by (cases w, cases out)
  have "disk_seq_run_batch d budget ios sync = Some (Inl e)"
    using assms by (auto simp: w disk_seq_batch_def split: option.splits sum.splits)
  then have "disk_seq_blocks kBlocksPerBatch d ios = Some (Inl e) \<or> sync \<noteq> None"
    by (auto simp: disk_seq_run_batch_def simp del: disk_seq_blocks.simps split: option.splits sum.splits if_splits)
  then show ?thesis using seq_blocks_fail by (auto simp: w)
qed

lemma rand_batch_fails:
  assumes "disk_rand_batch rs w out = Some (Inl e)"
  shows "\<exists>io\<in>set (map fst out). call_failed io"
proof -
  obtain d budget touched where w: "w = (d, budget, touched)" by (cases w)
  have "disk_rand_run_batch rs d budget out = Some (Inl e)"
    using assms by (auto simp: w disk_rand_batch_def split: option.splits sum.splits)
  then have "disk_rand_ios rs kIosPerBatch d out = Some (Inl e)"
    by (auto simp: disk_rand_run_batch_def simp del: disk_rand_ios.simps split: option.splits sum.splits if_splits)
  then show ?thesis by (rule rand_ios_fail)
qed

lemma io_worker_throws:
  assumes "io_worker_trial run hist ms ob outs w slot = Some (Inl e)"
  shows "\<exists>k<length outs. \<exists>v. run_batches run w (take k outs) = Some v \<and> run v (outs ! k) = Some (Inl e)"
proof -
  have "io_trial_loop run (ms * 1000000) (ob_t0 ob) w 0 0 (zip outs (ob_nows ob)) = Some (Inl e)"
    using assms by (auto simp: io_worker_trial_def split: option.splits sum.splits)
  then obtain k v where k: "k < length (zip outs (ob_nows ob))"
      "run_batches run w (map fst (take k (zip outs (ob_nows ob)))) = Some v"
      "run v (fst (zip outs (ob_nows ob) ! k)) = Some (Inl e)"
    by (auto simp: io_trial_loop_throws)
  then have "map fst (take k (zip outs (ob_nows ob))) = take k outs" by (simp add: take_zip)
  with k show ?thesis by auto
qed

text \<open>
  (C20) A disk trial ends with an exception only when a system call failed. When a worker's trial
  on a sequential or a random workload throws, there is a first batch that threw:
  all earlier batches returned, and in that batch a read or write returned an error or no byte, or
  the \<open>fdatasync\<close> after it failed. (\<open>worker\<close> does not catch the exception: the slot of
  the trial is not written, and the process ends.)
\<close>

theorem disk_trial_errors:
  "(io_worker_trial disk_seq_batch hist ms ob outs (s, budget, touched) slot = Some (Inl e) \<longrightarrow>
      (\<exists>k<length outs. \<exists>v. run_batches disk_seq_batch (s, budget, touched) (take k outs) = Some v
        \<and> disk_seq_batch v (outs ! k) = Some (Inl e)
        \<and> ((\<exists>io\<in>set (fst (outs ! k)). call_failed io) \<or> snd (outs ! k) \<noteq> None)))
   \<and> (disk_rand_trial rs ms ob calls (r, budget, touched) slot = Some (Inl e) \<longrightarrow>
      (\<exists>k<length calls. \<exists>v. run_batches (disk_rand_batch rs) (disk_rand_before_trial r, budget, touched) (take k calls) = Some v
        \<and> disk_rand_batch rs v (calls ! k) = Some (Inl e) \<and> (\<exists>io\<in>set (map fst (calls ! k)). call_failed io)))"
  using io_worker_throws [of disk_seq_batch hist ms ob outs "(s, budget, touched)" slot e] seq_batch_fails
    io_worker_throws [of "disk_rand_batch rs" _ ms ob calls "(disk_rand_before_trial r, budget, touched)" slot e] rand_batch_fails
  unfolding disk_rand_trial_def by (simp, meson)

theorem disk_trial_errors_witness:
  "\<exists>e. io_worker_trial disk_seq_batch (\<lambda>_. None) 1 example_trial_obs [([[Io_error ''EIO'']], None)] (example_seq 0, None, []) empty_slot
      = Some (Inl e)
    \<and> (\<exists>k<1. \<exists>v. run_batches disk_seq_batch (example_seq 0, None, []) (take k [([[Io_error ''EIO'']], None)]) = Some v
        \<and> disk_seq_batch v ([([[Io_error ''EIO'']], None)] ! k) = Some (Inl e))"
proof -
  have "\<exists>e. disk_seq_blocks (Suc b) (example_seq 0) [[Io_error ''EIO'']] = Some (Inl e)" for b by simp
  from this [of 15] obtain e where "disk_seq_blocks kBlocksPerBatch (example_seq 0) [[Io_error ''EIO'']] = Some (Inl e)"
    by auto
  then have "io_worker_trial disk_seq_batch (\<lambda>_. None) 1 example_trial_obs [([[Io_error ''EIO'']], None)] (example_seq 0, None, []) empty_slot
      = Some (Inl e)"
    by (simp add: io_worker_trial_def example_trial_obs_def disk_seq_batch_def disk_seq_run_batch_def)
  then show ?thesis
    using conjunct1 [OF disk_trial_errors [where hist = "\<lambda>_. None" and ms = 1 and ob = example_trial_obs and s = "example_seq 0"
        and outs = "[([[Io_error ''EIO'']], None)]" and budget = None and touched = "[]" and slot = empty_slot and e = e]]
    by (intro exI [of _ e]) fastforce
qed

section \<open>Trials without a failing call return\<close>

lemma block_returns:
  assumes "len \<le> length io" "\<not> call_failed io"
  shows "\<exists>n segs. (if wr then full_pwrite len off 0 [] io else full_pread len off 0 [] io) = Some (Inr (n, segs))"
proof -
  obtain r where r: "(if wr then full_pwrite len off 0 [] io else full_pread len off 0 [] io) = Some r"
    using full_io_returns [of len 0 io off "[]"] assms(1) by (cases wr) auto
  have "r \<noteq> Inl e" for e using block_fails [of wr len off io e] r assms(2) by auto
  then show ?thesis using r by (metis sum.exhaust surj_pair)
qed

definition calls_good :: "nat \<Rightarrow> io list list \<Rightarrow> bool" where
  "calls_good len ios \<longleftrightarrow> (\<forall>io\<in>set ios. len \<le> length io \<and> \<not> call_failed io)"

lemma seq_blocks_return:
  "b \<le> length ios \<Longrightarrow> calls_good (unat (d_block d)) ios \<Longrightarrow> \<exists>r. disk_seq_blocks b d ios = Some (Inr r)"
proof (induction b arbitrary: d ios)
  case (Suc b)
  obtain io rest where ios: "ios = io # rest" using Suc.prems(1) by (cases ios) auto
  have g: "unat (d_block d) \<le> length io" "\<not> call_failed io" "calls_good (unat (d_block d)) rest" "b \<le> length rest"
    using Suc.prems by (simp_all add: ios calls_good_def)
  obtain n segs where one: "(if d_writing d then full_pwrite (unat (d_block d)) (unat (ds_region_off d + ds_pos d)) 0 [] io
      else full_pread (unat (d_block d)) (unat (ds_region_off d + ds_pos d)) 0 [] io) = Some (Inr (n, segs))"
    using block_returns [OF g(1,2)] by blast
  have "\<exists>m d' xs. disk_seq_blocks b (d\<lparr>ds_pos := p\<rparr>) rest = Some (Inr (m, d', xs))" for p
    using Suc.IH [of rest "d\<lparr>ds_pos := p\<rparr>"] g(3,4) by auto
  from this [of 0] this [of "ds_pos d + d_block d"] show ?case
    using one by (auto simp: ios Let_def)
qed simp

lemma rand_ios_return:
  "k \<le> length ios \<Longrightarrow> calls_good (unat (d_block d)) (map fst ios) \<Longrightarrow> \<exists>r. disk_rand_ios rs k d ios = Some (Inr r)"
proof (induction k arbitrary: d ios)
  case (Suc k)
  obtain io ns rest where ios: "ios = (io, ns) # rest" using Suc.prems(1) by (cases ios) auto
  have g: "unat (d_block d) \<le> length io" "\<not> call_failed io" "calls_good (unat (d_block d)) (map fst rest)" "k \<le> length rest"
    using Suc.prems by (simp_all add: ios calls_good_def)
  let ?off = "unat ((rs (dr_draws d) mod dr_blocks d) * d_block d)"
  obtain n segs where one: "(if d_writing d then full_pwrite (unat (d_block d)) ?off 0 [] io
      else full_pread (unat (d_block d)) ?off 0 [] io) = Some (Inr (n, segs))"
    using block_returns [OF g(1,2)] by blast
  let ?d = "record_latency (d\<lparr>dr_draws := dr_draws d + 1\<rparr>) ns"
  have "d_block ?d = d_block d" by (simp add: record_latency_def Let_def)
  then obtain m d' xs where "disk_rand_ios rs k ?d rest = Some (Inr (m, d', xs))"
    using Suc.IH [of rest ?d] g(3,4) by auto
  then show ?case using one by (auto simp: ios Let_def)
qed simp

definition seq_good :: "disk_seq \<times> u64 option \<times> (nat \<times> nat) list \<Rightarrow> io list list \<times> (string \<times> int) option \<Rightarrow> bool" where
  "seq_good w out \<longleftrightarrow> kBlocksPerBatch \<le> length (fst out) \<and> calls_good (unat (d_block (fst w))) (fst out) \<and> snd out = None"

definition rand_good :: "disk_rand \<times> u64 option \<times> (nat \<times> nat) list \<Rightarrow> (io list \<times> u64) list \<Rightarrow> bool" where
  "rand_good w ios \<longleftrightarrow> kIosPerBatch \<le> length ios \<and> calls_good (unat (d_block (fst w))) (map fst ios)"

interpretation disk_seq: io_workload_live disk_seq_batch "\<lambda>(d, _, _). d_batch_units d" "\<lambda>(d, _, _). seq_ready d" seq_fits seq_good
proof unfold_locales
  fix w :: "disk_seq \<times> u64 option \<times> (nat \<times> nat) list" and out
  assume a: "case w of (d, _, _) \<Rightarrow> seq_ready d" "seq_fits w out" "seq_good w out"
  obtain d budget touched ios sync where w: "w = (d, budget, touched)" "out = (ios, sync)" by (cases w, cases out)
  obtain moved d' segs where "disk_seq_blocks kBlocksPerBatch d ios = Some (Inr (moved, d', segs))"
    using seq_blocks_return [of kBlocksPerBatch ios d] a(3) by (auto simp: w seq_good_def)
  then obtain w' n where r: "disk_seq_batch w out = Some (Inr (w', n))"
    using a(3) by (cases "d_writing d") (auto simp: w disk_seq_batch_def disk_seq_run_batch_def seq_good_def)
  obtain d1 b1 t1 where w': "w' = (d1, b1, t1)" by (cases w')
  have "list_all (io_fits (unat (d_block d))) ios" "seq_ready d" using a(1,2) by (simp_all add: w seq_fits_def)
  from disk_seq_batch_returns [OF r [unfolded w w'] this(2,1)] have "d_block d1 = d_block d" by auto
  then show "\<exists>w' n. disk_seq_batch w out = Some (Inr (w', n)) \<and> seq_good w' = seq_good w"
    using r by (intro exI [of _ w'] exI [of _ n]) (simp add: w w' seq_good_def fun_eq_iff)
qed

lemma record_latencies_block: "d_block (foldl record_latency d ls) = d_block d"
  by (induction ls arbitrary: d) (simp_all add: record_latency_def Let_def)

interpretation disk_rand: io_workload_live "disk_rand_batch rs" "\<lambda>_. of_nat kIosPerBatch" "\<lambda>_. True" "\<lambda>_ _. True" rand_good
  for rs
proof unfold_locales
  fix w :: "disk_rand \<times> u64 option \<times> (nat \<times> nat) list" and ios
  assume a: "rand_good w ios"
  obtain d budget touched where w: "w = (d, budget, touched)" by (cases w)
  obtain written d' segs where "disk_rand_ios rs kIosPerBatch d ios = Some (Inr (written, d', segs))"
    using rand_ios_return [of kIosPerBatch ios d rs] a by (auto simp: w rand_good_def)
  then obtain w' n where r: "disk_rand_batch rs w ios = Some (Inr (w', n))"
    by (cases "d_writing d") (auto simp: w disk_rand_batch_def disk_rand_run_batch_def)
  obtain d1 b1 t1 where w': "w' = (d1, b1, t1)" by (cases w')
  from rand_batch_records [OF r [unfolded w w']] have "d_block d1 = d_block d" by (auto simp: record_latencies_block)
  then show "\<exists>w' n. disk_rand_batch rs w ios = Some (Inr (w', n)) \<and> rand_good w' = rand_good w"
    using r by (intro exI [of _ w'] exI [of _ n]) (simp add: w w' rand_good_def fun_eq_iff)
qed

text \<open>
  (C10) Without a failing call a disk trial returns and counts whole batches. For a sequential
  workload in its region and a random one in any state: when every system call moves at least a byte
  and no more than was asked for, the sync succeeds, and the clock passes the length of the trial,
  the worker's trial ends with a slot, after at least that length, whose operations are its batches
  times the size of a batch, 16 blocks or 32 calls.
\<close>

theorem disk_trial_returns:
  assumes "\<exists>now\<in>set (ob_nows ob). ms * 1000000 \<le> now - ob_t0 ob"
    and "length outs = length (ob_nows ob)" "length calls = length (ob_nows ob)"
    and "seq_ready s" "\<forall>out\<in>set outs. list_all (io_fits (unat (d_block s))) (fst out) \<and> kBlocksPerBatch \<le> length (fst out)
        \<and> calls_good (unat (d_block s)) (fst out) \<and> snd out = None"
    and "\<forall>ios\<in>set calls. kIosPerBatch \<le> length ios \<and> calls_good (unat (d_block r)) (map fst ios)"
  shows "(\<exists>w sl. io_worker_trial disk_seq_batch (\<lambda>_. None) ms ob outs (s, budget, touched) slot = Some (Inr (w, sl))
      \<and> sl_ops sl = sl_batches sl * (of_nat kBlocksPerBatch * d_block s) \<and> ms * 1000000 \<le> sl_end sl - sl_start sl)
    \<and> (\<exists>w sl. disk_rand_trial rs ms ob calls (r, budget, touched) slot = Some (Inr (w, sl))
      \<and> sl_ops sl = sl_batches sl * of_nat kIosPerBatch \<and> ms * 1000000 \<le> sl_end sl - sl_start sl)"
proof
  show "\<exists>w sl. io_worker_trial disk_seq_batch (\<lambda>_. None) ms ob outs (s, budget, touched) slot = Some (Inr (w, sl))
      \<and> sl_ops sl = sl_batches sl * (of_nat kBlocksPerBatch * d_block s) \<and> ms * 1000000 \<le> sl_end sl - sl_start sl"
    using disk_seq.io_worker_trial_returns [OF _ _ assms(2,1), of "(s, budget, touched)" "\<lambda>_. None" slot] assms(4,5)
    by (force simp: seq_fits_def seq_good_def seq_ready_def)
  have b: "d_block (disk_rand_before_trial r) = d_block r" by (simp add: disk_rand_before_trial_def Let_def)
  show "\<exists>w sl. disk_rand_trial rs ms ob calls (r, budget, touched) slot = Some (Inr (w, sl))
      \<and> sl_ops sl = sl_batches sl * of_nat kIosPerBatch \<and> ms * 1000000 \<le> sl_end sl - sl_start sl"
    using disk_rand.io_worker_trial_returns [OF _ _ assms(3,1), of "(disk_rand_before_trial r, budget, touched)" rs _ slot] assms(6)
    by (simp add: disk_rand_trial_def rand_good_def b)
qed

text \<open>A witness with the shortest possible transfers: every call moves a single byte.\<close>

definition bytewise :: "io list" where
  "bytewise = replicate 4096 (Transferred 1)"

lemma bytewise_fits: "io_fits n (replicate k (Transferred 1))"
  by (induction k arbitrary: n) (simp_all, arith)

lemma bytewise_good: "calls_good (unat (4096 :: u64)) (replicate k bytewise)"
  by (simp add: calls_good_def bytewise_def call_failed_def)

lemma example_seq_ready: "seq_ready (example_seq 0)"
proof -
  have "opened_as 0x40000 4096 0 2 (example_base 0 w)" for w by (simp add: opened_as_def example_base_def)
  from seq_setup_ready(1) [OF example_seq_setup this] show ?thesis by simp
qed

theorem disk_trial_returns_witness:
  "(\<exists>w sl. io_worker_trial disk_seq_batch (\<lambda>_. None) 1 example_trial_obs [(replicate 16 bytewise, None)] (example_seq 0, None, []) empty_slot
      = Some (Inr (w, sl)) \<and> sl_ops sl = sl_batches sl * 65536)
   \<and> (\<exists>w sl. disk_rand_trial (\<lambda>_. 0) 1 example_trial_obs [replicate 32 (bytewise, 2500)] (example_rand, None, []) empty_slot
      = Some (Inr (w, sl)) \<and> sl_ops sl = sl_batches sl * 32)"
proof -
  have b: "d_block example_rand = 4096" by (simp add: example_rand_def example_base_def disk_base.defs)
  have now: "\<exists>now\<in>set (ob_nows example_trial_obs). 1 * 1000000 \<le> now - ob_t0 example_trial_obs"
    by (simp add: example_trial_obs_def)
  have seq: "\<forall>out\<in>set [(replicate 16 bytewise, None :: (string \<times> int) option)].
      list_all (io_fits (unat (d_block (example_seq 0)))) (fst out)
      \<and> kBlocksPerBatch \<le> length (fst out) \<and> calls_good (unat (d_block (example_seq 0))) (fst out) \<and> snd out = None"
    using bytewise_good [of 16] bytewise_fits by (simp add: list_all_iff bytewise_def)
  have rand: "\<forall>ios\<in>set [replicate 32 (bytewise, 2500 :: u64)]. kIosPerBatch \<le> length ios
      \<and> calls_good (unat (d_block example_rand)) (map fst ios)"
    using bytewise_good [of 32] by (simp add: b)
  show ?thesis
    using disk_trial_returns [OF now _ _ example_seq_ready seq rand, of None "[]" empty_slot "\<lambda>_. 0"]
    by (simp add: example_trial_obs_def) blast
qed

end
