(* ===== verification/Interleave.thy ===== *)
theory Interleave
  imports Runner
begin

text \<open>
  Interleaved runs (\<open>--interleave\<close>, the first branch of \<open>run_benchmarks\<close> in
  \<^verbatim>\<open>engine/src/runner.cpp\<close>): all configurations are alive at once and get one trial each per
  round. The loop over the rounds ends, and every session gets the trials a sequential run would
  give it.
\<close>

section \<open>One trial brings a session nearer its end\<close>

text \<open>\<open>m\<close> is a bound on the length of a trial in nanoseconds.\<close>

definition on_time :: "RunConfig \<Rightarrow> int \<Rightarrow> trial_outcome \<Rightarrow> bool" where
  "on_time cfg m t \<longleftrightarrow> rc_trial_ms cfg * 1000000 \<le> int (trial_ns t) \<and> int (trial_ns t) \<le> m"

definition on_track :: "RunConfig \<Rightarrow> int \<Rightarrow> 'j ConfigSession \<Rightarrow> bool" where
  "on_track cfg m s \<longleftrightarrow> 0 \<le> sn_warmups_done s \<and> 0 \<le> sn_timed_done s \<and> sn_timed_done s \<le> rc_trials cfg
     \<and> sn_warmups_done s \<le> max_warmups cfg
     \<and> (sn_warmups_done s + sn_timed_done s) * rc_trial_ms cfg * 1000000 \<le> int (unat (sn_active_ns s))
     \<and> int (unat (sn_active_ns s)) \<le> (sn_warmups_done s + sn_timed_done s) * m"

text \<open>The most trials the session can still need.\<close>

definition trials_left :: "RunConfig \<Rightarrow> 'j ConfigSession \<Rightarrow> nat" where
  "trials_left cfg s =
     (if wants_more_trials cfg s
      then nat (max_warmups cfg - sn_warmups_done s + (rc_trials cfg - sn_timed_done s)) else 0)"

definition sane_config :: "RunConfig \<Rightarrow> int \<Rightarrow> bool" where
  "sane_config cfg m \<longleftrightarrow> 1 \<le> rc_trials cfg \<and> 1 \<le> rc_trial_ms cfg \<and> 0 \<le> rc_warmup_ms cfg \<and> rc_warmup_ms cfg < 2 ^ 31
     \<and> 0 \<le> rc_warmup_trials cfg \<and> 0 \<le> m \<and> (max_warmups cfg + rc_trials cfg) * m < 2 ^ 64"

lemma on_track_wants:
  assumes "sane_config cfg m" "on_track cfg m s" "wants_more_trials cfg s"
  shows "in_warmup cfg s \<Longrightarrow> sn_warmups_done s < max_warmups cfg"
    and "\<not> in_warmup cfg s \<Longrightarrow> sn_timed_done s < rc_trials cfg" and "0 < trials_left cfg s"
proof -
  show w: "sn_warmups_done s < max_warmups cfg" if "in_warmup cfg s"
    using warmup_needed [OF that] assms(1,2) by (simp add: on_track_def sane_config_def)
  show t: "sn_timed_done s < rc_trials cfg" if "\<not> in_warmup cfg s"
    using that assms(3) by (simp add: wants_more_trials_def)
  show "0 < trials_left cfg s"
    using w t assms(2,3) by (cases "in_warmup cfg s") (auto simp: trials_left_def on_track_def)
qed

lemma trial_on_track:
  fixes L :: "'j json_lib" and A :: fp and clock :: ClockCheck
  assumes "sane_config cfg m" "on_track cfg m s" "wants_more_trials cfg s" "on_time cfg m t"
  defines "s' \<equiv> fst (run_one_trial L A cfg clock t s)"
  shows "on_track cfg m s' \<and> trials_left cfg s' \<le> trials_left cfg s - 1"
proof -
  let ?k = "sn_warmups_done s + sn_timed_done s"
  note n = run_one_trial_counts [where cfg = cfg and s = s and L = L and A = A and clock = clock and t = t, folded s'_def]
  note less = on_track_wants(1,2) [OF assms(1-3)]
  have k: "sn_warmups_done s' + sn_timed_done s' = ?k + 1" using n(1,2) by (cases "in_warmup cfg s") auto
  have "?k + 1 \<le> max_warmups cfg + rc_trials cfg"
    using less assms(2) by (cases "in_warmup cfg s") (auto simp: on_track_def)
  then have "(?k + 1) * m \<le> (max_warmups cfg + rc_trials cfg) * m"
    using assms(1) by (intro mult_right_mono) (simp_all add: sane_config_def)
  then have bound: "int (unat (sn_active_ns s)) + int (trial_ns t) \<le> (?k + 1) * m" "(?k + 1) * m < 2 ^ 64"
    using assms(1,2,4) by (auto simp: on_track_def on_time_def sane_config_def distrib_right)
  then have "int (unat (sn_active_ns s) + trial_ns t) < int (2 ^ 64)" by simp
  then have "unat (sn_active_ns s) + trial_ns t < 2 ^ 64" by (simp only: of_nat_less_iff)
  then have act: "unat (sn_active_ns s') = unat (sn_active_ns s) + trial_ns t"
    unfolding n(3) by (subst unat_add_lt) (simp_all add: u64_of_nat)
  have "(sn_warmups_done s' + sn_timed_done s') * rc_trial_ms cfg * 1000000 \<le> int (unat (sn_active_ns s'))"
    unfolding k using assms(2,4) unfolding act by (simp add: on_track_def on_time_def distrib_right)
  moreover have "int (unat (sn_active_ns s')) \<le> (sn_warmups_done s' + sn_timed_done s') * m"
    unfolding k using bound(1) unfolding act by simp
  moreover have "0 \<le> sn_warmups_done s' \<and> 0 \<le> sn_timed_done s' \<and> sn_timed_done s' \<le> rc_trials cfg
      \<and> sn_warmups_done s' \<le> max_warmups cfg"
    using n(1,2) less assms(2) by (cases "in_warmup cfg s") (auto simp: on_track_def)
  ultimately have track: "on_track cfg m s'" unfolding on_track_def by blast
  have "nat (max_warmups cfg - sn_warmups_done s' + (rc_trials cfg - sn_timed_done s'))
      = nat (max_warmups cfg - sn_warmups_done s + (rc_trials cfg - sn_timed_done s)) - 1"
    using k by linarith
  then have "trials_left cfg s' \<le> trials_left cfg s - 1"
    unfolding trials_left_def using assms(3) by (simp only: if_True split: if_split) simp
  with track show ?thesis by blast
qed

section \<open>Rounds\<close>

text \<open>What a round does to a session.\<close>

definition round_step :: "RunConfig \<Rightarrow> int \<Rightarrow> 'j ConfigSession \<Rightarrow> 'j ConfigSession \<Rightarrow> bool" where
  "round_step cfg m s s' \<longleftrightarrow> on_track cfg m s' \<and> trials_left cfg s' \<le> trials_left cfg s - 1
     \<and> (\<not> wants_more_trials cfg s \<longrightarrow> s' = s)"

definition undisturbed_round :: "RunConfig \<Rightarrow> int \<Rightarrow> int \<Rightarrow> nat \<Rightarrow> (stop_obs \<times> trial_outcome) list \<Rightarrow> bool" where
  "undisturbed_round cfg deadline m n obs \<longleftrightarrow> n \<le> length obs
     \<and> list_all (\<lambda>(ob, t). should_stop cfg deadline ob = stop_none \<and> on_time cfg m t) obs"

lemma round_trials_step:
  assumes "sane_config cfg m" "undisturbed_round cfg deadline m (length ss) obs" "list_all (on_track cfg m) ss"
  shows "\<exists>ss'. round_trials L A cfg deadline clock obs ss = Some (ss', list_ex (wants_more_trials cfg) ss, stop_none)
    \<and> list_all2 (round_step cfg m) ss ss'"
  using assms(2,3)
proof (induction ss arbitrary: obs)
  case (Cons s ss)
  obtain ob t rest where obs: "obs = (ob, t) # rest"
    using Cons.prems(1) by (cases obs) (auto simp: undisturbed_round_def)
  have h: "should_stop cfg deadline ob = stop_none" "on_time cfg m t" "undisturbed_round cfg deadline m (length ss) rest"
      "on_track cfg m s" "list_all (on_track cfg m) ss"
    using Cons.prems by (auto simp: obs undisturbed_round_def)
  obtain ss' where ss': "round_trials L A cfg deadline clock rest ss = Some (ss', list_ex (wants_more_trials cfg) ss, stop_none)"
      "list_all2 (round_step cfg m) ss ss'"
    using Cons.IH [OF h(3,5)] by blast
  define s' where "s' = (if wants_more_trials cfg s then fst (run_one_trial L A cfg clock t s) else s)"
  have "round_step cfg m s s'"
  proof (cases "wants_more_trials cfg s")
    case True
    then show ?thesis using trial_on_track [OF assms(1) h(4) True h(2), of L A clock] by (simp add: s'_def round_step_def)
  next
    case False
    then show ?thesis using h(4) by (simp add: s'_def round_step_def trials_left_def)
  qed
  then show ?case using ss' h(1) by (simp add: obs Let_def s'_def)
qed simp

lemma round_steps_left:
  "list_all2 (round_step cfg m) ss ss' \<Longrightarrow> list_all (\<lambda>s. trials_left cfg s \<le> Suc k) ss \<Longrightarrow>
   list_all (\<lambda>s. trials_left cfg s \<le> k) ss' \<and> list_all (on_track cfg m) ss' \<and> length ss' = length ss"
  by (induction rule: list_all2_induct) (auto simp: round_step_def)

lemma round_loop_ends:
  assumes "sane_config cfg m" "list_all (undisturbed_round cfg deadline m (length ss)) rounds"
    and "list_all (on_track cfg m) ss" "list_all (\<lambda>s. trials_left cfg s \<le> k) ss" "k < length rounds"
  shows "\<exists>ss'. round_loop L A cfg deadline clock rounds ss = Some (ss', stop_none) \<and> length ss' = length ss
    \<and> list_all (on_track cfg m) ss' \<and> list_all (\<lambda>s. \<not> wants_more_trials cfg s) ss'"
  using assms(2-5)
proof (induction rounds arbitrary: ss k)
  case (Cons obs rounds)
  have "undisturbed_round cfg deadline m (length ss) obs" using Cons.prems(1) by simp
  then obtain ss' where r: "round_trials L A cfg deadline clock obs ss = Some (ss', list_ex (wants_more_trials cfg) ss, stop_none)"
      "list_all2 (round_step cfg m) ss ss'"
    using round_trials_step [OF assms(1) _ Cons.prems(2)] by blast
  show ?case
  proof (cases "list_ex (wants_more_trials cfg) ss")
    case True
    then obtain s where s: "s \<in> set ss" "wants_more_trials cfg s" by (auto simp: list_ex_iff)
    then have "on_track cfg m s" using Cons.prems(2) by (simp add: list_all_iff)
    then have "0 < trials_left cfg s" by (rule on_track_wants(3) [OF assms(1) _ s(2)])
    then have "0 < k" using s(1) Cons.prems(3) by (fastforce simp: list_all_iff)
    then obtain j where j: "k = Suc j" by (cases k) auto
    note st = round_steps_left [OF r(2), of j] Cons.prems(3)
    have "\<exists>ss''. round_loop L A cfg deadline clock rounds ss' = Some (ss'', stop_none) \<and> length ss'' = length ss'
        \<and> list_all (on_track cfg m) ss'' \<and> list_all (\<lambda>s. \<not> wants_more_trials cfg s) ss''"
      using st Cons.prems(1,4) by (intro Cons.IH [of ss' j]) (simp_all add: j)
    then show ?thesis using r True st by (auto simp: j)
  next
    case False
    then have "list_all (\<lambda>s. \<not> wants_more_trials cfg s) ss" by (simp add: list_ex_iff list_all_iff)
    moreover have "ss' = ss"
      using r(2) calculation by (induction rule: list_all2_induct) (auto simp: round_step_def)
    ultimately show ?thesis using r False Cons.prems(2) by simp
  qed
qed simp

text \<open>
  (C7) An interleaved run ends. When no trial is shorter than \<open>trial_ms\<close> or longer than \<open>m\<close>
  nanoseconds, and nothing asks the run to stop, the loop over the rounds returns after at most
  \<open>max(warmup_trials, ceil(warmup_ms / trial_ms)) + trials + 1\<close> rounds, whatever the number of
  configurations, and then every configuration has all its timed trials, no more than that first
  number of warm-up trials, and its own warm-up floors reached, counting only its own trials.
\<close>

theorem interleaved_run_ends:
  assumes "validate_config cfg = Inr ()" "rc_warmup_ms cfg < 2 ^ 31" "0 \<le> m" "(max_warmups cfg + rc_trials cfg) * m < 2 ^ 64"
    and "list_all (undisturbed_round cfg deadline m (length sps)) rounds"
      "max_warmups cfg + rc_trials cfg < int (length rounds)"
  shows "\<exists>ss. round_loop L A cfg deadline clock rounds
        (map (\<lambda>(sp, rep). new_session cfg cpus True sp rep) (zip sps (map rep_of sps))) = Some (ss, stop_none)
    \<and> length ss = length sps
    \<and> (\<forall>s\<in>set ss. sn_timed_done s = rc_trials cfg \<and> rc_warmup_trials cfg \<le> sn_warmups_done s
        \<and> sn_warmups_done s \<le> max_warmups cfg \<and> word_of_int (rc_warmup_ms cfg) * 1000000 \<le> sn_active_ns s)"
proof -
  let ?ss = "map (\<lambda>(sp, rep). new_session cfg cpus True sp rep) (zip sps (map rep_of sps))"
  have sane: "sane_config cfg m"
    using assms(1-4) by (auto simp: sane_config_def validate_config_def split: if_splits)
  then have w: "0 \<le> max_warmups cfg" by (simp add: sane_config_def max_warmups_def le_max_iff_disj)
  let ?k = "nat (max_warmups cfg + rc_trials cfg)"
  have new: "on_track cfg m (new_session cfg cpus True sp rep)" "trials_left cfg (new_session cfg cpus True sp rep) \<le> ?k" for sp rep
    using sane w by (simp_all add: on_track_def trials_left_def new_session_def sane_config_def)
  have all: "list_all (on_track cfg m) ?ss" "list_all (\<lambda>s. trials_left cfg s \<le> ?k) ?ss"
    using new by (auto simp: list_all_iff)
  have "list_all (undisturbed_round cfg deadline m (length ?ss)) rounds" "?k < length rounds"
    using assms(5,6) sane w by (simp_all add: sane_config_def nat_less_iff)
  from round_loop_ends [OF sane this(1) all this(2)] obtain ss where
    ss: "round_loop L A cfg deadline clock rounds ?ss = Some (ss, stop_none)" "length ss = length ?ss"
      "list_all (on_track cfg m) ss" "list_all (\<lambda>s. \<not> wants_more_trials cfg s) ss"
    by blast
  have "sn_timed_done s = rc_trials cfg \<and> rc_warmup_trials cfg \<le> sn_warmups_done s
      \<and> sn_warmups_done s \<le> max_warmups cfg \<and> word_of_int (rc_warmup_ms cfg) * 1000000 \<le> sn_active_ns s"
    if "s \<in> set ss" for s
  proof -
    have "on_track cfg m s" "\<not> wants_more_trials cfg s" using ss(3,4) that by (simp_all add: list_all_iff)
    then show ?thesis by (simp add: on_track_def wants_more_trials_def in_warmup_def not_less)
  qed
  then show ?thesis using ss(1,2) by auto
qed

definition example_round :: "(stop_obs \<times> trial_outcome) list" where
  "example_round = replicate 2 (\<lparr>so_abort = False, so_bytes_written = 0, so_now = 2\<rparr>, example_trial)"

theorem interleaved_run_ends_witness:
  "\<exists>s1 s2. round_loop json_values exact_fp example_config 0 (canary exact_fp (int, None)) (replicate 2 example_round)
      (map (\<lambda>(sp, rep). new_session example_config [] True sp rep)
        (zip (replicate 2 \<lparr>sp_kind = W_cpu_int, sp_metrics = [M_cpu_int_ops], sp_threads = 1, sp_working_set = 0\<rparr>)
          (replicate 2 (pe_report example_pool)))) = Some ([s1, s2], stop_none)
    \<and> sn_timed_done s1 = 1 \<and> sn_timed_done s2 = 1"
proof -
  let ?sps = "replicate 2 \<lparr>sp_kind = W_cpu_int, sp_metrics = [M_cpu_int_ops], sp_threads = 1, sp_working_set = 0\<rparr>"
  have "validate_config example_config = Inr ()"
    by (simp add: validate_config_def example_config_def isfinite_def)
  moreover have "list_all (undisturbed_round example_config 0 2000000 (length ?sps)) (replicate 2 example_round)"
    by (simp add: undisturbed_round_def on_time_def example_round_def should_stop_def example_config_def example_options_def
        trial_ns_def example_trial_def ns_between_def list_all_iff)
  moreover have "rc_warmup_ms example_config < 2 ^ 31"
      "max_warmups example_config + rc_trials example_config < int (length (replicate 2 example_round))"
      "(max_warmups example_config + rc_trials example_config) * 2000000 < 2 ^ 64"
    by (simp_all add: example_config_def max_warmups_def)
  ultimately obtain ss where
    ss: "round_loop json_values exact_fp example_config 0 (canary exact_fp (int, None)) (replicate 2 example_round)
        (map (\<lambda>(sp, rep). new_session example_config [] True sp rep) (zip ?sps (map (\<lambda>_. pe_report example_pool) ?sps)))
        = Some (ss, stop_none)"
      "length ss = length ?sps" "\<forall>s\<in>set ss. sn_timed_done s = rc_trials example_config"
    using interleaved_run_ends [where cfg = example_config and m = 2000000 and sps = ?sps and deadline = 0
        and rounds = "replicate 2 example_round" and L = json_values and A = exact_fp
        and clock = "canary exact_fp (int, None)" and cpus = "[]" and rep_of = "\<lambda>_. pe_report example_pool"]
    by auto
  obtain s1 s2 where "ss = [s1, s2]" using ss(2) by (auto simp: length_Suc_conv numeral_2_eq_2)
  then show ?thesis using ss(1,3) by (auto simp: example_config_def)
qed

end
