(* ===== verification/Cli.thy ===== *)
theory Cli
  imports Runner
begin

text \<open>
  The command line of \<^verbatim>\<open>engine/src/main.cpp\<close>: sizes and lists, and how \<open>bench run\<close> turns its
  options into the configuration of a run. The option parser itself (CLI11) is outside the
  repository: the values it stores are the record \<open>run_args\<close>, and \<open>CLI::ValidationError\<close> is the
  exception \<open>Validation_error\<close>.
\<close>

section \<open>Sizes and lists\<close>

definition toupper :: "char \<Rightarrow> char" where
  "toupper c = (let n = (of_char c :: nat) in if 97 \<le> n \<and> n \<le> 122 then char_of (n - 32) else c)"

definition parse_size :: "string \<Rightarrow> u64 result" where
  "parse_size s =
     (case from_chars_unsigned 10 (2 ^ 64) s of
        FC_ok n used \<Rightarrow>
          let v = of_nat n; suffix = map toupper (drop used s) in
          if suffix = [] \<or> suffix = ''B'' then Inr v
          else if suffix = ''K'' \<or> suffix = ''KB'' \<or> suffix = ''KIB'' then Inr (push_bit 10 v)
          else if suffix = ''M'' \<or> suffix = ''MB'' \<or> suffix = ''MIB'' then Inr (push_bit 20 v)
          else if suffix = ''G'' \<or> suffix = ''GB'' \<or> suffix = ''GIB'' then Inr (push_bit 30 v)
          else Inl (Validation_error ''size'' (''unknown suffix: '' @ s))
      | _ \<Rightarrow> Inl (Validation_error ''size'' (''not a number: '' @ s)))"

text \<open>The loop of \<open>split_csv\<close>; \<open>cur\<close> is the local string.\<close>

fun split_loop :: "string \<Rightarrow> string \<Rightarrow> string list" where
  "split_loop cur [] = (if cur \<noteq> [] then [cur] else [])"
| "split_loop cur (c # s) =
     (if c = CHR '','' then (if cur \<noteq> [] then cur # split_loop [] s else split_loop [] s)
      else if c \<noteq> CHR '' '' then split_loop (cur @ [c]) s else split_loop cur s)"

definition split_csv :: "string \<Rightarrow> string list" where
  "split_csv s = split_loop [] s"

section \<open>Options of a run\<close>

text \<open>\<open>ra_cfg\<close> holds the members CLI11 writes directly into the configuration, with their defaults.\<close>

record run_args =
  ra_all :: bool
  ra_workloads_csv :: string
  ra_metrics_csv :: string
  ra_threads_csv :: string
  ra_ws_csv :: string
  ra_write_budget :: string
  ra_trial_ms_given :: bool
  ra_cold :: string
  ra_pin :: bool
  ra_interleave :: bool
  ra_verbose :: bool
  ra_cpus_csv :: string
  ra_cfg :: RunConfig

definition select_workload :: "string \<Rightarrow> Workload result" where
  "select_workload name =
     (case parse_workload name of
        None \<Rightarrow> Inl (Validation_error ''--workload'' (''unknown workload: '' @ name))
      | Some w \<Rightarrow>
          if \<not> is_implemented w then Inl (Validation_error ''--workload'' (''not implemented yet: '' @ name))
          else Inr w)"

definition select_metric :: "string \<Rightarrow> Metric result" where
  "select_metric name =
     (case parse_metric name of
        None \<Rightarrow> Inl (Validation_error ''--metric'' (''unknown metric: '' @ name))
      | Some m \<Rightarrow>
          if \<not> is_implemented (workload_of m) then Inl (Validation_error ''--metric'' (''not implemented yet: '' @ name))
          else if is_rider m then
            Inl (Validation_error ''--metric'' (name @ '' is reported alongside the metric whose trials it summarizes; select that one instead''))
          else Inr m)"

definition all_workloads :: "bool \<Rightarrow> Workload list" where
  "all_workloads all' = (if all' then map wd_kind (filter wd_implemented workload_registry) else [])"

definition is_disk_write :: "Metric \<Rightarrow> bool" where
  "is_disk_write m \<longleftrightarrow> m = M_disk_seq_write_bw \<or> m = M_disk_rand_write_iops"

text \<open>The write gate on the selected workloads and metrics (lines 315-350).\<close>

definition write_gate :: "bool \<Rightarrow> bool \<Rightarrow> Workload list \<Rightarrow> Metric list \<Rightarrow> (Workload list \<times> Metric list) result" where
  "write_gate allow_writes explicit ws ms =
     (if allow_writes then Inr (ws, ms)
      else
        rbind (rmap (\<lambda>m. if is_disk_write m \<and> explicit
                 then Inl (Validation_error ''--metric'' (metric_to_string m @ '' writes to the test file; pass --allow-writes''))
                 else Inr ()) ms) (\<lambda>_.
        let ms = filter (\<lambda>m. \<not> is_disk_write m) ms in
        rbind (rmap (\<lambda>w. rmap (\<lambda>m. if is_disk_write m \<and> explicit
                 then Inl (Validation_error ''--workload'' (workload_to_string w
                   @ '' includes write metrics; pass --allow-writes or select --metric explicitly''))
                 else Inr ()) (metrics_of w)) ws) (\<lambda>_.
        if \<not> explicit then Inr ([], concat (map (\<lambda>w. filter (\<lambda>m. \<not> is_disk_write m) (metrics_of w)) ws))
        else Inr (ws, ms))))"

definition is_disk :: "Workload \<Rightarrow> bool" where
  "is_disk w \<longleftrightarrow> w = W_disk_seq \<or> w = W_disk_rand"

definition any_disk :: "Workload list \<Rightarrow> Metric list \<Rightarrow> bool" where
  "any_disk ws ms \<longleftrightarrow> list_ex (\<lambda>m. is_disk (workload_of m)) ms \<or> list_ex is_disk ws"

text \<open>The settings that do not depend on the selection, and the longer trials of the disk metrics.\<close>

definition run_settings :: "run_args \<Rightarrow> u64 \<Rightarrow> Workload list \<Rightarrow> Metric list \<Rightarrow> RunConfig result" where
  "run_settings a budget ws ms =
     (let cfg = ra_cfg a in
      rbind (rmap stoi (split_csv (ra_threads_csv a))) (\<lambda>threads.
      rbind (rmap parse_size (split_csv (ra_ws_csv a))) (\<lambda>sizes.
      rbind (case parse_cold_mode (ra_cold a) of
               None \<Rightarrow> Inl (Runtime_error ''bad optional access'') | Some cold \<Rightarrow> Inr cold) (\<lambda>cold.
      rbind (rmap stoi (split_csv (ra_cpus_csv a))) (\<lambda>cpus.
      if rc_cpus cfg @ cpus \<noteq> [] \<and> \<not> ra_pin a then Inl (Validation_error ''--cpus'' ''requires --pin'')
      else
        Inr (cfg\<lparr>rc_workloads := ws, rc_metrics := ms, rc_thread_counts := threads, rc_working_sets := sizes,
             rc_trial_ms := (if \<not> ra_trial_ms_given a \<and> any_disk ws ms then 500 else rc_trial_ms cfg),
             rc_opts := (rc_opts cfg)\<lparr>wo_write_budget_bytes := budget\<rparr>, rc_verbose := ra_verbose a,
             rc_cold := cold, rc_pin := ra_pin a, rc_interleave := ra_interleave a, rc_cpus := rc_cpus cfg @ cpus\<rparr>))))))"

text \<open>The callback of \<open>bench run\<close> up to the call of \<open>run_benchmarks\<close>.\<close>

definition run_config :: "run_args \<Rightarrow> RunConfig result" where
  "run_config a =
     (let cfg = ra_cfg a in
      rbind (rmap select_workload (split_csv (ra_workloads_csv a))) (\<lambda>named.
      let ws = rc_workloads cfg @ all_workloads (ra_all a) @ named in
      rbind (rmap select_metric (split_csv (ra_metrics_csv a))) (\<lambda>named_metrics.
      let ms = rc_metrics cfg @ named_metrics in
      if ws = [] \<and> ms = [] then Inl (Validation_error ''--workload'' ''no workloads selected (or --all/--metric)'')
      else
        rbind (parse_size (ra_write_budget a)) (\<lambda>budget.
        rbind (write_gate (wo_allow_writes (rc_opts cfg)) (ms \<noteq> [] \<or> ra_workloads_csv a \<noteq> []) ws ms) (\<lambda>(ws, ms).
        run_settings a budget ws ms)))))"

section \<open>Sizes\<close>

text \<open>The scale of a suffix, in any mix of cases.\<close>

definition suffix_shift :: "string \<Rightarrow> nat option" where
  "suffix_shift u =
     (let v = map toupper u in
      if v \<in> {[], ''B''} then Some 0 else if v \<in> {''K'', ''KB'', ''KIB''} then Some 10
      else if v \<in> {''M'', ''MB'', ''MIB''} then Some 20 else if v \<in> {''G'', ''GB'', ''GIB''} then Some 30 else None)"

lemma parse_size_suffix:
  assumes "from_chars_unsigned 10 (2 ^ 64) s = FC_ok n used" "suffix_shift (drop used s) = Some k"
  shows "parse_size s = Inr (push_bit k (of_nat n))"
proof -
  define v where "v = map toupper (drop used s)"
  note p = parse_size_def [of s, unfolded assms(1) from_chars.case Let_def, folded v_def]
  note q = assms(2) [unfolded suffix_shift_def Let_def, folded v_def]
  show ?thesis
  proof (cases "v \<in> {[], ''B''}")
    case True
    with p q show ?thesis by simp
  next
    case F0: False
    show ?thesis
    proof (cases "v \<in> {''K'', ''KB'', ''KIB''}")
      case True
      with p q F0 show ?thesis by simp
    next
      case F1: False
      show ?thesis
      proof (cases "v \<in> {''M'', ''MB'', ''MIB''}")
        case True
        with p q F0 F1 show ?thesis by simp
      next
        case False
        then have "v \<in> {''G'', ''GB'', ''GIB''} \<and> k = 30" using q F0 F1 by (simp split: if_splits)
        with p F0 F1 False show ?thesis by simp
      qed
    qed
  qed
qed

lemma toupper_digit: "is_digit 10 c \<Longrightarrow> toupper c = c"
  by (auto simp: is_digit_def digit_val_def toupper_def Let_def split: if_splits)

lemma suffix_no_digit:
  assumes "suffix_shift u = Some k"
  shows "u = [] \<or> \<not> is_digit 10 (hd u)"
proof (cases u)
  case (Cons c cs)
  define S where "S = {[], ''B'', ''K'', ''KB'', ''KIB'', ''M'', ''MB'', ''MIB'', ''G'', ''GB'', ''GIB''}"
  have "map toupper u \<in> S"
    by (rule ccontr) (use assms in \<open>simp add: suffix_shift_def Let_def S_def\<close>)
  then have "toupper c # map toupper cs \<in> S" unfolding Cons list.map(2) .
  then have "toupper c \<in> {CHR ''B'', CHR ''K'', CHR ''M'', CHR ''G''}" unfolding S_def by simp (elim disjE; simp)
  moreover have "\<not> is_digit 10 CHR ''B''" "\<not> is_digit 10 CHR ''K''" "\<not> is_digit 10 CHR ''M''" "\<not> is_digit 10 CHR ''G''"
    by (simp_all add: is_digit_def digit_val_def)
  ultimately have "\<not> is_digit 10 (toupper c)" by (elim insertE) simp_all
  then show ?thesis using toupper_digit [of c] by (cases "is_digit 10 c") (simp_all add: Cons)
qed simp

text \<open>
  A size on the command line means what it says, as far as 64 bits go: a decimal number with
  a suffix of any case is that number times the power of two the suffix stands for, reduced modulo
  \<open>2 ^ 64\<close> (so the value is exact whenever it fits), and a number that does not fit by itself is
  rejected.
\<close>

theorem parse_size_value:
  assumes "suffix_shift u = Some k"
  shows "(n < 2 ^ 64 \<longrightarrow> (\<exists>v. parse_size (to_dec n @ u) = Inr v \<and> unat v = n * 2 ^ k mod 2 ^ 64))
    \<and> (2 ^ 64 \<le> n \<longrightarrow> (\<exists>msg. parse_size (to_dec n @ u) = Inl (Validation_error ''size'' msg)))"
proof (intro conjI impI)
  note d = dec_digits [of n]
  have tw: "takeWhile (is_digit 10) (to_dec n @ u) = to_dec n"
    using d suffix_no_digit [OF assms] by (simp add: list_all_takeWhile)
  show "\<exists>msg. parse_size (to_dec n @ u) = Inl (Validation_error ''size'' msg)" if "2 ^ 64 \<le> n"
    using d that tw by (simp add: parse_size_def from_chars_unsigned_def Let_def)
  assume n: "n < 2 ^ 64"
  have fc: "from_chars_unsigned 10 (2 ^ 64) (to_dec n @ u) = FC_ok n (length (to_dec n))"
    using d n tw by (simp add: from_chars_unsigned_def Let_def)
  have sh: "unat (push_bit i (of_nat n :: u64)) = n * 2 ^ i mod 2 ^ 64" for i
    using n u64_of_nat [of n] by (simp add: unsigned_push_bit_eq push_bit_eq_mult [where 'a = nat] take_bit_eq_mod del: push_bit_of_nat)
  have "parse_size (to_dec n @ u) = Inr (push_bit k (of_nat n))" using parse_size_suffix [OF fc] assms by simp
  then show "\<exists>v. parse_size (to_dec n @ u) = Inr v \<and> unat v = n * 2 ^ k mod 2 ^ 64" using sh by blast
qed

text \<open>Sizes a user may type.\<close>

theorem parse_size_value_witness: "\<exists>v. parse_size ''4kib'' = Inr v \<and> unat v = 4096"
proof -
  have "suffix_shift ''kib'' = Some 10" by code_simp
  moreover have "to_dec 4 = ''4''" by code_simp
  ultimately show ?thesis using parse_size_value [of "''kib''" 10 4] by simp
qed

text \<open>
  The shift of \<open>parse_size\<close> loses the bits above 64: a budget of \<open>17179869184G\<close> is read as 0,
  which means that there is no limit.
\<close>

lemma write_budget_wraps: "parse_size ''17179869184G'' = Inr 0"
proof -
  have "from_chars_unsigned 10 (2 ^ 64) ''17179869184G'' = FC_ok 17179869184 11"
    by (simp add: from_chars_unsigned_def Let_def digit_val_def is_digit_def digits_val_def)
  then have "parse_size ''17179869184G'' = Inr (push_bit 30 (of_nat 17179869184))"
    by (rule parse_size_suffix) code_simp
  then show ?thesis by simp
qed

section \<open>Writing to the disk\<close>

lemma rmap_Inr_all: "rmap f xs = Inr ys \<Longrightarrow> x \<in> set xs \<Longrightarrow> \<exists>y. f x = Inr y"
  by (induction xs arbitrary: ys) (auto simp: rbind_eq_Inr)

text \<open>Without the permission no selected metric writes, and no metric of a selected workload.\<close>

lemma write_gate_none:
  assumes "write_gate False explicit ws ms = Inr (ws', ms')"
  shows "list_all (\<lambda>m. \<not> is_disk_write m) ms' \<and> list_all (\<lambda>w. list_all (\<lambda>m. \<not> is_disk_write m) (metrics_of w)) ws'"
proof (cases explicit)
  case True
  then obtain u where out: "ws' = ws" "ms' = filter (\<lambda>m. \<not> is_disk_write m) ms"
    and u: "rmap (\<lambda>w. rmap (\<lambda>m. if is_disk_write m \<and> explicit
                 then Inl (Validation_error ''--workload'' (workload_to_string w
                   @ '' includes write metrics; pass --allow-writes or select --metric explicitly''))
                 else Inr ()) (metrics_of w)) ws = Inr u"
    using assms by (auto simp: write_gate_def rbind_eq_Inr Let_def)
  have "\<not> is_disk_write m" if "w \<in> set ws" "m \<in> set (metrics_of w)" for w m
    using rmap_Inr_all [OF u that(1)] rmap_Inr_all [OF _ that(2)] True by (fastforce split: if_splits)
  then show ?thesis by (simp add: out list_all_iff)
next
  case False
  then show ?thesis using assms by (auto simp: write_gate_def rbind_eq_Inr Let_def list_all_iff)
qed

lemma riders_no_write: "r \<in> set (riders_of m) \<Longrightarrow> \<not> is_disk_write r"
  by (auto simp: riders_of_def is_disk_write_def split: if_splits)

lemma run_specs_metrics:
  assumes "run_specs cfg = Inr sps" "sp \<in> set sps"
  shows "\<exists>m. m \<in> set (run_metrics cfg) \<and> sp_metrics sp = m # riders_of m"
proof -
  obtain yss where yss: "rmap (metric_specs cfg) (run_metrics cfg) = Inr yss" "sps = concat yss"
    using assms(1) by (auto simp: run_specs_def rbind_eq_Inr)
  have one: "\<exists>m. m \<in> set ms \<and> metric_specs cfg m = Inr y" if "rmap (metric_specs cfg) ms = Inr yss" "y \<in> set yss" for ms yss y
    using that
  proof (induction ms arbitrary: yss)
    case (Cons m ms)
    then show ?case by (cases "metric_specs cfg m = Inr y") (fastforce simp: rbind_eq_Inr)+
  qed simp
  obtain y where y: "y \<in> set yss" "sp \<in> set y" using yss(2) assms(2) by auto
  then obtain m where m: "m \<in> set (run_metrics cfg)" "metric_specs cfg m = Inr y" using one [OF yss(1)] by blast
  then have "sp_metrics sp = m # riders_of m" using y(2) by (auto simp: metric_specs_def Let_def split: if_splits)
  with m(1) show ?thesis by blast
qed

lemma run_settings_selection:
  assumes "run_settings a budget ws ms = Inr cfg"
  shows "rc_workloads cfg = ws \<and> rc_metrics cfg = ms"
  using assms by (auto simp: run_settings_def Let_def rbind_eq_Inr split: if_split_asm)

lemma run_config_settings: "run_config a = Inr cfg \<Longrightarrow> \<exists>budget ws ms. run_settings a budget ws ms = Inr cfg"
  by (clarsimp simp: run_config_def Let_def rbind_eq_Inr split: if_split_asm) blast

text \<open>Every configuration the command line accepts went through the write gate.\<close>

lemma run_config_gate:
  assumes "run_config a = Inr cfg"
  shows "\<exists>explicit ws ms. write_gate (wo_allow_writes (rc_opts (ra_cfg a))) explicit ws ms = Inr (rc_workloads cfg, rc_metrics cfg)"
  using assms run_settings_selection
  by (clarsimp simp: run_config_def Let_def rbind_eq_Inr split: if_split_asm) blast

lemma write_gate_all:
  "write_gate False False ws ms =
     Inr ([], concat (map (\<lambda>w. filter (\<lambda>m. \<not> is_disk_write m) (metrics_of w)) ws))"
proof -
  have unit: "\<exists>u. rmap (\<lambda>x. Inr ()) xs = Inr u" for xs :: "'b list"
    by (induction xs) auto
  have unit': "\<exists>u. rmap (\<lambda>x. rmap (\<lambda>y. Inr ()) (f x)) xs = Inr u" for xs :: "'b list" and f :: "'b \<Rightarrow> 'c list"
  proof (induction xs)
    case (Cons x xs)
    then show ?case using unit [of "f x"] by auto
  qed simp
  show ?thesis
    using unit [of ms] unit' [of metrics_of ws] by (auto simp: write_gate_def Let_def)
qed

lemma all_workloads_complete: "set (all_workloads True) = UNIV"
proof -
  have "w \<in> set (all_workloads True)" for w by (cases w) (simp_all add: all_workloads_def workload_registry_def)
  then show ?thesis by blast
qed

lemma metrics_of_set: "m \<in> set (metrics_of w) \<longleftrightarrow> workload_of m = w \<and> \<not> is_rider m"
  by (cases w; cases m) (simp_all add: metrics_of_table is_rider_def)

text \<open>
  (C14) Without \<open>--allow-writes\<close> no configuration of an accepted command line measures a metric that
  writes to the disk, whatever mix of \<open>--all\<close>, \<open>--workload\<close> and \<open>--metric\<close> selected it, riders
  included. The permission only removes those two metrics: \<open>--all\<close> alone still selects every other
  metric that is not a rider.
\<close>

theorem no_unasked_writes:
  assumes "run_config a = Inr cfg" "\<not> wo_allow_writes (rc_opts (ra_cfg a))" "run_specs cfg = Inr sps"
  shows "list_all (\<lambda>sp. list_all (\<lambda>m. \<not> is_disk_write m) (sp_metrics sp)) sps
    \<and> (ra_all a \<and> ra_workloads_csv a = [] \<and> ra_metrics_csv a = [] \<and> rc_workloads (ra_cfg a) = [] \<and> rc_metrics (ra_cfg a) = [] \<longrightarrow>
        set (rc_metrics cfg) = {m. \<not> is_rider m \<and> \<not> is_disk_write m})"
proof (intro conjI impI)
  obtain explicit ws ms where "write_gate False explicit ws ms = Inr (rc_workloads cfg, rc_metrics cfg)"
    using run_config_gate [OF assms(1)] assms(2) by auto
  note g = write_gate_none [OF this]
  have "\<not> is_disk_write m" if "m \<in> set (run_metrics cfg)" for m
    using that g by (auto simp: run_metrics_def list_all_iff split: if_splits)
  then show "list_all (\<lambda>sp. list_all (\<lambda>m. \<not> is_disk_write m) (sp_metrics sp)) sps"
    using run_specs_metrics [OF assms(3)] riders_no_write by (fastforce simp: list_all_iff)
next
  assume all: "ra_all a \<and> ra_workloads_csv a = [] \<and> ra_metrics_csv a = [] \<and> rc_workloads (ra_cfg a) = [] \<and> rc_metrics (ra_cfg a) = []"
  have "\<exists>budget. run_settings a budget []
      (concat (map (\<lambda>w. filter (\<lambda>m. \<not> is_disk_write m) (metrics_of w)) (all_workloads True))) = Inr cfg"
    using assms(1,2) all
    by (auto simp: run_config_def Let_def rbind_eq_Inr split_csv_def write_gate_all split: if_split_asm)
  then have "rc_metrics cfg = concat (map (\<lambda>w. filter (\<lambda>m. \<not> is_disk_write m) (metrics_of w)) (all_workloads True))"
    using run_settings_selection by blast
  then show "set (rc_metrics cfg) = {m. \<not> is_rider m \<and> \<not> is_disk_write m}"
    by (auto simp: all_workloads_complete metrics_of_set)
qed

lemma run_specs_total: "\<exists>sps. run_specs cfg = Inr sps"
proof -
  have "\<exists>yss. rmap (metric_specs cfg) ms = Inr yss" for ms
    by (induction ms) (auto simp: metric_specs_def Let_def is_implemented_all)
  then obtain yss where "rmap (metric_specs cfg) (run_metrics cfg) = Inr yss" by blast
  then show ?thesis by (simp add: run_specs_def)
qed

definition example_args :: run_args where
  "example_args = \<lparr>ra_all = True, ra_workloads_csv = [], ra_metrics_csv = [], ra_threads_csv = ''1, 2'', ra_ws_csv = ''1M'',
     ra_write_budget = ''1G'', ra_trial_ms_given = False, ra_cold = ''clflush'', ra_pin = False, ra_interleave = False,
     ra_verbose = False, ra_cpus_csv = [],
     ra_cfg = example_config\<lparr>rc_workloads := [], rc_metrics := []\<rparr>\<rparr>"

theorem no_unasked_writes_witness:
  "\<exists>cfg sps. run_config example_args = Inr cfg \<and> run_specs cfg = Inr sps \<and> rc_thread_counts cfg = [1, 2]
    \<and> rc_trial_ms cfg = 500 \<and> list_all (\<lambda>sp. list_all (\<lambda>m. \<not> is_disk_write m) (sp_metrics sp)) sps
    \<and> set (rc_metrics cfg) = {m. \<not> is_rider m \<and> \<not> is_disk_write m}"
proof -
  have "split_csv ''1, 2'' = [''1'', ''2'']" "split_csv ''1M'' = [''1M'']" "split_csv [] = []"
    by (simp_all add: split_csv_def)
  moreover have "stoi ''1'' = Inr 1" by code_simp
  moreover have "stoi ''2'' = Inr 2" by code_simp
  moreover have "parse_cold_mode ''clflush'' = Some CM_clflush" by code_simp
  moreover have "parse_size ''1M'' = Inr 1048576"
    using parse_size_suffix [of "''1M''" 1 1 20] by (simp add: from_chars_unsigned_def Let_def digit_val_def is_digit_def digits_val_def suffix_shift_def toupper_def)
  moreover have "parse_size ''1G'' = Inr 1073741824"
    using parse_size_suffix [of "''1G''" 1 1 30] by (simp add: from_chars_unsigned_def Let_def digit_val_def is_digit_def digits_val_def suffix_shift_def toupper_def)
  moreover have "any_disk [] (concat (map (\<lambda>w. filter (\<lambda>m. \<not> is_disk_write m) (metrics_of w)) (all_workloads True)))"
    by (simp add: any_disk_def is_disk_def all_workloads_def workload_registry_def metrics_of_table is_disk_write_def)
  moreover have "all_workloads True \<noteq> []" by (simp add: all_workloads_def workload_registry_def)
  ultimately have "\<exists>cfg. run_config example_args = Inr cfg \<and> rc_thread_counts cfg = [1, 2] \<and> rc_trial_ms cfg = 500"
    by (simp add: run_config_def run_settings_def example_args_def example_config_def example_options_def write_gate_all)
  then obtain cfg where cfg: "run_config example_args = Inr cfg" "rc_thread_counts cfg = [1, 2]" "rc_trial_ms cfg = 500" by blast
  obtain sps where sps: "run_specs cfg = Inr sps" using run_specs_total by blast
  show ?thesis
    using no_unasked_writes [OF cfg(1) _ sps] cfg sps by (simp add: example_args_def example_config_def example_options_def)
qed

end
