(* ===== verification/Progress.thy ===== *)
theory Progress
  imports Cli
begin

text \<open>
  What the user of \<open>bench run\<close> sees besides the document: the line that \<open>--verbose\<close> prints for
  every result (\<^verbatim>\<open>engine/src/main.cpp\<close>, the progress callback), and which errors of the options
  are reported by the option parser and which leave the program.
\<close>

section \<open>The progress line\<close>

text \<open>
  \<open>r.params[key]\<close> on a constant object: a missing key is undefined behaviour (the outer
  \<open>None\<close>), a value of another type throws.
\<close>

definition js_at :: "'j json_lib \<Rightarrow> ('j \<Rightarrow> string + 'a) \<Rightarrow> 'j \<Rightarrow> string \<Rightarrow> 'a result option" where
  "js_at L get j key =
     (case js_find L j key of
        None \<Rightarrow> None
      | Some v \<Rightarrow> Some (case get v of Inl e \<Rightarrow> Inl (Json_error e) | Inr x \<Rightarrow> Inr x))"

text \<open>The fields of the line; the text of a formatted number is left to \<open>std::format\<close>.\<close>

record ProgressLine =
  pl_workload :: string
  pl_thread_count :: int
  pl_label :: string
  pl_trial :: int
  pl_value :: fpval
  pl_unit :: string
  pl_ms :: fpval
  pl_spread_us :: fpval
  pl_cold :: string
  pl_prep_us :: fpval
  pl_pin_violations :: int
  pl_cpus :: string

text \<open>Each number with a space after it, then \<open>pop_back\<close>.\<close>

definition progress_cpus :: "int list \<Rightarrow> string" where
  "progress_cpus cs =
     (let cpus = concat (map (\<lambda>c. int_to_dec c @ '' '') cs) in if cpus \<noteq> [] then butlast cpus else cpus)"

definition progress_line :: "'j json_lib \<Rightarrow> fp \<Rightarrow> 'j Result \<Rightarrow> bool \<Rightarrow> ProgressLine result option" where
  "progress_line L A r warmup =
     (case js_at L (\<lambda>j. Inr (js_elements L j)) (r_params r) ''per_thread_cpu'' of
        None \<Rightarrow> None
      | Some elems \<Rightarrow>
          (case rbind elems (rmap (\<lambda>c. case js_get_int L c of Inl e \<Rightarrow> Inl (Json_error e) | Inr x \<Rightarrow> Inr x)) of
             Inl e \<Rightarrow> Some (Inl e)
           | Inr cpus \<Rightarrow>
               (case (js_at L (js_get_double L) (r_params r) ''start_spread_us'',
                      js_at L (js_get_string L) (r_params r) ''cold'',
                      js_at L (js_get_double L) (r_params r) ''cold_prep_max_us'',
                      js_at L (js_get_int L) (r_params r) ''pin_violations'') of
                  (Some spread, Some cold, Some prep, Some viol) \<Rightarrow>
                    Some (rbind spread (\<lambda>spread. rbind cold (\<lambda>cold. rbind prep (\<lambda>prep. rbind viol (\<lambda>viol.
                      Inr \<lparr>pl_workload = workload_to_string (r_workload r), pl_thread_count = r_thread_count r,
                        pl_label = (if warmup then ''warmup'' else ''trial ''),
                        pl_trial = (if warmup then - r_trial r else r_trial r), pl_value = r_value r,
                        pl_unit = unit_to_string (unit_of (r_metric r)),
                        pl_ms = Num (rnd A (u64_real A (r_duration_ns r) / 10 ^ 6)), pl_spread_us = spread,
                        pl_cold = cold, pl_prep_us = prep, pl_pin_violations = viol,
                        pl_cpus = progress_cpus cpus\<rparr>)))))
                | _ \<Rightarrow> None)))"

text \<open>What the runner put under the five keys is still there after the description was merged.\<close>

lemma trial_params_at:
  assumes "extra_ok (sn_extra s)"
  shows "map_of (trial_params L A cfg clock s t lat) ''per_thread_cpu'' =
      Some (js_array L (map (\<lambda>sl. js_of_int L (sl_cpu_end sl)) (to_slots t)))"
    and "map_of (trial_params L A cfg clock s t lat) ''start_spread_us'' =
      Some (js_of_double L (Num (start_spread_us A (to_slots t))))"
    and "map_of (trial_params L A cfg clock s t lat) ''cold_prep_max_us'' =
      Some (js_of_double L (Num (us_of_ns A (foldl (\<lambda>n sl. max n (sl_cold_ns sl)) 0 (to_slots t)))))"
    and "map_of (trial_params L A cfg clock s t lat) ''pin_violations'' =
      Some (js_of_int L (pin_violations (to_slots t)))"
proof -
  have "k \<notin> fst ` set (sn_extra s)" if "k \<in> set runner_keys" for k
    using assms that by (auto simp: extra_ok_def list_all_iff)
  from this [of "''per_thread_cpu''"] this [of "''start_spread_us''"] this [of "''cold_prep_max_us''"]
    this [of "''pin_violations''"]
  have keys: "''per_thread_cpu'' \<notin> fst ` set (sn_extra s)" "''start_spread_us'' \<notin> fst ` set (sn_extra s)"
    "''cold_prep_max_us'' \<notin> fst ` set (sn_extra s)" "''pin_violations'' \<notin> fst ` set (sn_extra s)"
    by (simp_all add: runner_keys_def)
  note eval = trial_params_def Let_def map_of_updates update_conv'
  show "map_of (trial_params L A cfg clock s t lat) ''per_thread_cpu'' =
      Some (js_array L (map (\<lambda>sl. js_of_int L (sl_cpu_end sl)) (to_slots t)))"
    using keys(1) by (simp add: eval)
  show "map_of (trial_params L A cfg clock s t lat) ''start_spread_us'' =
      Some (js_of_double L (Num (start_spread_us A (to_slots t))))"
    using keys(2) by (simp add: eval)
  show "map_of (trial_params L A cfg clock s t lat) ''cold_prep_max_us'' =
      Some (js_of_double L (Num (us_of_ns A (foldl (\<lambda>n sl. max n (sl_cold_ns sl)) 0 (to_slots t)))))"
    using keys(3) by (simp add: eval)
  show "map_of (trial_params L A cfg clock s t lat) ''pin_violations'' =
      Some (js_of_int L (pin_violations (to_slots t)))"
    using keys(4) by (simp add: eval)
qed

context json_library
begin

lemma progress_trial:
  assumes "extra_ok (sn_extra s)" "\<forall>sl\<in>set (to_slots t). int32 (sl_cpu_end sl)" "length (to_slots t) < 2 ^ 31"
    and "r_params r = js_object L (trial_params L A cfg clock s t lat)"
  shows "progress_line L A r warmup = Some (Inr
    \<lparr>pl_workload = workload_to_string (r_workload r), pl_thread_count = r_thread_count r,
     pl_label = (if warmup then ''warmup'' else ''trial ''), pl_trial = (if warmup then - r_trial r else r_trial r),
     pl_value = r_value r, pl_unit = unit_to_string (unit_of (r_metric r)),
     pl_ms = Num (rnd A (u64_real A (r_duration_ns r) / 10 ^ 6)),
     pl_spread_us = Num (start_spread_us A (to_slots t)), pl_cold = coldeffect_to_string (sn_effect s),
     pl_prep_us = Num (us_of_ns A (foldl (\<lambda>n sl. max n (sl_cold_ns sl)) 0 (to_slots t))),
     pl_pin_violations = pin_violations (to_slots t), pl_cpus = progress_cpus (map sl_cpu_end (to_slots t))\<rparr>)"
proof -
  note at = trial_params_at [OF assms(1), of L A cfg clock t lat] trial_params_checked(1) [OF assms(1), of L A cfg clock t lat]
  have "pin_violations (to_slots t) \<le> int (length (to_slots t))" "0 \<le> pin_violations (to_slots t)"
    by (simp_all add: pin_violations_def)
  then have viol: "int32 (pin_violations (to_slots t))" using assms(3) by (simp add: int32_def)
  have cpus: "rmap (\<lambda>c. case js_get_int L c of Inl e \<Rightarrow> Inl (Json_error e) | Inr x \<Rightarrow> Inr x)
      (map (\<lambda>sl. js_of_int L (sl_cpu_end sl)) (to_slots t)) = Inr (map sl_cpu_end (to_slots t))"
    using assms(2) by (intro rmap_Inr_map) (simp add: get_of)
  show ?thesis
    by (simp add: progress_line_def js_at_def assms(4) find_object at elements_array cpus get_of viol)
qed

end

text \<open>
  (C37) The progress line of \<open>--verbose\<close> never throws and never reads a key that is not there: for
  every result of a trial, warm-up or timed, of a workload that overwrites none of the runner's
  entries (no workload of the program does), it shows the number of that trial counted from one
  in the warm-up and from zero afterwards, and the figures of the trial itself.
\<close>

theorem progress_shows_trial:
  assumes "json_library L" "extra_ok (sn_extra s)" "\<forall>sl\<in>set (to_slots t). int32 (sl_cpu_end sl)"
    and "length (to_slots t) < 2 ^ 31" "run_one_trial L A cfg clock t s = (s', rs)" "r \<in> set rs"
  shows "\<exists>p. progress_line L A r (in_warmup cfg s) = Some (Inr p)
    \<and> pl_workload p = workload_to_string (sn_kind s) \<and> pl_thread_count p = sn_n_threads s
    \<and> pl_trial p = (if in_warmup cfg s then sn_warmups_done s' else sn_timed_done s' - 1)
    \<and> pl_value p = r_value r \<and> pl_cold p = coldeffect_to_string (sn_effect s)
    \<and> pl_spread_us p = Num (start_spread_us A (to_slots t)) \<and> pl_pin_violations p = pin_violations (to_slots t)
    \<and> pl_cpus p = progress_cpus (map sl_cpu_end (to_slots t))"
proof -
  define s2 where "s2 = (if in_warmup cfg s then s\<lparr>sn_warmups_done := sn_warmups_done s + 1,
      sn_active_ns := sn_active_ns s + ns_between (to_release t) (to_done t)\<rparr>
    else s\<lparr>sn_timed_done := sn_timed_done s + 1, sn_active_ns := sn_active_ns s + ns_between (to_release t) (to_done t)\<rparr>)"
  have r: "r_params r = js_object L (trial_params L A cfg clock s2 t (merge_latencies A (to_slots t)))"
      "r_workload r = sn_kind s" "r_thread_count r = sn_n_threads s"
      "r_trial r = (if in_warmup cfg s then - sn_warmups_done s2 else sn_timed_done s2 - 1)"
    using assms(5,6) by (auto simp: run_one_trial_def Let_def s2_def)
  have s': "sn_warmups_done s' = sn_warmups_done s2" "sn_timed_done s' = sn_timed_done s2"
    using assms(5) by (auto simp: run_one_trial_def Let_def s2_def)
  have s2: "extra_ok (sn_extra s2)" "sn_effect s2 = sn_effect s" using assms(2) by (simp_all add: s2_def)
  show ?thesis
    using json_library.progress_trial [OF assms(1) s2(1) assms(3,4) r(1), of "in_warmup cfg s"] r(2-4) s' s2(2)
    by simp
qed

text \<open>A warm-up trial and then the timed trial of the example configuration.\<close>

definition example_session :: "json ConfigSession" where
  "example_session = new_session example_config [0] False
     \<lparr>sp_kind = W_cpu_int, sp_metrics = [M_cpu_int_ops], sp_threads = 1, sp_working_set = 0\<rparr> (pe_report example_pool)"

theorem progress_shows_trial_witness:
  "\<exists>r p. snd (run_one_trial json_values exact_fp (example_config\<lparr>rc_warmup_trials := 1\<rparr>) (canary exact_fp (int, None)) example_trial example_session) = [r]
    \<and> progress_line json_values exact_fp r True = Some (Inr p) \<and> pl_trial p = 1 \<and> pl_cold p = ''none''"
proof -
  let ?cfg = "example_config\<lparr>rc_warmup_trials := 1\<rparr>"
  obtain s' rs where run: "run_one_trial json_values exact_fp ?cfg (canary exact_fp (int, None)) example_trial example_session = (s', rs)"
    by fastforce
  have w: "in_warmup ?cfg example_session" "sn_kind example_session = W_cpu_int" "extra_ok (sn_extra example_session)"
      "sn_effect example_session = CE_none"
    by (simp_all add: in_warmup_def example_session_def new_session_def example_config_def example_pool_def extra_ok_def)
  have warm: "sn_warmups_done s' = 1"
    using run w(1) by (auto simp: run_one_trial_def Let_def example_session_def new_session_def)
  obtain r where r: "rs = [r]"
    using run by (auto simp: run_one_trial_def Let_def example_session_def new_session_def)
  have "\<forall>sl\<in>set (to_slots example_trial). int32 (sl_cpu_end sl)" "length (to_slots example_trial) < 2 ^ 31"
    by (simp_all add: example_trial_def empty_slot_def int32_def)
  from progress_shows_trial [OF json_val.json_library_axioms w(3) this run, of r] r w warm run show ?thesis
    by auto
qed

section \<open>Errors of the options\<close>

text \<open>\<open>CLI11_PARSE\<close> catches \<open>CLI::ParseError\<close>, a base of \<open>ValidationError\<close>, and nothing else.\<close>

definition caught_by_parser :: "exn \<Rightarrow> bool" where
  "caught_by_parser e \<longleftrightarrow> (\<exists>option message. e = Validation_error option message)"

lemma caught_validation [simp]: "caught_by_parser (Validation_error x y)"
  by (simp add: caught_by_parser_def)

lemma rmap_eq_Inl: "rmap f xs = Inl e \<Longrightarrow> \<exists>x\<in>set xs. f x = Inl e"
  by (induction xs) (auto simp: rbind_eq_Inl)

lemma selection_errors:
  "select_workload name = Inl e \<Longrightarrow> caught_by_parser e"
  "select_metric name = Inl e \<Longrightarrow> caught_by_parser e"
  "parse_size name = Inl e \<Longrightarrow> caught_by_parser e"
  by (auto simp: caught_by_parser_def select_workload_def select_metric_def parse_size_def Let_def
      split: option.splits if_splits from_chars.splits)

lemma write_gate_error: "write_gate aw explicit ws ms = Inl e \<Longrightarrow> caught_by_parser e"
  by (auto simp: caught_by_parser_def write_gate_def Let_def rbind_eq_Inl split: if_splits dest!: rmap_eq_Inl)

text \<open>What the option parser has checked before the callback runs (lines 183-260).\<close>

definition parser_checks :: "run_args \<Rightarrow> bool" where
  "parser_checks a \<longleftrightarrow> ra_cold a \<in> {''clflush'', ''evict'', ''none''} \<and> 1 \<le> rc_trial_ms (ra_cfg a)
     \<and> 0 \<le> rc_warmup_trials (ra_cfg a) \<and> 0 \<le> rc_warmup_ms (ra_cfg a) \<and> 0 \<le> rc_spin_ms (ra_cfg a)
     \<and> \<not> fp_gt (Num 0) (rc_max_seconds (ra_cfg a)) \<and> 0 \<le> rc_canary_retries (ra_cfg a)
     \<and> rc_cpus (ra_cfg a) = []"

lemma run_settings_error:
  assumes "run_settings a budget ws ms = Inl e" "ra_cold a \<in> {''clflush'', ''evict'', ''none''}"
  shows "caught_by_parser e
    \<or> (\<exists>s\<in>set (split_csv (ra_threads_csv a)) \<union> set (split_csv (ra_cpus_csv a)). stoi s = Inl e)"
proof -
  have "parse_cold_mode (ra_cold a) \<noteq> None" using assms(2) by (auto simp: parse_cold_mode_def)
  then obtain cold where "parse_cold_mode (ra_cold a) = Some cold" by blast
  then consider "rmap stoi (split_csv (ra_threads_csv a)) = Inl e" | "rmap parse_size (split_csv (ra_ws_csv a)) = Inl e"
    | "rmap stoi (split_csv (ra_cpus_csv a)) = Inl e" | "e = Validation_error ''--cpus'' ''requires --pin''"
    using assms(1) by (auto simp: run_settings_def Let_def rbind_eq_Inl split: if_splits)
  then show ?thesis
  proof cases
    case 1
    then show ?thesis using rmap_eq_Inl by blast
  next
    case 2
    then show ?thesis using rmap_eq_Inl selection_errors(3) by blast
  next
    case 3
    then show ?thesis using rmap_eq_Inl by blast
  qed simp
qed

lemma run_config_error:
  assumes "run_config a = Inl e" "ra_cold a \<in> {''clflush'', ''evict'', ''none''}"
  shows "caught_by_parser e
    \<or> (\<exists>s\<in>set (split_csv (ra_threads_csv a)) \<union> set (split_csv (ra_cpus_csv a)). stoi s = Inl e)"
proof -
  consider "rmap select_workload (split_csv (ra_workloads_csv a)) = Inl e"
    | "rmap select_metric (split_csv (ra_metrics_csv a)) = Inl e" | "\<exists>m. e = Validation_error ''--workload'' m"
    | "parse_size (ra_write_budget a) = Inl e" | "\<exists>aw ex ws ms. write_gate aw ex ws ms = Inl e"
    | "\<exists>budget ws ms. run_settings a budget ws ms = Inl e"
    using assms(1) by (fastforce simp: run_config_def Let_def rbind_eq_Inl split: if_splits prod.splits)
  then show ?thesis
  proof cases
    case 1
    from rmap_eq_Inl [OF this] show ?thesis using selection_errors(1) by blast
  next
    case 2
    from rmap_eq_Inl [OF this] show ?thesis using selection_errors(2) by blast
  next
    case 3
    then show ?thesis by auto
  next
    case 4
    from selection_errors(3) [OF this] show ?thesis by blast
  next
    case 5
    then show ?thesis using write_gate_error by blast
  next
    case 6
    then show ?thesis using run_settings_error [OF _ assms(2)] by blast
  qed
qed

lemma run_settings_members:
  assumes "run_settings a budget ws ms = Inr cfg" "parser_checks a"
  shows "rc_trials cfg = rc_trials (ra_cfg a)" "0 \<le> rc_warmup_trials cfg" "0 \<le> rc_warmup_ms cfg" "1 \<le> rc_trial_ms cfg"
    "rc_max_seconds cfg = rc_max_seconds (ra_cfg a)" "rmap stoi (split_csv (ra_threads_csv a)) = Inr (rc_thread_counts cfg)"
    "rmap stoi (split_csv (ra_cpus_csv a)) = Inr (rc_cpus cfg)"
  using assms by (auto simp: run_settings_def Let_def rbind_eq_Inr parser_checks_def split: if_splits)

lemma rmap_element: "rmap f xs = Inr ys \<Longrightarrow> y \<in> set ys \<Longrightarrow> \<exists>x\<in>set xs. f x = Inr y"
  by (induction xs arbitrary: ys) (auto simp: rbind_eq_Inr)


text \<open>\<open>bench run -w cpu_int -t <threads> -n <trials>\<close>.\<close>

definition example_cli :: "string \<Rightarrow> int \<Rightarrow> run_args" where
  "example_cli threads trials = \<lparr>ra_all = False, ra_workloads_csv = ''cpu_int'', ra_metrics_csv = [], ra_threads_csv = threads,
     ra_ws_csv = [], ra_write_budget = ''0'', ra_trial_ms_given = True, ra_cold = ''none'', ra_pin = False, ra_interleave = False,
     ra_verbose = False, ra_cpus_csv = [], ra_cfg = example_config\<lparr>rc_workloads := [], rc_trials := trials\<rparr>\<rparr>"

lemma example_cli_config:
  "run_config (example_cli threads trials) = rbind (rmap stoi (split_csv threads)) (\<lambda>ts.
     Inr (example_config\<lparr>rc_thread_counts := ts, rc_working_sets := [], rc_trials := trials\<rparr>))"
proof -
  have "split_csv ''cpu_int'' = [''cpu_int'']" "split_csv [] = []" by (simp_all add: split_csv_def)
  moreover have "parse_cold_mode ''none'' = Some CM_none" by code_simp
  moreover have "parse_size ''0'' = Inr 0"
    using parse_size_suffix [of "''0''" 0 1 0] by (simp add: from_chars_unsigned_def Let_def digit_val_def is_digit_def digits_val_def suffix_shift_def)
  moreover have "select_workload ''cpu_int'' = Inr W_cpu_int"
    using parse_workload_to_string [of W_cpu_int] by (simp add: select_workload_def is_implemented_all)
  moreover have "write_gate False True [W_cpu_int] [] = Inr ([W_cpu_int], [])"
    by (simp add: write_gate_def Let_def metrics_of_table is_disk_write_def)
  ultimately show ?thesis
    by (simp add: run_config_def run_settings_def Let_def example_cli_def example_config_def example_options_def all_workloads_def)
qed

lemma example_cli_checked: "parser_checks (example_cli threads trials)"
  by (simp add: parser_checks_def example_cli_def example_config_def)

text \<open>
  \<open>bench run -w cpu_int -t abc\<close> and \<open>-n 0\<close> do not print a usage error: an exception of the standard
  library leaves \<open>main\<close>.
\<close>

lemma bad_numbers_escape:
  "run_config (example_cli ''abc'' 1) = Inl (Invalid_argument ''stoi'')"
  "\<exists>cfg. run_config (example_cli ''1'' 0) = Inr cfg
     \<and> run_benchmarks L A cfg machine argv env = Some (Inl (Invalid_argument ''trials must be >= 1''))"
  "\<not> caught_by_parser (Invalid_argument e)"
proof -
  have s: "split_csv ''abc'' = [''abc'']" "split_csv ''1'' = [''1'']" by (simp_all add: split_csv_def)
  have v: "stoi ''abc'' = Inl (Invalid_argument ''stoi'')" "stoi ''1'' = Inr 1" by code_simp+
  show "run_config (example_cli ''abc'' 1) = Inl (Invalid_argument ''stoi'')"
    by (simp add: example_cli_config s v)
  show "\<exists>cfg. run_config (example_cli ''1'' 0) = Inr cfg
     \<and> run_benchmarks L A cfg machine argv env = Some (Inl (Invalid_argument ''trials must be >= 1''))"
    by (simp add: example_cli_config s v run_benchmarks_def validate_config_def)
  show "\<not> caught_by_parser (Invalid_argument e)" by (simp add: caught_by_parser_def)
qed


end
