(* ===== verification/Post.thy ===== *)
theory Post
  imports Runner Http "HOL-Library.AList"
begin

text \<open>
  \<open>post_envelope\<close> of \<^verbatim>\<open>engine/src/main.cpp\<close>: the envelope is posted to an API, split into several
  requests when it has more results than one request may hold. The members of the JSON library
  that change a value are the record \<open>json_edit\<close> with their documented behaviour as the locale
  \<open>json_editing\<close>; \<open>dump\<close>, which throws on text that is not UTF-8, and the network behind each
  request are arguments. Messages on the error stream are not modelled.
\<close>

section \<open>Changing a JSON value\<close>

record 'j json_edit =
  je_set :: "'j \<Rightarrow> string \<Rightarrow> 'j \<Rightarrow> 'j"     \<comment> \<open>\<open>j[key] = v\<close>\<close>
  je_erase :: "'j \<Rightarrow> string \<Rightarrow> 'j"
  je_at_error :: "'j \<Rightarrow> string \<Rightarrow> string"  \<comment> \<open>text of the exception of \<open>at\<close> for a missing key\<close>

locale json_editing = json_library L for L :: "'j json_lib" +
  fixes E :: "'j json_edit"
  assumes find_set: "is_object L j \<Longrightarrow> js_find L (je_set E j key v) = (js_find L j)(key \<mapsto> v)"
    and find_erase: "is_object L j \<Longrightarrow> js_find L (je_erase E j key) = (js_find L j)(key := None)"
    and set_object: "is_object L j \<Longrightarrow> is_object L (je_set E j key v)"
begin

lemma find_set_erase:
  "is_object L j \<Longrightarrow> js_find L (je_erase E (je_set E j key v) key') = ((js_find L j)(key \<mapsto> v))(key' := None)"
  by (simp add: find_set find_erase set_object)

end

fun json_set :: "json \<Rightarrow> string \<Rightarrow> json \<Rightarrow> json" where
  "json_set (J_object kvs) key v = J_object (AList.update key v kvs)"
| "json_set j key v = j"

fun json_erase :: "json \<Rightarrow> string \<Rightarrow> json" where
  "json_erase (J_object kvs) key = J_object (AList.delete key kvs)"
| "json_erase j key = j"

definition json_edits :: "json json_edit" where
  "json_edits = \<lparr>je_set = json_set, je_erase = json_erase,
     je_at_error = (\<lambda>j key. ''[json.exception.out_of_range.403] key '' @ quoted key @ '' not found'')\<rparr>"

interpretation json_val_edit: json_editing json_values json_edits
proof (intro json_editing.intro json_val.json_library_axioms json_editing_axioms.intro)
  fix j key v assume "is_object json_values j"
  then obtain kvs where j: "j = J_object kvs" by (cases j) (simp_all add: json_values_def js_kind_defs)
  show "js_find json_values (je_set json_edits j key v) = (js_find json_values j)(key \<mapsto> v)"
    by (rule ext) (simp add: j json_values_def json_edits_def update_conv)
  show "js_find json_values (je_erase json_edits j key) = (js_find json_values j)(key := None)"
    by (rule ext) (simp add: j json_values_def json_edits_def delete_conv)
  show "is_object json_values (je_set json_edits j key v)"
    by (simp add: j json_values_def json_edits_def js_kind_defs)
qed

section \<open>Posting\<close>

text \<open>How the call ends: it returns, an exception leaves it, or the client does not come back.\<close>

datatype post_end = Returned int | Threw exn | Stuck post_outcome

text \<open>The results \<open>c * chunk\<close> to \<open>min (c * chunk + chunk) total\<close>, all on \<open>std::size_t\<close>.\<close>

definition chunk_results :: "'a list \<Rightarrow> u64 \<Rightarrow> u64 \<Rightarrow> 'a list" where
  "chunk_results rs chunk c =
     (let begin' = c * chunk; end' = min (begin' + chunk) (of_nat (length rs)) in
      map ((!) rs) [unat begin'..<unat end'])"

definition envelope_part :: "'j json_lib \<Rightarrow> 'j json_edit \<Rightarrow> 'j \<Rightarrow> 'j list \<Rightarrow> u64 \<Rightarrow> u64 \<Rightarrow> u64 \<Rightarrow> 'j" where
  "envelope_part L E j rs chunk n_chunks c =
     (if 1 < n_chunks then
        let part = je_set E j ''results'' (js_array L (chunk_results rs chunk c)) in
        if 0 < c then je_erase E part ''summary'' else part
      else j)"

text \<open>The text the loop prints for a reply.\<close>

definition reply_text :: "string \<Rightarrow> string" where
  "reply_text body = body @ (if body \<noteq> [] \<and> last body \<noteq> CHR 0x0A then [CHR 0x0A] else [])"

text \<open>
  The loop over the chunks \<open>cs\<close>: how it ends, the parts it posted and what it printed. \<open>net c\<close> is
  what the client meets when it posts chunk \<open>c\<close>.
\<close>

fun post_parts ::
  "('j \<Rightarrow> string + string) \<Rightarrow> string \<Rightarrow> Url \<Rightarrow> int \<Rightarrow> (u64 \<Rightarrow> string + address list) \<Rightarrow> (u64 \<Rightarrow> 'j) \<Rightarrow> u64 list \<Rightarrow> int \<Rightarrow>
   post_end \<times> 'j list \<times> string" where
  "post_parts dump version url timeout_ms net part [] rc = (Returned rc, [], [])"
| "post_parts dump version url timeout_ms net part (c # cs) rc =
     (case dump (part c) of
        Inl e \<Rightarrow> (Threw (Json_error e), [], [])
      | Inr body \<Rightarrow>
          (case post_json version url body timeout_ms (net c) of
             Done res \<Rightarrow>
               if hr_error res \<noteq> [] then (Returned 1, [part c], [])
               else
                 (case post_parts dump version url timeout_ms net part cs (if response_ok res then rc else 1) of
                    (e, parts, out) \<Rightarrow> (e, part c # parts, reply_text (hr_body res) @ out))
           | s \<Rightarrow> (Stuck s, [part c], [])))"

definition chunk_size :: "nat \<Rightarrow> u64 \<Rightarrow> u64" where
  "chunk_size n post_chunk = (if post_chunk = 0 then of_nat n else post_chunk)"

definition chunk_count :: "nat \<Rightarrow> u64 \<Rightarrow> u64" where
  "chunk_count n post_chunk =
     (let total = of_nat n; chunk = chunk_size n post_chunk in if total = 0 then 1 else (total + chunk - 1) div chunk)"

definition post_envelope ::
  "'j json_lib \<Rightarrow> 'j json_edit \<Rightarrow> ('j \<Rightarrow> string + string) \<Rightarrow> string \<Rightarrow> (u64 \<Rightarrow> string + address list) \<Rightarrow>
   'j \<Rightarrow> string \<Rightarrow> int \<Rightarrow> u64 \<Rightarrow> post_end \<times> 'j list \<times> string" where
  "post_envelope L E dump version net j url_str timeout_ms post_chunk =
     (case parse_url url_str of
        Inl _ \<Rightarrow> (Returned 1, [], [])
      | Inr url0 \<Rightarrow>
          let url = (if u_path url0 = [] \<or> u_path url0 = ''/'' then url0\<lparr>u_path := ''/v1/runs''\<rparr> else url0) in
          (case js_find L j ''results'' of
             None \<Rightarrow> (Threw (Json_error (je_at_error E j ''results'')), [], [])
           | Some results \<Rightarrow>
               let rs = js_elements L results; chunk = chunk_size (length rs) post_chunk; n_chunks = chunk_count (length rs) post_chunk in
               post_parts dump version url timeout_ms net (envelope_part L E j rs chunk n_chunks)
                 (map of_nat [0..<unat n_chunks]) 0))"

section \<open>Chunks\<close>

lemma chunk_size_nat:
  "n < 2 ^ 63 \<Longrightarrow> unat (chunk_size n post_chunk) = (if post_chunk = 0 then n else unat post_chunk)"
  by (simp add: chunk_size_def u64_of_nat)

lemma chunk_count_nat:
  assumes "n < 2 ^ 63" "unat (chunk_size n post_chunk) \<le> 2 ^ 63" "0 < n" "0 < unat (chunk_size n post_chunk)"
  shows "unat (chunk_count n post_chunk) = (n + unat (chunk_size n post_chunk) - 1) div unat (chunk_size n post_chunk)"
proof -
  define chunk where "chunk = chunk_size n post_chunk"
  have n: "unat (of_nat n :: u64) = n" using assms(1) by (intro u64_of_nat) simp
  have add: "unat ((of_nat n :: u64) + chunk) = n + unat chunk"
    using n assms(1,2) by (subst unat_add_lt) (simp_all add: chunk_def)
  then have "(of_nat n :: u64) + chunk \<noteq> 0" using assms(3) by auto
  then have "unat ((of_nat n :: u64) + chunk - 1) = n + unat chunk - 1"
    using add by (simp add: unat_minus_one)
  moreover have "(of_nat n :: u64) \<noteq> 0" using n assms(3) by auto
  ultimately show ?thesis by (simp add: chunk_count_def chunk_def [symmetric] Let_def unat_div)
qed

lemma chunk_results_nat:
  assumes "length rs < 2 ^ 63" "unat c * unat chunk < 2 ^ 63" "unat chunk \<le> 2 ^ 63"
  shows "chunk_results rs chunk c = map ((!) rs) [unat c * unat chunk..<min (unat c * unat chunk + unat chunk) (length rs)]"
proof -
  have b: "unat (c * chunk) = unat c * unat chunk" using assms by (intro unat_mult_lt) simp
  have "unat (c * chunk + chunk) = unat c * unat chunk + unat chunk"
    using assms b by (subst unat_add_lt) simp_all
  moreover have "unat (of_nat (length rs) :: u64) = length rs" using assms(1) by (intro u64_of_nat) simp
  ultimately show ?thesis using b by (simp add: chunk_results_def Let_def unat_min)
qed

text \<open>Consecutive ranges of one length cover a prefix.\<close>

lemma ranges_cover:
  "concat (map (\<lambda>c. [c * k..<min (c * k + k) n]) [0..<m]) = [0..<min (m * k) n]" for k n :: nat
proof (induction m)
  case (Suc m)
  have "[0..<min (m * k) n] @ [m * k..<min (m * k + k) n] = [0..<min (m * k + k) n]"
  proof (cases "m * k \<le> n")
    case True
    then have "[0..<m * k] @ [m * k..<min (m * k + k) n] = [0..<min (m * k + k) n]"
      by (metis le_add1 le_add_diff_inverse min.boundedI upt_add_eq_append zero_le)
    then show ?thesis using True by (simp add: min_absorb1)
  qed simp
  then show ?case using Suc by (simp add: add.commute)
qed simp

lemma rounded_up_covers: "0 < k \<Longrightarrow> 0 < n \<Longrightarrow> n \<le> (n + k - 1) div k * k \<and> ((n + k - 1) div k - 1) * k < n" for k n :: nat
proof -
  assume a: "0 < k" "0 < n"
  have "(n + k - 1) div k = (n - 1) div k + 1"
    using a by (metis Nat.add_diff_assoc2 One_nat_def Suc_leI add.commute div_add_self2 less_numeral_extra(3) plus_1_eq_Suc)
  moreover have "n - 1 < (n - 1) div k * k + k" using a by (metis add.commute dividend_less_times_div mult.commute)
  moreover have "(n - 1) div k * k \<le> n - 1" by (rule div_times_less_eq_dividend)
  ultimately show ?thesis using a by (simp only: add_mult_distrib diff_add_inverse2 nat_mult_1) linarith
qed

lemma chunks_cover:
  assumes "length rs < 2 ^ 63" "unat (chunk_size (length rs) post_chunk) \<le> 2 ^ 63" "rs \<noteq> []"
  shows "concat (map (\<lambda>c. chunk_results rs (chunk_size (length rs) post_chunk) (of_nat c))
    [0..<unat (chunk_count (length rs) post_chunk)]) = rs"
proof -
  define n k m where "n = length rs" and "k = unat (chunk_size n post_chunk)" and "m = unat (chunk_count n post_chunk)"
  have n: "0 < n" "n < 2 ^ 63" using assms by (auto simp: n_def)
  have k: "0 < k" "k \<le> 2 ^ 63" using assms n chunk_size_nat [of n post_chunk] by (auto simp: k_def n_def unat_gt_0)
  have m: "m = (n + k - 1) div k" using chunk_count_nat [of n post_chunk] n k by (simp add: m_def k_def)
  note cover = rounded_up_covers [OF k(1) n(1), folded m]
  have "chunk_results rs (chunk_size n post_chunk) (of_nat c) = map ((!) rs) [c * k..<min (c * k + k) n]" if "c < m" for c
  proof -
    have "c \<le> m - 1" using that by simp
    then have "c * k \<le> (m - 1) * k" by (rule mult_le_mono1)
    then have ck: "c * k < 2 ^ 63" using cover n by linarith
    have "m < 2 ^ 64" unfolding m_def by (rule u64_lt)
    then have "unat (of_nat c :: u64) = c" using that by (intro u64_of_nat) simp
    then show ?thesis using chunk_results_nat [of rs "of_nat c" "chunk_size n post_chunk"] ck k n by (simp add: n_def k_def)
  qed
  then have "map (\<lambda>c. chunk_results rs (chunk_size n post_chunk) (of_nat c)) [0..<m] =
      map (map ((!) rs)) (map (\<lambda>c. [c * k..<min (c * k + k) n]) [0..<m])" by simp
  then have "concat (map (\<lambda>c. chunk_results rs (chunk_size n post_chunk) (of_nat c)) [0..<m]) =
      map ((!) rs) (concat (map (\<lambda>c. [c * k..<min (c * k + k) n]) [0..<m]))"
    by (simp only: map_concat)
  also have "\<dots> = rs" using cover by (simp add: ranges_cover min_absorb2 n_def map_nth)
  finally show ?thesis by (simp add: n_def m_def)
qed

lemma chunk_results_length: "length (chunk_results rs chunk c) \<le> unat chunk"
proof -
  have "unat (c * chunk + chunk) \<le> unat (c * chunk) + unat chunk" by (simp add: unat_word_ariths mod_less_eq_dividend)
  then show ?thesis by (simp add: chunk_results_def Let_def unat_min)
qed

section \<open>Delivery\<close>

definition part_results :: "'j json_lib \<Rightarrow> 'j \<Rightarrow> 'j list" where
  "part_results L part = (case js_find L part ''results'' of None \<Rightarrow> [] | Some r \<Rightarrow> js_elements L r)"

text \<open>The API took the part: a request with its text ended in a success status.\<close>

definition accepted :: "('j \<Rightarrow> string + string) \<Rightarrow> string \<Rightarrow> Url \<Rightarrow> int \<Rightarrow> (u64 \<Rightarrow> string + address list) \<Rightarrow> 'j \<Rightarrow> bool" where
  "accepted dump version url timeout_ms net part \<longleftrightarrow>
     (\<exists>body c res. dump part = Inr body \<and> post_json version url body timeout_ms (net c) = Done res \<and> response_ok res)"

lemma post_parts_success:
  assumes "post_parts dump version url timeout_ms net part cs rc = (Returned 0, parts, out)"
  shows "rc = 0 \<and> parts = map part cs \<and> list_all (accepted dump version url timeout_ms net) parts"
  using assms
proof (induction cs arbitrary: rc parts out)
  case (Cons c cs)
  obtain body where body: "dump (part c) = Inr body" using Cons.prems by (cases "dump (part c)") simp_all
  obtain res where res: "post_json version url body timeout_ms (net c) = Done res"
    using Cons.prems by (cases "post_json version url body timeout_ms (net c)") (simp_all add: body)
  have err: "hr_error res = []" using Cons.prems by (cases "hr_error res = []") (simp_all add: body res)
  obtain e parts' out' where rest: "post_parts dump version url timeout_ms net part cs (if response_ok res then rc else 1) = (e, parts', out')"
    by (cases "post_parts dump version url timeout_ms net part cs (if response_ok res then rc else 1)")
  have "e = Returned 0" "parts = part c # parts'" using Cons.prems by (simp_all add: body res err rest)
  then show ?case using Cons.IH [of "if response_ok res then rc else 1" parts' out'] body res rest
    by (cases "response_ok res") (auto simp: accepted_def)
qed simp

text \<open>A call that returns has the exit code 0 or 1.\<close>

lemma post_parts_code:
  "post_parts dump version url timeout_ms net part cs rc = (Returned r, parts, out) \<Longrightarrow> r = rc \<or> r = 1"
proof (induction cs arbitrary: rc parts out)
  case (Cons c cs)
  obtain body where body: "dump (part c) = Inr body" using Cons.prems by (cases "dump (part c)") simp_all
  obtain res where res: "post_json version url body timeout_ms (net c) = Done res"
    using Cons.prems by (cases "post_json version url body timeout_ms (net c)") (simp_all add: body)
  obtain e parts' out' where rest: "post_parts dump version url timeout_ms net part cs (if response_ok res then rc else 1) = (e, parts', out')"
    by (cases "post_parts dump version url timeout_ms net part cs (if response_ok res then rc else 1)")
  show ?case
  proof (cases "hr_error res = []")
    case True
    then have "e = Returned r" using Cons.prems by (simp add: body res rest)
    then show ?thesis using Cons.IH rest by (metis (full_types))
  qed (use Cons.prems in \<open>simp add: body res\<close>)
qed simp

lemma post_envelope_code:
  "post_envelope L E dump version net j url_str timeout_ms post_chunk = (Returned r, parts, out) \<Longrightarrow> r = 0 \<or> r = 1"
  using post_parts_code by (fastforce simp: post_envelope_def Let_def split: sum.splits option.splits)

text \<open>The part of each chunk, for a library that edits objects as documented.\<close>

context json_editing
begin

lemma part_results:
  assumes "is_object L j" "1 < n_chunks"
  shows "part_results L (envelope_part L E j rs chunk n_chunks c) = chunk_results rs chunk c"
  using assms by (simp add: part_results_def envelope_part_def Let_def find_set find_set_erase elements_array)

lemma part_other:
  assumes "is_object L j" "key \<noteq> ''results''" "key \<noteq> ''summary''"
  shows "js_find L (envelope_part L E j rs chunk n_chunks c) key = js_find L j key"
  using assms by (simp add: envelope_part_def Let_def find_set find_set_erase)

lemma part_summary:
  assumes "is_object L j"
  shows "js_find L (envelope_part L E j rs chunk n_chunks c) ''summary'' =
    (if 1 < n_chunks \<and> 0 < c then None else js_find L j ''summary'')"
  using assms by (simp add: envelope_part_def Let_def find_set find_set_erase)

end

text \<open>The parts of an envelope together, in the order they are posted.\<close>

definition envelope_parts :: "'j json_lib \<Rightarrow> 'j json_edit \<Rightarrow> 'j \<Rightarrow> 'j list \<Rightarrow> u64 \<Rightarrow> 'j list" where
  "envelope_parts L E j rs post_chunk =
     map (envelope_part L E j rs (chunk_size (length rs) post_chunk) (chunk_count (length rs) post_chunk) \<circ> of_nat)
       [0..<unat (chunk_count (length rs) post_chunk)]"

lemma chunk_count_pos:
  assumes "n < 2 ^ 63" "unat post_chunk \<le> 2 ^ 63"
  shows "0 < unat (chunk_count n post_chunk)"
proof (cases "n = 0")
  case False
  then have "0 < unat (chunk_size n post_chunk)" "unat (chunk_size n post_chunk) \<le> 2 ^ 63"
    using assms chunk_size_nat [of n post_chunk] by (auto simp: unat_gt_0)
  then show ?thesis using chunk_count_nat [of n post_chunk] rounded_up_covers [of "unat (chunk_size n post_chunk)" n] assms False
    by (cases "unat (chunk_count n post_chunk)") auto
qed (simp add: chunk_count_def)

lemma parts_cover:
  assumes "json_editing L E" "is_object L j" "js_find L j ''results'' = Some results"
    "length (js_elements L results) < 2 ^ 63" "unat post_chunk \<le> 2 ^ 63"
  shows "concat (map (part_results L) (envelope_parts L E j (js_elements L results) post_chunk)) = js_elements L results"
    and "post_chunk \<noteq> 0 \<Longrightarrow> list_all (\<lambda>p. length (part_results L p) \<le> unat post_chunk)
      (envelope_parts L E j (js_elements L results) post_chunk)"
proof -
  define rs n_chunks chunk where "rs = js_elements L results" and "n_chunks = chunk_count (length rs) post_chunk"
    and "chunk = chunk_size (length rs) post_chunk"
  have chunk: "unat chunk \<le> 2 ^ 63" using assms(4,5) chunk_size_nat [of "length rs" post_chunk] by (simp add: chunk_def rs_def)
  have pos: "0 < unat n_chunks" using chunk_count_pos assms(4,5) by (simp add: n_chunks_def rs_def)
  have parts: "map (part_results L) (envelope_parts L E j rs post_chunk) =
      (if 1 < n_chunks then map (\<lambda>c. chunk_results rs chunk (of_nat c)) [0..<unat n_chunks] else [rs])"
  proof (cases "1 < n_chunks")
    case False
    then have "unat n_chunks = 1" using pos by (simp add: word_less_nat_alt)
    then have "envelope_parts L E j rs post_chunk = [j]" using False
      unfolding envelope_parts_def n_chunks_def [symmetric] chunk_def [symmetric] by (simp add: envelope_part_def)
    then show ?thesis using False assms(3) by (simp add: part_results_def rs_def)
  qed (simp add: envelope_parts_def n_chunks_def [symmetric] chunk_def [symmetric] json_editing.part_results [OF assms(1,2)])
  have full: "rs \<noteq> [] \<Longrightarrow> concat (map (\<lambda>c. chunk_results rs chunk (of_nat c)) [0..<unat n_chunks]) = rs"
    using chunks_cover [of rs post_chunk] assms(4) chunk by (simp add: rs_def chunk_def n_chunks_def)
  have ne: "1 < n_chunks \<Longrightarrow> rs \<noteq> []" by (auto simp: n_chunks_def chunk_count_def)
  show "concat (map (part_results L) (envelope_parts L E j (js_elements L results) post_chunk)) = js_elements L results"
    using parts full ne by (simp add: rs_def [symmetric])
  assume "post_chunk \<noteq> 0"
  then have c: "chunk = post_chunk" by (simp add: chunk_def chunk_size_def)
  have "length rs \<le> unat post_chunk" if "\<not> 1 < n_chunks"
  proof (cases "rs = []")
    case False
    have "unat n_chunks = 1" using pos that by (simp add: word_less_nat_alt)
    then have "rs = chunk_results rs chunk 0" using full [OF False] by simp
    then show ?thesis using chunk_results_length [of rs chunk 0] c by simp
  qed simp
  then have "list_all (\<lambda>xs. length xs \<le> unat post_chunk) (map (part_results L) (envelope_parts L E j rs post_chunk))"
    using chunk_results_length [of rs chunk] c unfolding parts by (simp add: list_all_iff)
  then show "list_all (\<lambda>p. length (part_results L p) \<le> unat post_chunk) (envelope_parts L E j (js_elements L results) post_chunk)"
    by (simp add: list.pred_map comp_def rs_def)
qed

lemma post_envelope_success:
  assumes "js_find L j ''results'' = Some results"
    "post_envelope L E dump version net j url_str timeout_ms post_chunk = (Returned 0, parts, out)"
  shows "parts = envelope_parts L E j (js_elements L results) post_chunk
    \<and> (\<exists>url. list_all (accepted dump version url timeout_ms net) parts)"
proof -
  define rs n_chunks chunk where "rs = js_elements L results" and "n_chunks = chunk_count (length rs) post_chunk"
    and "chunk = chunk_size (length rs) post_chunk"
  obtain url0 where url0: "parse_url url_str = Inr url0"
    using assms(2) by (cases "parse_url url_str") (simp_all add: post_envelope_def)
  define url where "url = (if u_path url0 = [] \<or> u_path url0 = ''/'' then url0\<lparr>u_path := ''/v1/runs''\<rparr> else url0)"
  have "post_parts dump version url timeout_ms net (envelope_part L E j rs chunk n_chunks) (map of_nat [0..<unat n_chunks]) 0 =
      (Returned 0, parts, out)"
    using assms(2) unfolding post_envelope_def url0 sum.case assms(1) option.case Let_def url_def rs_def n_chunks_def chunk_def .
  note post = post_parts_success [OF this]
  then have "parts = envelope_parts L E j rs post_chunk" by (simp add: envelope_parts_def n_chunks_def chunk_def)
  then show ?thesis using post unfolding rs_def by blast
qed


definition example_net :: "u64 \<Rightarrow> string + address list" where
  "example_net c = Inr [\<lparr>ad_socket = None, ad_connect = Connected, ad_send = [(Poll_ready, Sent 1000)],
     ad_recv = [(Poll_ready, Received (make_response 201 ''Created'' [''Content-Length: 2''] ''ok'')), (Poll_ready, Closed)]\<rparr>]"

definition example_document :: json where
  "example_document = J_object [(''run_id'', J_string ''r''), (''results'', J_array [J_int 1, J_int 2, J_int 3]), (''summary'', J_array [])]"


text \<open>
  \<open>total + chunk - 1\<close> is computed in 64 bits: with two or more results and the largest chunk size
  the number of chunks is 0, nothing is posted and the exit code is 0.
\<close>

lemma post_chunk_wraps:
  "post_envelope json_values json_edits dump version net example_document ''http://api'' timeout_ms (- 1) = (Returned 0, [], [])"
proof -
  have "chunk_count 3 (- 1) = 0" by code_simp
  moreover have "parse_url ''http://api'' = Inr \<lparr>u_host = ''api'', u_port = 80, u_path = ''/''\<rparr>" by code_simp
  moreover have "js_find json_values example_document ''results'' = Some (J_array [J_int 1, J_int 2, J_int 3])"
    by (simp add: example_document_def json_values_def)
  moreover have "length (js_elements json_values (J_array [J_int 1, J_int 2, J_int 3])) = 3" by (simp add: json_values_def)
  ultimately show ?thesis by (auto simp: post_envelope_def Let_def)
qed

end
