(* ===== verification/Commands.thy ===== *)
theory Commands
  imports Cli Post Sysinfo
begin

text \<open>
  The subcommands of \<^verbatim>\<open>engine/src/main.cpp\<close>: what each prints or writes and the exit code it
  passes to \<open>std::exit\<close>. An exception that leaves a callback is on the left (only CLI11's own
  validation errors are caught by the parser, every other one ends the process by
  \<open>std::terminate\<close>). Printed numbers are the values the format string receives, not their text.
\<close>

section \<open>Writing a document\<close>

text \<open>The exit code and what was written where; the target \<open>-\<close> is the standard output.\<close>

definition write_json :: "string + string \<Rightarrow> string \<Rightarrow> bool \<Rightarrow> (int \<times> (string \<times> string) option) result" where
  "write_json dumped out_path can_open =
     (case dumped of
        Inl e \<Rightarrow> Inl (Json_error e)
      | Inr txt \<Rightarrow>
          if out_path = [] \<or> out_path = ''-'' then Inr (0, Some (''-'', txt @ [CHR 0x0A]))
          else if \<not> can_open then Inr (1, None)
          else Inr (0, Some (out_path, txt @ [CHR 0x0A])))"

definition sysinfo_command :: "'j json_lib \<Rightarrow> ('j \<Rightarrow> string + string) \<Rightarrow> MachineInfo \<Rightarrow> (int \<times> (string \<times> string) option) result" where
  "sysinfo_command L dump machine = write_json (dump (machine_to_json L machine)) [] True"

text \<open>\<open>{:<n}\<close>.\<close>

definition pad_right :: "nat \<Rightarrow> string \<Rightarrow> string" where
  "pad_right n s = s @ replicate (n - length s) (CHR '' '')"

definition list_line :: "string \<Rightarrow> string \<Rightarrow> string \<Rightarrow> string \<Rightarrow> string" where
  "list_line a b c d = pad_right 12 a @ '' '' @ pad_right 9 b @ '' '' @ pad_right 62 c @ '' '' @ d @ [CHR 0x0A]"

text \<open>The loop that joins the names of the metrics with commas.\<close>

definition join_metrics :: "Metric list \<Rightarrow> string" where
  "join_metrics ms = foldl (\<lambda>s m. (if s \<noteq> [] then s @ '','' else s) @ metric_to_string m) [] ms"

definition list_command :: string where
  "list_command = list_line ''WORKLOAD'' ''STATUS'' ''METRICS'' ''DESCRIPTION''
     @ concat (map (\<lambda>d. list_line (workload_to_string (wd_kind d)) (if wd_implemented d then ''ready'' else ''planned'')
         (join_metrics (wd_metrics d)) (wd_description d)) workload_registry)"

section \<open>bench run\<close>

record output_args =
  oa_out_path :: string
  oa_post_url :: string
  oa_post_timeout_ms :: int
  oa_post_chunk :: u64

record 'j outcome =
  oc_code :: int
  oc_written :: "(string \<times> string) option"
  oc_posted :: "'j list"
  oc_printed :: string

text \<open>The end of the callback: the document is checked, written and posted.\<close>

definition emit_document ::
  "'j json_lib \<Rightarrow> 'j json_edit \<Rightarrow> ('j \<Rightarrow> string + string) \<Rightarrow> ('j \<Rightarrow> string + string) \<Rightarrow> string \<Rightarrow> bool \<Rightarrow>
   (u64 \<Rightarrow> string + address list) \<Rightarrow> output_args \<Rightarrow> 'j \<Rightarrow> 'j outcome result option" where
  "emit_document L E dump dump_out version can_open net oa j =
     (let problems = validate_run L j;
          code = (\<lambda>rc. if problems = [] then rc else 2) in
      case (if oa_out_path oa \<noteq> [] \<or> oa_post_url oa = [] then write_json (dump_out j) (oa_out_path oa) can_open
            else Inr (0, None)) of
        Inl e \<Rightarrow> Some (Inl e)
      | Inr (rc, written) \<Rightarrow>
          if rc = 0 \<and> oa_post_url oa \<noteq> [] then
            (case post_envelope L E dump version net j (oa_post_url oa) (oa_post_timeout_ms oa) (oa_post_chunk oa) of
               (Returned rc, parts, out) \<Rightarrow>
                 Some (Inr \<lparr>oc_code = code rc, oc_written = written, oc_posted = parts, oc_printed = out\<rparr>)
             | (Threw e, parts, out) \<Rightarrow> Some (Inl e)
             | (Stuck x, parts, out) \<Rightarrow> None)
          else Some (Inr \<lparr>oc_code = code rc, oc_written = written, oc_posted = [], oc_printed = []\<rparr>))"

definition run_command ::
  "'j json_lib \<Rightarrow> 'j json_edit \<Rightarrow> fp \<Rightarrow> ('j \<Rightarrow> string + string) \<Rightarrow> ('j \<Rightarrow> string + string) \<Rightarrow> string \<Rightarrow> bool \<Rightarrow>
   (u64 \<Rightarrow> string + address list) \<Rightarrow> run_args \<Rightarrow> output_args \<Rightarrow> MachineInfo \<Rightarrow> string list \<Rightarrow> 'j run_env \<Rightarrow>
   'j outcome result option" where
  "run_command L E A dump dump_out version can_open net a oa machine argv env =
     (case run_config a of
        Inl e \<Rightarrow> Some (Inl e)
      | Inr cfg \<Rightarrow>
          (case run_benchmarks L A cfg machine (argv[0 := ''bench'']) env of
             None \<Rightarrow> None
           | Some (Inl e) \<Rightarrow> Some (Inl e)
           | Some (Inr (run, stop)) \<Rightarrow> emit_document L E dump dump_out version can_open net oa (run_to_json L run)))"

section \<open>bench validate\<close>

text \<open>\<open>Inl\<close> is a file that is not JSON; the result is the exit code and the number of results.\<close>

definition validate_command :: "'j json_lib \<Rightarrow> string + 'j \<Rightarrow> int \<times> nat" where
  "validate_command L parsed' =
     (case parsed' of
        Inl e \<Rightarrow> (1, 0)
      | Inr j \<Rightarrow>
          if validate_run L j = [] then
            (0, case js_find L j ''results'' of None \<Rightarrow> 0 | Some rs \<Rightarrow> length (js_elements L rs))
          else (1, 0))"

section \<open>bench report\<close>

record ReportWide =
  rw_n :: int
  rw_min :: fpval
  rw_max :: fpval
  rw_late_pct :: fpval
  rw_attempts :: int
  rw_clock_start :: fpval
  rw_clock_end :: fpval

record ReportRow =
  rr_metric :: string
  rr_thread_count :: int
  rr_working_set :: u64
  rr_median :: fpval
  rr_mean :: fpval
  rr_cov_pct :: fpval
  rr_mad_pct :: fpval
  rr_wide :: "ReportWide option"

record ReportTable =
  rt_machine :: "(string \<times> string) option"
  rt_run_id :: string
  rt_started_at :: string
  rt_finished_at :: string
  rt_rows :: "ReportRow list"

definition fp2 :: "fp \<Rightarrow> (real \<Rightarrow> real \<Rightarrow> real) \<Rightarrow> fpval \<Rightarrow> fpval \<Rightarrow> fpval" where
  "fp2 A f a b = (case (a, b) of (Num x, Num y) \<Rightarrow> Num (rnd A (f x y)) | _ \<Rightarrow> NaN)"

definition mad_percent :: "fp \<Rightarrow> fpval \<Rightarrow> fpval \<Rightarrow> fpval" where
  "mad_percent A dev med = (if med \<noteq> Num 0 then fp2 A (*) (fp2 A (/) dev med) (Num 100) else Num 0)"

definition late_percent :: "fp \<Rightarrow> int \<Rightarrow> int \<Rightarrow> fpval" where
  "late_percent A late n = (if 0 < n then fp2 A (/) (fp2 A (*) (Num 100) (Num (of_int late))) (Num (of_int n)) else Num 0)"

definition report_wide :: "'j json_lib \<Rightarrow> fp \<Rightarrow> 'j \<Rightarrow> int \<Rightarrow> ReportWide result" where
  "report_wide L A s n =
     rbind (js_value L (js_get_double L) s ''min'' (Num 0)) (\<lambda>mn.
     rbind (js_value L (js_get_double L) s ''max'' (Num 0)) (\<lambda>mx.
     rbind (if 0 < n then js_value L (js_get_int L) s ''late_trials'' 0 else Inr 0) (\<lambda>late.
     rbind (js_value L (js_get_int L) s ''canary_attempts'' 1) (\<lambda>attempts.
     rbind (js_value L (js_get_double L) s ''clock_call_ns_start'' (Num 0)) (\<lambda>c0.
     rbind (js_value L (js_get_double L) s ''clock_call_ns_end'' (Num 0)) (\<lambda>c1.
     Inr \<lparr>rw_n = n, rw_min = mn, rw_max = mx, rw_late_pct = late_percent A late n, rw_attempts = attempts,
       rw_clock_start = c0, rw_clock_end = c1\<rparr>))))))"

definition report_row :: "'j json_lib \<Rightarrow> fp \<Rightarrow> bool \<Rightarrow> 'j \<Rightarrow> ReportRow result" where
  "report_row L A wide s =
     rbind (js_value L (js_get_double L) s ''median'' (Num 0)) (\<lambda>med.
     rbind (if med \<noteq> Num 0 then js_value L (js_get_double L) s ''mad'' (Num 0) else Inr (Num 0)) (\<lambda>mad.
     rbind (js_value L (js_get_int L) s ''n'' 0) (\<lambda>n.
     rbind (js_value L (js_get_string L) s ''metric'' ''?'') (\<lambda>metric.
     rbind (js_value L (js_get_int L) s ''thread_count'' 0) (\<lambda>threads.
     rbind (js_value L (js_get_u64 L) s ''working_set_bytes'' 0) (\<lambda>ws.
     rbind (js_value L (js_get_double L) s ''mean'' (Num 0)) (\<lambda>mean.
     rbind (js_value L (js_get_double L) s ''cov'' (Num 0)) (\<lambda>cov.
     rbind (if wide then rbind (report_wide L A s n) (\<lambda>w. Inr (Some w)) else Inr None) (\<lambda>w.
     Inr \<lparr>rr_metric = metric, rr_thread_count = threads, rr_working_set = ws, rr_median = med, rr_mean = mean,
       rr_cov_pct = fp2 A (*) cov (Num 100), rr_mad_pct = mad_percent A mad med, rr_wide = w\<rparr>)))))))))"

definition report_machine :: "'j json_lib \<Rightarrow> 'j \<Rightarrow> (string \<times> string) option result" where
  "report_machine L j =
     (case js_find L j ''machine'' of
        None \<Rightarrow> Inr None
      | Some m \<Rightarrow>
          if is_object L m then
            rbind (js_value L (js_get_string L) m ''cpu_model'' ''?'') (\<lambda>model.
            rbind (js_value L (js_get_string L) m ''os'' ''?'') (\<lambda>os. Inr (Some (model, os))))
          else Inr None)"

text \<open>The exit code and the table, when one is printed.\<close>

definition report_command :: "'j json_lib \<Rightarrow> fp \<Rightarrow> bool \<Rightarrow> string + 'j \<Rightarrow> (int \<times> ReportTable option) result" where
  "report_command L A wide parsed' =
     (case parsed' of
        Inl e \<Rightarrow> Inr (1, None)
      | Inr j \<Rightarrow>
          let problems = validate_run L j in
          (case js_find L j ''summary'' of
             None \<Rightarrow> Inr (1, None)
           | Some ss \<Rightarrow>
               if \<not> is_array L ss \<or> js_elements L ss = [] then Inr (1, None)
               else
                 rbind (report_machine L j) (\<lambda>machine.
                 rbind (js_value L (js_get_string L) j ''run_id'' ''?'') (\<lambda>run_id.
                 rbind (js_value L (js_get_string L) j ''started_at'' ''?'') (\<lambda>started.
                 rbind (js_value L (js_get_string L) j ''finished_at'' ''?'') (\<lambda>finished.
                 rbind (rmap (report_row L A wide) (js_elements L ss)) (\<lambda>rows.
                 Inr (if problems = [] then 0 else 2,
                   Some \<lparr>rt_machine = machine, rt_run_id = run_id, rt_started_at = started, rt_finished_at = finished,
                     rt_rows = rows\<rparr>))))))))"

section \<open>bench disk\<close>

definition disk_path_of :: "string option \<Rightarrow> string \<Rightarrow> string" where
  "disk_path_of home disk_path = (if disk_path = [] then default_disk_path home else disk_path)"

text \<open>The printed line; \<open>None\<close> when the writes of the file are not all observed.\<close>

definition disk_prep ::
  "string option \<Rightarrow> string option \<Rightarrow> string option \<Rightarrow> file_env \<Rightarrow> string \<Rightarrow> bool \<Rightarrow> string \<Rightarrow> u64 \<Rightarrow> string result option" where
  "disk_prep home nrm mkdirs fenv disk_path disk_9p disk_size disk_seed =
     (let path = disk_path_of home disk_path in
      case check_disk_path nrm mkdirs path disk_9p of
        Inl e \<Rightarrow> Some (Inl e)
      | Inr _ \<Rightarrow>
          (case parse_size disk_size of
             Inl e \<Rightarrow> Some (Inl e)
           | Inr bytes \<Rightarrow>
               (case ensure_test_file fenv path (unat bytes) disk_seed of
                  None \<Rightarrow> None
                | Some (Inl e) \<Rightarrow> Some (Inl e)
                | Some (Inr (written, _)) \<Rightarrow>
                    Some (Inr (path @ '': '' @ to_dec (unat bytes) @ '' bytes ('' @ to_dec written @ '' written now)'' @ [CHR 0x0A])))))"

definition disk_clean :: "string option \<Rightarrow> string \<Rightarrow> (string \<rightharpoonup> nat) \<Rightarrow> string \<times> (string \<rightharpoonup> nat)" where
  "disk_clean home disk_path fs =
     (let path = disk_path_of home disk_path in
      case remove_test_file path fs of
        (True, fs') \<Rightarrow> (''removed '' @ path @ [CHR 0x0A], fs')
      | (False, fs') \<Rightarrow> (''nothing to remove at '' @ path @ [CHR 0x0A], fs'))"

section \<open>A run ends well\<close>

lemma stoi_bound: "stoi s = Inr n \<Longrightarrow> n < 2 ^ 31"
  by (auto simp: stoi_def stol_def Let_def rbind_eq_Inr split: if_splits)

lemma rmap_Inr_list_all:
  "rmap f xs = Inr ys \<Longrightarrow> (\<And>x y. f x = Inr y \<Longrightarrow> P y) \<Longrightarrow> list_all P ys"
  by (induction xs arbitrary: ys) (auto simp: rbind_eq_Inr)

text \<open>The numbers of the configuration fit their type when the members the parser stores do.\<close>

lemma run_settings_int32:
  assumes "run_settings a budget ws ms = Inr cfg" "rc_trials (ra_cfg a) < 2 ^ 31" "rc_canary_retries (ra_cfg a) < 2 ^ 31 - 1"
  shows "config_int32 cfg"
proof -
  obtain threads where "rmap stoi (split_csv (ra_threads_csv a)) = Inr threads" "rc_thread_counts cfg = threads"
      "rc_trials cfg = rc_trials (ra_cfg a)" "rc_canary_retries cfg = rc_canary_retries (ra_cfg a)"
    using assms(1) by (auto simp: run_settings_def Let_def rbind_eq_Inr split: if_split_asm)
  then show ?thesis using assms(2,3) rmap_Inr_list_all [where f = stoi and P = "\<lambda>n. n < 2 ^ 31"] stoi_bound
    by (auto simp: config_int32_def)
qed

lemma run_config_int32:
  assumes "run_config a = Inr cfg" "rc_trials (ra_cfg a) < 2 ^ 31" "rc_canary_retries (ra_cfg a) < 2 ^ 31 - 1"
  shows "config_int32 cfg"
  using run_config_settings [OF assms(1)] run_settings_int32 assms(2,3) by blast

lemma write_json_success:
  "write_json dumped path can_open = Inr (rc, written) \<Longrightarrow> (rc = 0 \<or> rc = 1)
    \<and> (rc = 0 \<longrightarrow> (\<exists>txt. dumped = Inr txt \<and> written = Some (if path = [] then ''-'' else path, txt @ [CHR 0x0A])))"
  by (auto simp: write_json_def split: sum.splits if_splits)

text \<open>The outcome of handing over a valid document.\<close>

lemma emit_document_sound:
  assumes "emit_document L E dump dump_out version can_open net oa j = Some (Inr oc)" "validate_run L j = []"
    "js_find L j ''results'' = Some results"
  shows "oc_code oc \<in> {0, 1} \<and> (oc_code oc = 0 \<longrightarrow>
      (oa_out_path oa \<noteq> [] \<or> oa_post_url oa = [] \<longrightarrow> (\<exists>txt. dump_out j = Inr txt
        \<and> oc_written oc = Some (if oa_out_path oa = [] then ''-'' else oa_out_path oa, txt @ [CHR 0x0A])))
      \<and> (oa_post_url oa \<noteq> [] \<longrightarrow> oc_posted oc = envelope_parts L E j (js_elements L results) (oa_post_chunk oa)))"
proof -
  define want where "want \<longleftrightarrow> oa_out_path oa \<noteq> [] \<or> oa_post_url oa = []"
  note run = assms(1) [unfolded emit_document_def Let_def assms(2) if_P [OF refl] want_def [symmetric]]
  obtain rc written where w: "(if want then write_json (dump_out j) (oa_out_path oa) can_open else Inr (0, None)) = Inr (rc, written)"
    using run by (cases "if want then write_json (dump_out j) (oa_out_path oa) can_open else Inr (0, None)") auto
  have rc: "rc = 0 \<or> rc = 1" "want \<Longrightarrow> rc = 0 \<Longrightarrow> \<exists>txt. dump_out j = Inr txt
      \<and> written = Some (if oa_out_path oa = [] then ''-'' else oa_out_path oa, txt @ [CHR 0x0A])"
    using w write_json_success [of "dump_out j" "oa_out_path oa" can_open rc written] by (simp_all split: if_split_asm)
  show ?thesis
  proof (cases "rc = 0 \<and> oa_post_url oa \<noteq> []")
    case True
    obtain e parts out where post: "post_envelope L E dump version net j (oa_post_url oa) (oa_post_timeout_ms oa) (oa_post_chunk oa) = (e, parts, out)"
      by (metis prod_cases3)
    obtain r where e: "e = Returned r" and oc: "oc = \<lparr>oc_code = r, oc_written = written, oc_posted = parts, oc_printed = out\<rparr>"
      using run True by (cases e) (simp_all add: w post)
    have "r = 0 \<or> r = 1" using post_envelope_code post by (simp add: e)
    moreover have "r = 0 \<Longrightarrow> parts = envelope_parts L E j (js_elements L results) (oa_post_chunk oa)"
      using post_envelope_success [OF assms(3)] post by (simp add: e)
    ultimately show ?thesis using rc True by (simp add: oc want_def)
  next
    case False
    then have "oc = \<lparr>oc_code = rc, oc_written = written, oc_posted = [], oc_printed = []\<rparr>"
      using run by (simp add: w del: de_Morgan_conj)
    then show ?thesis using rc False by (auto simp: want_def)
  qed
qed

context json_library
begin

lemma run_members:
  "is_object L (run_to_json L run)"
  "js_find L (run_to_json L run) ''results'' = Some (js_array L (map (result_to_json L) (e_results run)))"
  "js_find L (run_to_json L run) ''summary'' = Some (js_array L (map (summary_to_json L) (e_summary run)))"
  "js_find L (run_to_json L run) ''machine'' = Some (machine_to_json L (e_machine run))"
  by (simp_all add: run_to_json_def kinds find_object)

end


definition example_run_args :: run_args where
  "example_run_args = \<lparr>ra_all = False, ra_workloads_csv = ''cpu_int'', ra_metrics_csv = [], ra_threads_csv = ''1'', ra_ws_csv = ''0'',
     ra_write_budget = ''0'', ra_trial_ms_given = True, ra_cold = ''none'', ra_pin = False, ra_interleave = False,
     ra_verbose = False, ra_cpus_csv = [], ra_cfg = example_config\<lparr>rc_workloads := []\<rparr>\<rparr>"

definition example_output :: output_args where
  "example_output = \<lparr>oa_out_path = ''run.json'', oa_post_url = [], oa_post_timeout_ms = 10000, oa_post_chunk = 50000\<rparr>"

lemma example_run_config: "run_config example_run_args = Inr example_config"
proof -
  have "split_csv ''cpu_int'' = [''cpu_int'']" "split_csv ''1'' = [''1'']" "split_csv ''0'' = [''0'']" "split_csv [] = []"
    by (simp_all add: split_csv_def)
  moreover have "stoi ''1'' = Inr 1" by code_simp
  moreover have "parse_cold_mode ''none'' = Some CM_none" by code_simp
  moreover have "parse_size ''0'' = Inr 0"
    using parse_size_suffix [of "''0''" 0 1 0] by (simp add: from_chars_unsigned_def Let_def digit_val_def is_digit_def digits_val_def suffix_shift_def)
  moreover have "select_workload ''cpu_int'' = Inr W_cpu_int"
    using parse_workload_to_string [of W_cpu_int] by (simp add: select_workload_def is_implemented_all)
  moreover have "write_gate False True [W_cpu_int] [] = Inr ([W_cpu_int], [])"
    by (simp add: write_gate_def Let_def metrics_of_table is_disk_write_def)
  ultimately show ?thesis
    by (simp add: run_config_def run_settings_def Let_def example_run_args_def example_config_def example_options_def all_workloads_def)
qed


section \<open>The report\<close>

text \<open>The row of a summary.\<close>

definition summary_report :: "fp \<Rightarrow> bool \<Rightarrow> Summary \<Rightarrow> ReportRow" where
  "summary_report A wide s =
     \<lparr>rr_metric = metric_to_string (s_metric s), rr_thread_count = s_thread_count s, rr_working_set = s_working_set_bytes s,
      rr_median = s_median s, rr_mean = s_mean s, rr_cov_pct = fp2 A (*) (s_cov s) (Num 100),
      rr_mad_pct = (if s_median s = Num 0 then Num 0 else fp2 A (*) (fp2 A (/) (s_mad s) (s_median s)) (Num 100)),
      rr_wide = (if wide then Some \<lparr>rw_n = s_n s, rw_min = s_min s, rw_max = s_max s,
          rw_late_pct = fp2 A (/) (fp2 A (*) (Num 100) (Num (of_int (s_late_trials s)))) (Num (of_int (s_n s))),
          rw_attempts = s_canary_attempts s, rw_clock_start = s_clock_call_ns_start s, rw_clock_end = s_clock_call_ns_end s\<rparr>
        else None)\<rparr>"

context json_library
begin

lemma report_row_summary:
  assumes "summary_ok s" "1 \<le> s_n s"
  shows "report_row L A wide (summary_to_json L s) = Inr (summary_report A wide s)"
  using assms
  by (simp add: report_row_def report_wide_def summary_to_json_def value_object get_of summary_ok_def summary_report_def
      mad_percent_def late_percent_def)

lemma report_machine_run:
  "report_machine L (run_to_json L run) = Inr (Some (m_cpu_model (e_machine run), m_os (e_machine run)))"
  by (simp add: report_machine_def run_members machine_to_json_def kinds value_object get_of)

lemma report_command_run:
  assumes "run_ok run" "run_valid L run" "e_summary run \<noteq> []"
  shows "report_command L A wide (Inr (run_to_json L run)) = Inr (0, Some
    \<lparr>rt_machine = Some (m_cpu_model (e_machine run), m_os (e_machine run)), rt_run_id = e_run_id run,
     rt_started_at = e_started_at run, rt_finished_at = e_finished_at run,
     rt_rows = map (summary_report A wide) (e_summary run)\<rparr>)"
proof -
  have v: "validate_run L (run_to_json L run) = []" using validate_run_valid assms(1,2) by blast
  have "rmap (report_row L A wide) (map (summary_to_json L) (e_summary run)) = Inr (map (summary_report A wide) (e_summary run))"
    using assms(1,2) by (intro rmap_Inr_map report_row_summary) (auto simp: run_ok_def run_valid_def list_all_iff summary_valid_def)
  moreover have "js_value L (js_get_string L) (run_to_json L run) key d = Inr x"
    if "(key, x) \<in> {(''run_id'', e_run_id run), (''started_at'', e_started_at run), (''finished_at'', e_finished_at run)}" for key d x
    using that by (elim insertE emptyE) (simp_all add: run_to_json_def value_object get_of)
  ultimately show ?thesis
    using assms(3) by (simp add: report_command_def v run_members elements_array kinds report_machine_run)
qed

end



text \<open>
  The validator looks at the value of \<open>mad\<close> only when it is a number, and the report reads it as
  one: a document \<open>bench validate\<close> calls valid can end \<open>bench report\<close> with an uncaught exception.
\<close>

lemma report_throws_on_valid_summary:
  "check_summary json_values (json_set (summary_to_json json_values (hd (e_summary example_run))) ''mad'' (J_string ''x'')) i = []"
  "\<exists>e. report_row json_values A wide (json_set (summary_to_json json_values (hd (e_summary example_run))) ''mad'' (J_string ''x'')) = Inl (Json_error e)"
proof -
  define s where "s = json_set (summary_to_json json_values (hd (e_summary example_run))) ''mad'' (J_string ''x'')"
  have s: "s = J_object
     [(''workload'', J_string ''cpu_int''), (''metric'', J_string ''cpu_int_ops''), (''thread_count'', J_int 2),
      (''working_set_bytes'', J_uint 0), (''n'', J_int 1), (''mean'', J_float (Num 5)), (''median'', J_float (Num 5)),
      (''stddev'', J_float (Num 0)), (''cov'', J_float (Num 0)), (''min'', J_float (Num 5)), (''p5'', J_float (Num 5)),
      (''p95'', J_float (Num 5)), (''max'', J_float (Num 5)), (''mad'', J_string ''x''), (''late_trials'', J_int 0),
      (''canary_attempts'', J_int 1), (''clock_call_ns_start'', J_float (Num 20)), (''clock_call_ns_end'', J_float (Num 21))]"
    by (simp add: s_def summary_to_json_def example_run_def json_values_def)
  have m: "parse_metric ''cpu_int_ops'' = Some M_cpu_int_ops" "parse_workload ''cpu_int'' = Some W_cpu_int"
    using parse_metric_to_string [of M_cpu_int_ops] parse_workload_to_string [of W_cpu_int] by simp_all
  show "check_summary json_values s i = []" for i
    by (simp add: check_summary_def Let_def require_def check_key_def check_metric_def check_workload_def metric_of_def check_late_def
        check_order_def contains_def num_at_def s json_values_def js_kind_defs json_get_signed_def wrap_signed_def m)
  show "\<exists>e. report_row json_values A wide s = Inl (Json_error e)"
    by (simp add: report_row_def js_value_def s json_values_def js_kind_defs)
qed

text \<open>
  \<open>dump\<close> throws on text that is not UTF-8, for instance in \<open>argv\<close>: the exception leaves the
  callback before anything is written, and the measurements of the whole run are lost.
\<close>

lemma dump_failure_loses_run:
  "dump_out j = Inl e \<Longrightarrow> oa_post_url oa = [] \<Longrightarrow>
    emit_document L E dump dump_out version can_open net oa j = Some (Inl (Json_error e))"
  by (simp add: emit_document_def write_json_def Let_def)

end
